(* ===== verification/Prelude.thy ===== *)
theory Prelude
  imports Main "HOL-Library.Word"
begin

text \<open>
  Shared vocabulary of the development: machine integers, the little-endian byte layout that
  every packed protocol structure uses, and the ordered association lists that stand for
  \<^verbatim>\<open>std::map\<close>.

  Three fact collections are filled by the components: \<open>frame_simps\<close> (fields an operation does
  not touch), \<open>codec_simps\<close> (lengths and round trips of encoders) and \<open>inv_intros\<close>
  (operations that keep an invariant).
\<close>

unbundle bit_operations_syntax

named_theorems frame_simps
named_theorems codec_simps
named_theorems inv_intros

section \<open>Machine integers\<close>

type_synonym u8 = "8 word"
type_synonym u16 = "16 word"
type_synonym u32 = "32 word"
type_synonym u64 = "64 word"
type_synonym i32 = "32 word"
type_synonym bytes = "8 word list"

text \<open>A C \<^verbatim>\<open>int\<close> is kept as its 32-bit word; its value is read with \<^const>\<open>sint\<close>.\<close>

lemma sint_small: "w < 0x80000000 \<Longrightarrow> \<not> sint (w :: i32) < 0"
proof -
  assume "w < 0x80000000"
  then have "unat w div 2 ^ 31 = 0" by (simp add: word_less_nat_alt)
  then have "\<not> bit (unat w) 31" by (simp add: bit_iff_odd)
  then have "\<not> bit w 31" by (simp add: bit_unsigned_iff)
  then show ?thesis using bit_last_iff [of w] by simp
qed

section \<open>Little-endian layout\<close>

fun le_bytes :: "nat \<Rightarrow> 'a::len word \<Rightarrow> bytes" where
  "le_bytes 0 w = []"
| "le_bytes (Suc n) w = ucast w # le_bytes n (drop_bit 8 w)"

fun le_word :: "bytes \<Rightarrow> 'a::len word" where
  "le_word [] = 0"
| "le_word (b # bs) = ucast b OR push_bit 8 (le_word bs)"

lemma length_le_bytes [simp, codec_simps]: "length (le_bytes n w) = n"
  by (induction n arbitrary: w) auto

lemma bit_le_word_le_bytes:
  "bit (le_word (le_bytes n (w :: 'a::len word)) :: 'a word) i \<longleftrightarrow> i < 8 * n \<and> bit w i"
proof (induction n arbitrary: w i)
  case 0
  then show ?case by simp
next
  case (Suc n)
  show ?case
    using bit_imp_le_length [of w i]
    by (auto simp: bit_or_iff bit_push_bit_iff bit_ucast_iff bit_drop_bit_eq Suc.IH)
qed

lemma le_word_le_bytes [codec_simps]:
  assumes "LENGTH('a) \<le> 8 * n"
  shows "le_word (le_bytes n (w :: 'a::len word)) = w"
  using assms by (intro bit_word_eqI) (auto simp: bit_le_word_le_bytes)

lemma le_word_le_bytes_sizes [simp, codec_simps]:
  "le_word (le_bytes 2 (a :: u16)) = a"
  "le_word (le_bytes 4 (b :: u32)) = b"
  "le_word (le_bytes 8 (c :: u64)) = c"
  by (rule le_word_le_bytes, simp)+

lemma bit_le_word:
  "bit (le_word bs :: 'a::len word) i \<longleftrightarrow>
     i < LENGTH('a) \<and> i div 8 < length bs \<and> bit (bs ! (i div 8)) (i mod 8)"
proof (induction bs arbitrary: i)
  case Nil
  then show ?case by simp
next
  case (Cons b bs)
  show ?case
  proof (cases "i < 8")
    case True
    then show ?thesis
      by (auto simp: bit_or_iff bit_push_bit_iff bit_ucast_iff dest: bit_imp_le_length)
  next
    case False
    then have d: "i div 8 = Suc ((i - 8) div 8)" and m: "i mod 8 = (i - 8) mod 8"
      by (simp_all add: le_div_geq le_mod_geq)
    have nb: "\<not> bit b i" using False bit_imp_le_length [of b i] by auto
    show ?thesis
      using False unfolding d m
      by (auto simp: bit_or_iff bit_push_bit_iff bit_ucast_iff Cons.IH nb)
  qed
qed

section \<open>Ordered maps\<close>

text \<open>
  \<^verbatim>\<open>std::map\<close> is a list of entries with strictly increasing keys, so that iteration order is
  the order the code visits.
\<close>

type_synonym ('k, 'v) omap = "('k \<times> 'v) list"

abbreviation ordered_keys :: "('k::linorder, 'v) omap \<Rightarrow> bool" where
  "ordered_keys m \<equiv> sorted_wrt (<) (map fst m)"

fun omap_put :: "'k::linorder \<Rightarrow> 'v \<Rightarrow> ('k, 'v) omap \<Rightarrow> ('k, 'v) omap" where
  "omap_put k v [] = [(k, v)]"
| "omap_put k v (e # m) =
     (if k < fst e then (k, v) # e # m
      else if fst e < k then e # omap_put k v m
      else (k, v) # m)"

definition omap_erase :: "'k \<Rightarrow> ('k, 'v) omap \<Rightarrow> ('k, 'v) omap" where
  "omap_erase k m = filter (\<lambda>e. fst e \<noteq> k) m"

lemma omap_erase_simps [simp]:
  "omap_erase k [] = []"
  "omap_erase k (e # m) = (if fst e = k then omap_erase k m else e # omap_erase k m)"
  by (simp_all add: omap_erase_def)

lemma map_of_omap_put [simp]: "map_of (omap_put k v m) = (map_of m)(k \<mapsto> v)"
  by (induction m) (auto simp: fun_eq_iff)

lemma map_of_omap_erase [simp]: "map_of (omap_erase k m) = (map_of m)(k := None)"
  by (induction m) (auto simp: fun_eq_iff)

lemma fst_set_omap_put [simp]: "fst ` set (omap_put k v m) = insert k (fst ` set m)"
  by (induction m) (auto intro: rev_image_eqI)

lemma ordered_keys_put [simp, inv_intros]: "ordered_keys m \<Longrightarrow> ordered_keys (omap_put k v m)"
  by (induction m) (auto simp: fst_set_omap_put [unfolded image_set [symmetric]] image_iff)

lemma ordered_keys_filter [simp, inv_intros]: "ordered_keys m \<Longrightarrow> ordered_keys (filter P m)"
  by (induction m) auto

lemma ordered_keys_erase [simp, inv_intros]: "ordered_keys m \<Longrightarrow> ordered_keys (omap_erase k m)"
  by (simp add: omap_erase_def)

lemma ordered_keys_distinct: "ordered_keys m \<Longrightarrow> distinct (map fst m)"
  by (induction m) auto

lemma set_omap_erase [simp]: "set (omap_erase k m) = {e \<in> set m. fst e \<noteq> k}"
  by (auto simp: omap_erase_def)

lemma set_omap_put_fresh:
  "k \<notin> fst ` set m \<Longrightarrow> set (omap_put k v m) = insert (k, v) (set m)"
  by (induction m) (auto simp: image_iff)

lemma omap_erase_fresh [simp]: "k \<notin> fst ` set m \<Longrightarrow> omap_erase k m = m"
  by (induction m) auto

lemma omap_put_last: "\<forall>x \<in> set m. fst x < k \<Longrightarrow> omap_put k v m = m @ [(k, v)]"
  by (induction m) auto

lemma omap_put_put [simp]: "omap_put k v (omap_put k u m) = omap_put k v m"
  by (induction m) auto

lemma omap_erase_put [simp]: "omap_erase k (omap_put k v m) = omap_erase k m"
  by (induction m) (auto simp: not_less_iff_gr_or_eq)

section \<open>Lists and options\<close>

lemma take_append_exact [simp]: "length xs = n \<Longrightarrow> take n (xs @ ys) = xs"
  by simp

lemma drop_append_exact [simp]: "length xs = n \<Longrightarrow> drop n (xs @ ys) = ys"
  by simp

end
