(* ===== verification/Pending_Table.thy ===== *)
theory Pending_Table
  imports Prelude "HOL-Library.Multiset"
begin

text \<open>
  \<^verbatim>\<open>shell/core/pending_request_table.h\<close>: the table of requests that wait for a response, shared
  by the control channel and the guest control client. Every public operation of the class runs
  under its mutex, so each is one atomic function on the table. \<^verbatim>\<open>std::function\<close> may be empty,
  hence the optional callbacks; the clock is an argument.

  The contract the two clients rely on is the locale \<open>request_table\<close>: a callback that is
  registered under a fresh key leaves the table exactly once, through exactly one of
  \<open>take\<close>, \<open>sweep_timeouts\<close> and \<open>fail_all\<close>.
\<close>

section \<open>The table\<close>

record 'c Pending =
  callback :: "'c option"
  deadlineMs :: u64

type_synonym ('k, 'c) table = "('k, 'c Pending) omap"

definition add :: "u64 \<Rightarrow> 'k::linorder \<Rightarrow> 'c option \<Rightarrow> u64 \<Rightarrow> ('k, 'c) table \<Rightarrow> ('k, 'c) table" where
  "add now key cb timeout_ms t =
     omap_put key \<lparr>callback = cb, deadlineMs = now + timeout_ms\<rparr> t"

definition take_pending :: "'k \<Rightarrow> ('k, 'c) table \<Rightarrow> 'c option \<times> ('k, 'c) table" where
  "take_pending key t =
     (case map_of t key of
        None \<Rightarrow> (None, t)
      | Some p \<Rightarrow> (callback p, omap_erase key t))"

text \<open>The callbacks a list of entries holds, empty ones skipped, in iteration order.\<close>

fun nonempty :: "'c option list \<Rightarrow> 'c list" where
  "nonempty [] = []"
| "nonempty (None # cs) = nonempty cs"
| "nonempty (Some c # cs) = c # nonempty cs"

definition fail_all :: "('k, 'c) table \<Rightarrow> 'c list \<times> ('k, 'c) table" where
  "fail_all t = (nonempty (map (callback \<circ> snd) t), [])"

fun sweep_loop :: "u64 \<Rightarrow> ('k, 'c) table \<Rightarrow> 'c option list \<times> ('k, 'c) table" where
  "sweep_loop now [] = ([], [])"
| "sweep_loop now (e # t) =
     (let (expired, kept) = sweep_loop now t in
      if deadlineMs (snd e) \<le> now then (callback (snd e) # expired, kept)
      else (expired, e # kept))"

definition sweep_timeouts :: "u64 \<Rightarrow> ('k, 'c) table \<Rightarrow> 'c list \<times> ('k, 'c) table" where
  "sweep_timeouts now t = (let (expired, kept) = sweep_loop now t in (nonempty expired, kept))"

section \<open>What the table holds\<close>

definition outstanding :: "('k, 'c) table \<Rightarrow> 'c multiset" where
  "outstanding t = mset (nonempty (map (callback \<circ> snd) t))"

definition waiting :: "('k, 'c) table \<Rightarrow> 'k set" where
  "waiting t = fst ` set t"

lemma nonempty_append [simp]: "nonempty (xs @ ys) = nonempty xs @ nonempty ys"
  by (induction xs rule: nonempty.induct) auto

lemma set_nonempty [simp]: "set (nonempty xs) = {c. Some c \<in> set xs}"
  by (induction xs rule: nonempty.induct) auto

lemma nonempty_cons: "nonempty (c # cs) = (case c of None \<Rightarrow> [] | Some x \<Rightarrow> [x]) @ nonempty cs"
  by (cases c) auto

lemma outstanding_Nil [simp]: "outstanding [] = {#}"
  by (simp add: outstanding_def)

lemma outstanding_Cons [simp]:
  "outstanding (e # t) = mset_set (set_option (callback (snd e))) + outstanding t"
  by (cases "callback (snd e)") (auto simp: outstanding_def)

lemma waiting_simps [simp]:
  "waiting [] = {}" "waiting (e # t) = insert (fst e) (waiting t)"
  by (auto simp: waiting_def)

lemma waiting_add [simp]: "waiting (add now k c tmo t) = insert k (waiting t)"
  by (simp add: waiting_def add_def)

lemma outstanding_put_fresh:
  "k \<notin> waiting t \<Longrightarrow>
     outstanding (omap_put k p t) = mset_set (set_option (callback p)) + outstanding t"
  by (induction t) (auto simp: ac_simps)

lemma outstanding_add:
  "k \<notin> waiting t \<Longrightarrow> outstanding (add now k c tmo t) = mset_set (set_option c) + outstanding t"
  by (simp add: add_def outstanding_put_fresh)

lemma outstanding_erase:
  assumes "ordered_keys t" and "map_of t k = Some p"
  shows "outstanding t = mset_set (set_option (callback p)) + outstanding (omap_erase k t)"
  using assms
proof (induction t)
  case Nil
  then show ?case by simp
next
  case (Cons e t)
  show ?case
  proof (cases "fst e = k")
    case True
    with Cons.prems have "k \<notin> fst ` set t" by auto
    with True Cons.prems show ?thesis by simp
  next
    case False
    with Cons show ?thesis by (auto simp: ac_simps)
  qed
qed

lemma take_pending_split:
  assumes "ordered_keys t"
  shows "outstanding t =
           mset_set (set_option (fst (take_pending k t))) + outstanding (snd (take_pending k t))"
  using outstanding_erase [OF assms]
  by (auto simp: take_pending_def split: option.split)

lemma waiting_take_pending [simp]: "waiting (snd (take_pending k t)) = waiting t - {k}"
  by (auto simp: take_pending_def waiting_def map_of_eq_None_iff image_iff split: option.split)

lemma take_pending_ordered [simp, inv_intros]:
  "ordered_keys t \<Longrightarrow> ordered_keys (snd (take_pending k t))"
  by (simp add: take_pending_def split: option.split)

lemma add_ordered [simp, inv_intros]: "ordered_keys t \<Longrightarrow> ordered_keys (add now k c tmo t)"
  by (simp add: add_def)

lemma sweep_loop_filter:
  "sweep_loop now t =
     (map (callback \<circ> snd) (filter (\<lambda>e. deadlineMs (snd e) \<le> now) t),
      filter (\<lambda>e. \<not> deadlineMs (snd e) \<le> now) t)"
  by (induction t) auto

lemma outstanding_partition:
  "outstanding t = outstanding (filter P t) + outstanding (filter (\<lambda>e. \<not> P e) t)"
  by (induction t) (auto simp: ac_simps)

lemma sweep_timeouts_eq:
  "sweep_timeouts now t =
     (nonempty (map (callback \<circ> snd) (filter (\<lambda>e. deadlineMs (snd e) \<le> now) t)),
      filter (\<lambda>e. \<not> deadlineMs (snd e) \<le> now) t)"
  by (simp add: sweep_timeouts_def sweep_loop_filter)

lemma sweep_timeouts_split:
  "outstanding t = mset (fst (sweep_timeouts now t)) + outstanding (snd (sweep_timeouts now t))"
  using outstanding_partition [of t "\<lambda>e. deadlineMs (snd e) \<le> now"]
  by (simp add: sweep_timeouts_eq outstanding_def)

lemma sweep_timeouts_ordered [simp, inv_intros]:
  "ordered_keys t \<Longrightarrow> ordered_keys (snd (sweep_timeouts now t))"
  by (simp add: sweep_timeouts_eq)

lemma waiting_sweep_timeouts: "waiting (snd (sweep_timeouts now t)) \<subseteq> waiting t"
  by (auto simp: sweep_timeouts_eq waiting_def)

lemma fail_all_split:
  "outstanding t = mset (fst (fail_all t))" "snd (fail_all t) = []"
  by (simp_all add: fail_all_def outstanding_def)

section \<open>The interface of the table\<close>

datatype ('k, 'c) table_op =
    Add u64 'k "'c option" u64
  | Take 'k
  | Fail_all
  | Sweep u64

text \<open>A client of a table is a sequence of operations; it collects the callbacks it gets back.\<close>

fun run_ops :: "('t \<Rightarrow> 'o \<Rightarrow> 't \<times> 'c list) \<Rightarrow> 't \<Rightarrow> 'o list \<Rightarrow> 't \<times> 'c list" where
  "run_ops step t [] = (t, [])"
| "run_ops step t (x # xs) =
     (let (t', out) = step t x; (t'', out') = run_ops step t' xs in (t'', out @ out'))"

fun table_step :: "('k::linorder, 'c) table \<Rightarrow> ('k, 'c) table_op \<Rightarrow> ('k, 'c) table \<times> 'c list" where
  "table_step t (Add now k c tmo) = (add now k c tmo t, [])"
| "table_step t (Take k) = (let (c, t') = take_pending k t in (t', nonempty [c]))"
| "table_step t Fail_all = (let (cs, t') = fail_all t in (t', cs))"
| "table_step t (Sweep now) = (let (cs, t') = sweep_timeouts now t in (t', cs))"

fun added :: "('k, 'c) table_op list \<Rightarrow> 'c list" where
  "added [] = []"
| "added (Add now k c tmo # xs) = nonempty [c] @ added xs"
| "added (x # xs) = added xs"

text \<open>The keys a sequence registers, in order: clients take them from a counter.\<close>

fun added_keys :: "('k, 'c) table_op list \<Rightarrow> 'k list" where
  "added_keys [] = []"
| "added_keys (Add now k c tmo # xs) = k # added_keys xs"
| "added_keys (x # xs) = added_keys xs"

locale request_table =
  fixes step :: "'t \<Rightarrow> ('k, 'c) table_op \<Rightarrow> 't \<times> 'c list"
    and held :: "'t \<Rightarrow> 'c multiset"
    and keys :: "'t \<Rightarrow> 'k set"
    and invar :: "'t \<Rightarrow> bool"
  assumes step_invar: "invar t \<Longrightarrow> invar (fst (step t x))"
    and step_add: "invar t \<Longrightarrow> k \<notin> keys t \<Longrightarrow>
        held (fst (step t (Add now k c tmo))) = mset_set (set_option c) + held t \<and>
        snd (step t (Add now k c tmo)) = []"
    and step_other: "invar t \<Longrightarrow> added [x] = [] \<Longrightarrow> added_keys [x] = [] \<Longrightarrow>
        held t = mset (snd (step t x)) + held (fst (step t x))"
    and step_keys: "keys (fst (step t x)) \<subseteq> keys t \<union> set (added_keys [x])"
    and fail_all_empties: "held (fst (step t Fail_all)) = {#}"
begin

lemma conservation:
  assumes "invar t" and "distinct (added_keys xs)" and "keys t \<inter> set (added_keys xs) = {}"
  shows "held t + mset (added xs) =
           mset (snd (run_ops step t xs)) + held (fst (run_ops step t xs))"
  using assms
proof (induction xs arbitrary: t)
  case Nil
  then show ?case by simp
next
  case (Cons x xs)
  obtain t' out where st: "step t x = (t', out)" by fastforce
  have inv: "invar t'" using step_invar [OF Cons.prems(1), of x] st by simp
  have d: "distinct (added_keys xs)"
    using Cons.prems(2) by (cases x) auto
  have kk: "keys t' \<inter> set (added_keys xs) = {}"
    using step_keys [of t x] Cons.prems(2,3) st by (cases x) auto
  have ih: "held t' + mset (added xs) =
      mset (snd (run_ops step t' xs)) + held (fst (run_ops step t' xs))"
    by (rule Cons.IH [OF inv d kk])
  have one: "held t + mset (added (x # xs)) = mset out + (held t' + mset (added xs))"
  proof (cases "added_keys [x] = []")
    case True
    then have "added [x] = []" and ax: "added (x # xs) = added xs" by (cases x; simp)+
    then show ?thesis using step_other [OF Cons.prems(1) _ True] st by (simp add: ac_simps)
  next
    case False
    then obtain now k c tmo where x: "x = Add now k c tmo" by (cases x) auto
    with Cons.prems(3) have "k \<notin> keys t" by auto
    from step_add [OF Cons.prems(1) this, of now c tmo] st x show ?thesis
      by (cases c) (auto simp: ac_simps)
  qed
  show ?case using one ih st by (simp add: case_prod_beta ac_simps)
qed

lemma drained:
  assumes "invar t" and "held t = {#}" and "distinct (added_keys xs)"
    and "keys t \<inter> set (added_keys xs) = {}"
  shows "mset (snd (run_ops step t (xs @ [Fail_all]))) = mset (added xs)"
proof -
  have k: "added_keys (xs @ [Fail_all]) = added_keys xs" for xs :: "('k, 'c) table_op list"
    by (induction xs rule: added_keys.induct) auto
  have a: "added (xs @ [Fail_all]) = added xs" for xs :: "('k, 'c) table_op list"
    by (induction xs rule: added.induct) auto
  have e: "held (fst (run_ops step s (ys @ [Fail_all]))) = {#}" for s ys
    by (induction ys arbitrary: s) (simp_all add: case_prod_beta fail_all_empties)
  show ?thesis
    using conservation [of t "xs @ [Fail_all]"] assms by (simp add: k a e)
qed

end

interpretation pt: request_table table_step outstanding waiting ordered_keys
proof unfold_locales
  fix t :: "('k::linorder, 'c) table" and x :: "('k, 'c) table_op"
  assume inv: "ordered_keys t"
  show "ordered_keys (fst (table_step t x))"
    using inv by (cases x) (auto simp: case_prod_beta fail_all_split)
  assume "added [x] = []" and "added_keys [x] = []"
  then show "outstanding t = mset (snd (table_step t x)) + outstanding (fst (table_step t x))"
  proof (cases x)
    case (Take k)
    then show ?thesis
      using take_pending_split [OF inv, of k]
      by (cases "fst (take_pending k t)") (auto simp: case_prod_beta)
  next
    case Fail_all
    then show ?thesis by (simp add: fail_all_def outstanding_def)
  next
    case (Sweep now)
    then show ?thesis using sweep_timeouts_split [of t now] by (simp add: case_prod_beta)
  qed simp
next
  fix t :: "('k::linorder, 'c) table" and now tmo k and c :: "'c option"
  assume "ordered_keys t" and "k \<notin> waiting t"
  then show "outstanding (fst (table_step t (Add now k c tmo))) =
      mset_set (set_option c) + outstanding t \<and> snd (table_step t (Add now k c tmo)) = []"
    by (simp add: outstanding_add)
next
  fix t :: "('k::linorder, 'c) table" and x :: "('k, 'c) table_op"
  show "waiting (fst (table_step t x)) \<subseteq> waiting t \<union> set (added_keys [x])"
    using waiting_sweep_timeouts by (cases x) (fastforce simp: case_prod_beta fail_all_split)+
next
  fix t :: "('k::linorder, 'c) table"
  show "outstanding (fst (table_step t Fail_all)) = {#}"
    by (simp add: fail_all_def)
qed

section \<open>Properties\<close>

text \<open>
  Whatever sequence of operations a client runs on an empty table with keys that do not
  repeat, the callbacks it registered are the callbacks it got back together with those still in
  the table, counted with multiplicity: none is lost and none is handed out twice. After a final
  \<open>fail_all\<close> every registered callback has been handed out.
\<close>

theorem callbacks_conserved:
  assumes "distinct (added_keys xs)"
  shows "mset (added xs) =
           mset (snd (run_ops table_step [] xs)) + outstanding (fst (run_ops table_step [] xs)) \<and>
         mset (snd (run_ops table_step [] (xs @ [Fail_all]))) = mset (added xs)"
  using pt.conservation [of "[]" xs] pt.drained [of "[]" xs] assms by simp_all

text \<open>
  A timeout sweep hands out exactly the callbacks whose deadline has been reached, in key
  order, and keeps exactly the entries whose deadline lies ahead.
\<close>

theorem sweep_exact:
  "fst (sweep_timeouts now t) = nonempty [callback (snd e). e \<leftarrow> t, deadlineMs (snd e) \<le> now] \<and>
   snd (sweep_timeouts now t) = [e \<leftarrow> t. now < deadlineMs (snd e)]"
proof -
  have "map (callback \<circ> snd) (filter (\<lambda>e. deadlineMs (snd e) \<le> now) t) =
      [callback (snd e). e \<leftarrow> t, deadlineMs (snd e) \<le> now]"
    by (induction t) auto
  then show ?thesis by (simp add: sweep_timeouts_eq not_le)
qed

text \<open>
  Registering under a key that is still waiting replaces the entry: the callback registered
  first is in no table and is never handed out. The table therefore needs fresh keys.
\<close>

theorem add_drops_waiting_callback:
  "take_pending k (add now2 k (Some c2) tmo2 (add now1 k (Some c1) tmo1 t)) =
     (Some c2, omap_erase k t)"
  by (simp add: take_pending_def add_def)

end
