(* ===== verification/Hid_Keyboard.thy ===== *)
theory Hid_Keyboard
  imports Prelude
begin

text \<open>
  \<^verbatim>\<open>shell/core/hid_keyboard.{h,cpp}\<close>: the translation of Apple virtual key codes to USB HID
  usages and the boot-keyboard report that is sent through Android UHID. The state keeps the
  pressed flags of the usages \<^verbatim>\<open>0..0x65\<close> and the eight report bytes: the modifier byte, the
  reserved byte and up to six ordinary keys.
\<close>

section \<open>Key codes\<close>

definition mac_key_table :: "(u16 \<times> u8) list" where
  "mac_key_table =
     [
      (0x00, 0x04), (0x0b, 0x05), (0x08, 0x06), (0x02, 0x07), (0x0e, 0x08), (0x03, 0x09),
      (0x05, 0x0a), (0x04, 0x0b), (0x22, 0x0c), (0x26, 0x0d), (0x28, 0x0e), (0x25, 0x0f),
      (0x2e, 0x10), (0x2d, 0x11), (0x1f, 0x12), (0x23, 0x13), (0x0c, 0x14), (0x0f, 0x15),
      (0x01, 0x16), (0x11, 0x17), (0x20, 0x18), (0x09, 0x19), (0x0d, 0x1a), (0x07, 0x1b),
      (0x10, 0x1c), (0x06, 0x1d), (0x12, 0x1e), (0x13, 0x1f), (0x14, 0x20), (0x15, 0x21),
      (0x17, 0x22), (0x16, 0x23), (0x1a, 0x24), (0x1c, 0x25), (0x19, 0x26), (0x1d, 0x27),
      (0x24, 0x28), (0x35, 0x29), (0x33, 0x2a), (0x30, 0x2b), (0x31, 0x2c), (0x1b, 0x2d),
      (0x18, 0x2e), (0x21, 0x2f), (0x1e, 0x30), (0x2a, 0x31), (0x29, 0x33), (0x27, 0x34),
      (0x32, 0x35), (0x2b, 0x36), (0x2f, 0x37), (0x2c, 0x38), (0x39, 0x39), (0x7a, 0x3a),
      (0x78, 0x3b), (0x63, 0x3c), (0x76, 0x3d), (0x60, 0x3e), (0x61, 0x3f), (0x62, 0x40),
      (0x64, 0x41), (0x65, 0x42), (0x6d, 0x43), (0x67, 0x44), (0x6f, 0x45), (0x72, 0x49),
      (0x73, 0x4a), (0x74, 0x4b), (0x75, 0x4c), (0x77, 0x4d), (0x79, 0x4e), (0x7c, 0x4f),
      (0x7b, 0x50), (0x7d, 0x51), (0x7e, 0x52), (0x47, 0x53), (0x4b, 0x54), (0x43, 0x55),
      (0x4e, 0x56), (0x45, 0x57), (0x4c, 0x58), (0x53, 0x59), (0x54, 0x5a), (0x55, 0x5b),
      (0x56, 0x5c), (0x57, 0x5d), (0x58, 0x5e), (0x59, 0x5f), (0x5b, 0x60), (0x5c, 0x61),
      (0x52, 0x62), (0x41, 0x63), (0x0a, 0x64), (0x51, 0), (0x3b, 0xe0), (0x38, 0xe1),
      (0x3a, 0xe2), (0x37, 0xe3), (0x3e, 0xe4), (0x3c, 0xe5), (0x3d, 0xe6), (0x36, 0xe7)
     ]"

definition mac_virtual_key_to_hid_usage :: "u16 \<Rightarrow> u8" where
  "mac_virtual_key_to_hid_usage key_code =
     (case map_of mac_key_table key_code of None \<Rightarrow> 0 | Some usage \<Rightarrow> usage)"

section \<open>The keyboard state\<close>

definition kHidKeyboardReportSize :: nat where "kHidKeyboardReportSize = 8"
definition kHidKeyboardFirstModifier :: u8 where "kHidKeyboardFirstModifier = 0xe0"
definition kHidKeyboardLastModifier :: u8 where "kHidKeyboardLastModifier = 0xe7"

record HidKeyboardState =
  keys :: "bool list"
  report :: bytes

definition fresh_keyboard :: HidKeyboardState where
  "fresh_keyboard =
     \<lparr>keys = replicate 0x66 False, report = replicate kHidKeyboardReportSize 0\<rparr>"

text \<open>\<^verbatim>\<open>std::fill(report_.begin() + 2, report_.end(), v)\<close>\<close>

definition fill_keys :: "u8 \<Rightarrow> bytes \<Rightarrow> bytes" where
  "fill_keys v r = take 2 r @ replicate (length r - 2) v"

fun rebuild_loop :: "bool list \<Rightarrow> nat list \<Rightarrow> nat \<Rightarrow> bytes \<Rightarrow> bytes" where
  "rebuild_loop ks [] count r = r"
| "rebuild_loop ks (usage # us) count r =
     (if \<not> ks ! usage then rebuild_loop ks us count r
      else if count \<ge> 6 then fill_keys 0x01 r
      else rebuild_loop ks us (Suc count) (r[2 + count := of_nat usage]))"

definition rebuild_keys :: "HidKeyboardState \<Rightarrow> HidKeyboardState" where
  "rebuild_keys s =
     s\<lparr>report := rebuild_loop (keys s) [4..<length (keys s)] 0 (fill_keys 0 (report s))\<rparr>"

definition is_modifier :: "u8 \<Rightarrow> bool" where
  "is_modifier usage \<longleftrightarrow>
     kHidKeyboardFirstModifier \<le> usage \<and> usage \<le> kHidKeyboardLastModifier"

definition modifier_mask :: "u8 \<Rightarrow> u8" where
  "modifier_mask usage = push_bit (unat (usage - kHidKeyboardFirstModifier)) 1"

definition set_key :: "u8 \<Rightarrow> bool \<Rightarrow> HidKeyboardState \<Rightarrow> bool \<times> HidKeyboardState" where
  "set_key usage pressed s =
     (if is_modifier usage then
        let mask = modifier_mask usage;
            wasPressed = (report s ! 0 AND mask) \<noteq> 0
        in if wasPressed = pressed then (False, s)
           else if pressed then (True, s\<lparr>report := (report s)[0 := report s ! 0 OR mask]\<rparr>)
           else (True, s\<lparr>report := (report s)[0 := report s ! 0 AND NOT mask]\<rparr>)
      else if usage < 0x04 \<or> unat usage \<ge> length (keys s) \<or> keys s ! unat usage = pressed
      then (False, s)
      else (True, rebuild_keys (s\<lparr>keys := (keys s)[unat usage := pressed]\<rparr>)))"

definition is_pressed :: "u8 \<Rightarrow> HidKeyboardState \<Rightarrow> bool" where
  "is_pressed usage s =
     (if is_modifier usage then (report s ! 0 AND modifier_mask usage) \<noteq> 0
      else unat usage < length (keys s) \<and> keys s ! unat usage)"

definition release_all :: "HidKeyboardState \<Rightarrow> bool \<times> HidKeyboardState" where
  "release_all s =
     (list_ex (\<lambda>byte. byte \<noteq> 0) (report s),
      \<lparr>keys = replicate (length (keys s)) False, report = replicate (length (report s)) 0\<rparr>)"

section \<open>The report a set of pressed keys stands for\<close>

text \<open>
  The reference definition: the usages pressed in ascending order, six slots, and the HID
  ErrorRollOver code in every slot when more than six keys are held.
\<close>

definition held_usages :: "bool list \<Rightarrow> nat list" where
  "held_usages ks = filter (\<lambda>u. ks ! u) [4..<length ks]"

definition boot_slots :: "nat list \<Rightarrow> bytes" where
  "boot_slots us =
     (if length us > 6 then replicate 6 0x01
      else map of_nat us @ replicate (6 - length us) 0)"

definition keyboard_inv :: "HidKeyboardState \<Rightarrow> bool" where
  "keyboard_inv s \<longleftrightarrow>
     length (keys s) = 0x66 \<and> length (report s) = 8 \<and> report s ! 1 = 0 \<and>
     (\<forall>u < 4. \<not> keys s ! u) \<and> drop 2 (report s) = boot_slots (held_usages (keys s))"

declare upt_rec_numeral [simp del]

lemma rebuild_loop_slots:
  assumes "length pre = 2" and "length acc \<le> 6"
  shows "rebuild_loop ks us (length acc) (pre @ map of_nat acc @ replicate (6 - length acc) 0) =
           pre @ boot_slots (acc @ filter (\<lambda>u. ks ! u) us)"
  using assms(2)
proof (induction us arbitrary: acc)
  case Nil
  then show ?case by (simp add: boot_slots_def)
next
  case (Cons u us)
  let ?r = "pre @ map of_nat acc @ replicate (6 - length acc) (0::u8)"
  show ?case
  proof (cases "ks ! u \<and> length acc < 6")
    case True
    then have "(replicate (6 - length acc) (0::u8))[0 := of_nat u] =
        of_nat u # replicate (6 - length (acc @ [u])) 0"
      by (cases "6 - length acc") auto
    then have "?r[2 + length acc := of_nat u] =
        pre @ map of_nat (acc @ [u]) @ replicate (6 - length (acc @ [u])) 0"
      using assms(1) by (simp add: list_update_append)
    then show ?thesis
      using True Cons.IH [of "acc @ [u]"] by simp
  next
    case False
    have "fill_keys 0x01 ?r = pre @ replicate 6 0x01" if "length acc = 6"
      using that assms(1) by (simp add: fill_keys_def)
    then show ?thesis
      using False Cons by (auto simp: boot_slots_def)
  qed
qed

lemma length_boot_slots [simp]: "length (boot_slots us) = 6"
  by (simp add: boot_slots_def)

lemma rebuild_keys_report:
  assumes "length (report s) = 8"
  shows "report (rebuild_keys s) = take 2 (report s) @ boot_slots (held_usages (keys s))"
  using rebuild_loop_slots [of "take 2 (report s)" "[]" "keys s" "[4..<length (keys s)]"] assms
  by (simp add: rebuild_keys_def fill_keys_def held_usages_def)

lemma rebuild_keys_keys [simp, frame_simps]: "keys (rebuild_keys s) = keys s"
  by (simp add: rebuild_keys_def)

section \<open>Pressed keys as a set\<close>

definition reportable :: "u8 \<Rightarrow> bool" where
  "reportable usage \<longleftrightarrow> is_modifier usage \<or> 0x04 \<le> usage \<and> usage < 0x66"

datatype key_event = Key u8 bool | Release

fun key_step :: "HidKeyboardState \<Rightarrow> key_event \<Rightarrow> HidKeyboardState" where
  "key_step s (Key usage pressed) = snd (set_key usage pressed s)"
| "key_step s Release = snd (release_all s)"

text \<open>The abstract keyboard: the set of reportable usages that are down.\<close>

fun key_spec :: "u8 set \<Rightarrow> key_event \<Rightarrow> u8 set" where
  "key_spec P (Key usage pressed) =
     (if \<not> reportable usage then P else if pressed then insert usage P else P - {usage})"
| "key_spec P Release = {}"

definition pressed_set :: "HidKeyboardState \<Rightarrow> u8 set" where
  "pressed_set s = {usage. is_pressed usage s}"

lemma modifier_mask_bit: "(w AND modifier_mask usage) \<noteq> 0 \<longleftrightarrow> bit w (unat (usage - 0xe0))"
  by (simp add: modifier_mask_def kHidKeyboardFirstModifier_def bit_iff_and_push_bit_not_eq_0)

lemma is_modifier_index: "is_modifier usage \<longleftrightarrow> unat (usage - 0xe0) < 8"
  using unsigned_less [of usage]
  by (auto simp: is_modifier_def kHidKeyboardFirstModifier_def kHidKeyboardLastModifier_def
      word_le_nat_alt unat_sub_if_size word_size)

lemma bit_modifier_mask: "is_modifier u \<Longrightarrow> bit (modifier_mask u) i \<longleftrightarrow> i = unat (u - 0xe0)"
  by (auto simp: modifier_mask_def kHidKeyboardFirstModifier_def is_modifier_index bit_exp_iff)

lemma modifier_index_inj:
  "unat (u - 0xe0) = unat (v - 0xe0) \<longleftrightarrow> u = (v :: u8)"
  by (metis diff_add_cancel unsigned_word_eqI)

lemma boot_slots_zero: "(\<forall>b \<in> set (boot_slots us). b = 0) \<longleftrightarrow> (\<forall>u \<in> set us. (of_nat u :: u8) = 0) \<and> length us \<le> 6"
  by (auto simp: boot_slots_def)

lemma set_held_usages: "set (held_usages ks) = {u. 4 \<le> u \<and> u < length ks \<and> ks ! u}"
  by (auto simp: held_usages_def)

lemma of_nat_held_nonzero:
  assumes "u \<in> set (held_usages ks)" and "length ks = 0x66"
  shows "(of_nat u :: u8) \<noteq> 0"
proof -
  have "4 \<le> u" and "u < 0x66" using assms by (simp_all add: set_held_usages)
  then show ?thesis by (auto simp: word_of_nat_eq_0_iff dest: dvd_imp_le)
qed

lemma unat_u8_inject [simp]: "unat (a :: u8) = unat b \<longleftrightarrow> a = b"
  by (simp add: word_unat_eq_iff)

lemma keyboard_inv_fresh: "keyboard_inv fresh_keyboard"
proof -
  have "held_usages (replicate n False) = []" for n
    by (auto simp: held_usages_def filter_empty_conv)
  then show ?thesis
    by (simp add: keyboard_inv_def fresh_keyboard_def kHidKeyboardReportSize_def boot_slots_def)
qed

lemma keyboard_inv_set_key: "keyboard_inv s \<Longrightarrow> keyboard_inv (snd (set_key usage pressed s))"
proof (cases "is_modifier usage")
  case True
  assume "keyboard_inv s"
  then have "keyboard_inv (s\<lparr>report := (report s)[0 := b]\<rparr>)" for b
    by (simp add: keyboard_inv_def drop_update_cancel)
  with \<open>keyboard_inv s\<close> show ?thesis using True by (simp add: set_key_def Let_def)
next
  case False
  assume inv: "keyboard_inv s"
  let ?s = "s\<lparr>keys := (keys s)[unat usage := pressed]\<rparr>"
  have "keyboard_inv (rebuild_keys ?s)" if "\<not> usage < 0x04"
  proof -
    have "4 \<le> unat usage" using that by unat_arith
    moreover have "report (rebuild_keys ?s) ! 1 = 0"
      using inv rebuild_keys_report [of ?s] by (simp add: keyboard_inv_def nth_append)
    ultimately show ?thesis
      using inv rebuild_keys_report [of ?s] by (simp add: keyboard_inv_def)
  qed
  with inv False show ?thesis by (simp add: set_key_def)
qed

lemma keyboard_inv_release_all: "keyboard_inv s \<Longrightarrow> keyboard_inv (snd (release_all s))"
  using keyboard_inv_fresh
  by (simp add: release_all_def keyboard_inv_def fresh_keyboard_def kHidKeyboardReportSize_def)

lemma keyboard_inv_step [inv_intros]: "keyboard_inv s \<Longrightarrow> keyboard_inv (key_step s e)"
  by (cases e) (simp_all add: keyboard_inv_set_key keyboard_inv_release_all)

lemma report_rebuild_0:
  "length (report s) = 8 \<Longrightarrow> report (rebuild_keys s) ! 0 = report s ! 0"
  by (simp add: rebuild_keys_report nth_append)

lemma not_reportable_keys: "keyboard_inv s \<Longrightarrow> usage < (0x04 :: u8) \<Longrightarrow> \<not> keys s ! unat usage"
  unfolding keyboard_inv_def by (auto simp: word_less_nat_alt)

lemma pressed_set_set_key:
  assumes inv: "keyboard_inv s"
  shows "pressed_set (snd (set_key usage pressed s)) = key_spec (pressed_set s) (Key usage pressed)"
proof (cases "is_modifier usage")
  case True
  with inv have len: "0 < length (report s)" by (auto simp: keyboard_inv_def)
  have "is_pressed v (snd (set_key usage pressed s)) =
      (if v = usage then pressed else is_pressed v s)" for v
    using True len
    by (auto simp: set_key_def is_pressed_def Let_def modifier_mask_bit bit_or_iff bit_and_iff
        bit_not_iff bit_modifier_mask modifier_index_inj is_modifier_index
        dest: bit_imp_le_length)
  then show ?thesis using True by (auto simp: pressed_set_def reportable_def)
next
  case False
  from inv have len: "length (keys s) = 0x66" "length (report s) = 8"
    by (auto simp: keyboard_inv_def)
  have lo: "reportable usage \<longleftrightarrow> 4 \<le> unat usage \<and> unat usage < 0x66"
    using False by (auto simp: reportable_def word_le_nat_alt word_less_nat_alt)
  have "is_pressed v (snd (set_key usage pressed s)) =
      (if v = usage \<and> reportable usage then pressed else is_pressed v s)" for v
    using False len not_reportable_keys [OF inv, of usage]
    by (auto simp: set_key_def is_pressed_def Let_def report_rebuild_0 lo nth_list_update
        word_less_nat_alt)
  then show ?thesis by (auto simp: pressed_set_def)
qed

lemma pressed_set_release: "keyboard_inv s \<Longrightarrow> pressed_set (snd (release_all s)) = {}"
  by (auto simp: pressed_set_def release_all_def is_pressed_def keyboard_inv_def)

lemma pressed_set_step:
  "keyboard_inv s \<Longrightarrow> pressed_set (key_step s e) = key_spec (pressed_set s) e"
  by (cases e) (simp_all add: pressed_set_set_key pressed_set_release del: key_spec.simps(1))

lemma pressed_set_run:
  "keyboard_inv s \<Longrightarrow>
     keyboard_inv (foldl key_step s evs) \<and>
     pressed_set (foldl key_step s evs) = foldl key_spec (pressed_set s) evs"
  by (induction evs arbitrary: s) (simp_all add: keyboard_inv_step pressed_set_step)

lemma pressed_set_fresh: "pressed_set fresh_keyboard = {}"
  by (auto simp: pressed_set_def is_pressed_def fresh_keyboard_def kHidKeyboardReportSize_def)

lemma report_of_pressed:
  assumes "keyboard_inv s"
  shows "drop 2 (report s) = boot_slots [u \<leftarrow> [4..<0x66]. of_nat u \<in> pressed_set s]"
    and "map (bit (report s ! 0)) [0..<8] = map (\<lambda>i. 0xe0 + of_nat i \<in> pressed_set s) [0..<8]"
proof -
  have u: "unat (of_nat u :: u8) = u" if "u < 0x66" for u
    using that by (simp add: unat_of_nat take_bit_nat_eq_self)
  have m: "\<not> is_modifier (of_nat u)" if "u < 0x66" for u
    using that u [OF that] by (simp add: is_modifier_def kHidKeyboardFirstModifier_def word_le_nat_alt)
  have "held_usages (keys s) = [u \<leftarrow> [4..<0x66]. of_nat u \<in> pressed_set s]"
    using assms unfolding held_usages_def keyboard_inv_def
    by (auto simp: pressed_set_def is_pressed_def u m intro!: filter_cong)
  then show "drop 2 (report s) = boot_slots [u \<leftarrow> [4..<0x66]. of_nat u \<in> pressed_set s]"
    using assms by (simp add: keyboard_inv_def)
  have "unat (0xe0 + of_nat i - 0xe0 :: u8) = i" if "i < 8" for i
    using that by (simp add: unat_of_nat take_bit_nat_eq_self)
  then show "map (bit (report s ! 0)) [0..<8] = map (\<lambda>i. 0xe0 + of_nat i \<in> pressed_set s) [0..<8]"
    by (auto simp: pressed_set_def is_pressed_def is_modifier_index modifier_mask_bit)
qed

lemma any_nonzero_report:
  assumes "length r = 8"
  shows "(\<exists>b \<in> set r. b \<noteq> 0) \<longleftrightarrow>
           r ! 0 \<noteq> 0 \<or> r ! 1 \<noteq> 0 \<or> \<not> (\<forall>b \<in> set (drop 2 r). b = (0 :: u8))"
  using assms by (cases r; cases "tl r") auto

lemma some_modifier: "report s ! 0 \<noteq> 0 \<longleftrightarrow> (\<exists>usage. is_modifier usage \<and> is_pressed usage s)"
proof
  assume "report s ! 0 \<noteq> 0"
  then obtain i where i: "bit (report s ! 0) i" by (auto simp: bit_eq_iff)
  moreover from i have "i < 8" by (auto dest: bit_imp_le_length)
  ultimately have "unat (0xe0 + of_nat i - 0xe0 :: u8) = i"
    by (simp add: unat_of_nat take_bit_nat_eq_self)
  with i \<open>i < 8\<close> show "\<exists>usage. is_modifier usage \<and> is_pressed usage s"
    by (intro exI [of _ "0xe0 + of_nat i"])
      (simp add: is_pressed_def is_modifier_index modifier_mask_bit)
next
  assume "\<exists>usage. is_modifier usage \<and> is_pressed usage s"
  then show "report s ! 0 \<noteq> 0" by (auto simp: is_pressed_def)
qed

lemma some_ordinary_key:
  assumes "keyboard_inv s"
  shows "held_usages (keys s) \<noteq> [] \<longleftrightarrow> (\<exists>usage. \<not> is_modifier usage \<and> is_pressed usage s)"
proof
  assume "held_usages (keys s) \<noteq> []"
  then obtain u where "u \<in> set (held_usages (keys s))" by (cases "held_usages (keys s)") auto
  then have u: "4 \<le> u" "u < 0x66" "keys s ! u"
    using assms by (auto simp: set_held_usages keyboard_inv_def)
  then have n: "unat (of_nat u :: u8) = u" by (simp add: unat_of_nat take_bit_nat_eq_self)
  then have "\<not> is_modifier (of_nat u)"
    using u by (simp add: is_modifier_def kHidKeyboardFirstModifier_def word_le_nat_alt)
  with u n assms show "\<exists>usage. \<not> is_modifier usage \<and> is_pressed usage s"
    by (intro exI [of _ "of_nat u"]) (simp add: is_pressed_def keyboard_inv_def)
next
  assume "\<exists>usage. \<not> is_modifier usage \<and> is_pressed usage s"
  then obtain usage :: u8 where "unat usage < length (keys s)" "keys s ! unat usage"
    by (auto simp: is_pressed_def)
  moreover have "4 \<le> unat usage"
    using not_reportable_keys [OF assms, of usage] calculation(2)
    by (cases "usage < 4") (simp_all add: word_less_nat_alt)
  ultimately have "unat usage \<in> set (held_usages (keys s))" by (simp add: set_held_usages)
  then show "held_usages (keys s) \<noteq> []" by auto
qed

section \<open>Properties\<close>

text \<open>
  (C24) The report refines the abstract keyboard. After any sequence of key changes and releases
  on a fresh keyboard the six key bytes are the reference layout of the usages that are down (in
  ascending order, ErrorRollOver when more than six are held), the reserved byte is zero, and the
  modifier byte has exactly the bits of the modifiers that are down.
\<close>

theorem keyboard_report_refines:
  "let s = foldl key_step fresh_keyboard evs; P = foldl key_spec {} evs in
   drop 2 (report s) = boot_slots [u \<leftarrow> [4..<0x66]. of_nat u \<in> P] \<and> report s ! 1 = 0 \<and>
   length (report s) = kHidKeyboardReportSize \<and>
   map (bit (report s ! 0)) [0..<8] = map (\<lambda>i. 0xe0 + of_nat i \<in> P) [0..<8]"
proof -
  let ?s = "foldl key_step fresh_keyboard evs"
  have inv: "keyboard_inv ?s" and P: "pressed_set ?s = foldl key_spec {} evs"
    using pressed_set_run [OF keyboard_inv_fresh, of evs] by (simp_all add: pressed_set_fresh)
  show ?thesis
    using report_of_pressed [OF inv] inv
    by (simp add: Let_def P keyboard_inv_def kHidKeyboardReportSize_def)
qed

text \<open>
  \<open>set_key\<close> reports a change exactly when it changed the state, and afterwards
  \<open>is_pressed\<close> answers the new value for that usage, provided the descriptor can report
  it, and the old value for every other usage.
\<close>

theorem set_key_is_pressed:
  assumes "keyboard_inv s"
  shows "is_pressed v (snd (set_key usage pressed s)) =
           (if v = usage \<and> reportable usage then pressed else is_pressed v s) \<and>
         (fst (set_key usage pressed s) \<longleftrightarrow> snd (set_key usage pressed s) \<noteq> s)"
proof
  have "v \<in> pressed_set (snd (set_key usage pressed s)) \<longleftrightarrow>
      v \<in> key_spec (pressed_set s) (Key usage pressed)"
    by (simp only: pressed_set_set_key [OF assms])
  then show "is_pressed v (snd (set_key usage pressed s)) =
           (if v = usage \<and> reportable usage then pressed else is_pressed v s)"
    by (auto simp: pressed_set_def split: if_splits)
  have "is_pressed usage (snd (set_key usage pressed s)) \<noteq> is_pressed usage s"
    if "fst (set_key usage pressed s)"
  proof -
    from that have r: "reportable usage"
      using assms
      by (auto simp: set_key_def reportable_def keyboard_inv_def Let_def word_less_nat_alt
          word_le_nat_alt split: if_splits)
    have "is_pressed usage s \<noteq> pressed"
      using that by (auto simp: set_key_def is_pressed_def Let_def split: if_splits)
    then show ?thesis
      using r pressed_set_set_key [OF assms, of usage pressed]
      by (auto simp: pressed_set_def set_eq_iff split: if_splits)
  qed
  moreover have "snd (set_key usage pressed s) = s" if "\<not> fst (set_key usage pressed s)"
    using that by (auto simp: set_key_def Let_def split: if_splits)
  ultimately show "fst (set_key usage pressed s) \<longleftrightarrow> snd (set_key usage pressed s) \<noteq> s"
    by metis
qed

text \<open>
  \<open>release_all\<close> reports a change exactly when some key was down, and afterwards no key
  is down and the report is all zero.
\<close>

theorem release_all_clears:
  assumes "keyboard_inv s"
  shows "fst (release_all s) = (\<exists>usage. is_pressed usage s) \<and>
         \<not> is_pressed v (snd (release_all s)) \<and> report (snd (release_all s)) = replicate 8 0"
proof -
  have len: "length (report s) = 8" "length (keys s) = 0x66" and r1: "report s ! 1 = 0"
    and sl: "drop 2 (report s) = boot_slots (held_usages (keys s))"
    using assms by (auto simp: keyboard_inv_def)
  have "fst (release_all s) \<longleftrightarrow> report s ! 0 \<noteq> 0 \<or> \<not> (\<forall>b \<in> set (drop 2 (report s)). b = 0)"
    using any_nonzero_report [OF len(1)] r1 by (auto simp: release_all_def list_ex_iff)
  also have "\<dots> \<longleftrightarrow> report s ! 0 \<noteq> 0 \<or> held_usages (keys s) \<noteq> []"
    using of_nat_held_nonzero [OF _ len(2)] by (auto simp: sl boot_slots_zero)
  also have "\<dots> \<longleftrightarrow> (\<exists>usage. is_pressed usage s)"
    using some_modifier [of s] some_ordinary_key [OF assms] by auto
  finally show ?thesis
    using pressed_set_release [OF assms] len by (auto simp: pressed_set_def release_all_def)
qed

text \<open>
  Every key code translates to a usage the descriptor can report, or to 0, and no two key
  codes of the table share a usage, so distinct physical keys never merge.
\<close>

theorem key_codes_translate:
  "(mac_virtual_key_to_hid_usage k = 0 \<or> reportable (mac_virtual_key_to_hid_usage k)) \<and>
   distinct (map fst mac_key_table) \<and> distinct (filter (\<lambda>u. u \<noteq> 0) (map snd mac_key_table))"
proof -
  have t: "list_all (\<lambda>e. snd e = 0 \<or> reportable (snd e)) mac_key_table"
    by (simp add: mac_key_table_def reportable_def is_modifier_def kHidKeyboardFirstModifier_def
        kHidKeyboardLastModifier_def)
  have "mac_virtual_key_to_hid_usage k = 0 \<or>
      (\<exists>e \<in> set mac_key_table. mac_virtual_key_to_hid_usage k = snd e)"
    unfolding mac_virtual_key_to_hid_usage_def
    by (force split: option.split dest: map_of_SomeD)
  moreover have "distinct (map unat (map fst mac_key_table))"
    by (simp add: mac_key_table_def)
  then have "distinct (map fst mac_key_table)" by (rule conjunct1 [OF iffD1 [OF distinct_map]])
  moreover have "distinct (map unat (filter (\<lambda>u. u \<noteq> 0) (map snd mac_key_table)))"
    by (simp add: mac_key_table_def)
  then have "distinct (filter (\<lambda>u. u \<noteq> 0) (map snd mac_key_table))" by (rule conjunct1 [OF iffD1 [OF distinct_map]])
  ultimately show ?thesis using t by (auto simp: list_all_iff)
qed

end
