(* ===== verification/Stream_IO.thy ===== *)
theory Stream_IO
  imports Prelude
begin

text \<open>
  The loops that move a whole buffer through a stream socket. The shell and the emulator side have
  one copy each, written the same way: \<^verbatim>\<open>ControlChannel::read_exact\<close> and the two-chunk
  loop of \<^verbatim>\<open>ControlChannel::write_frame\<close> (\<^verbatim>\<open>shell/core/control_channel.cpp\<close>), and
  \<^verbatim>\<open>read_exact\<close> and \<^verbatim>\<open>write_all\<close> of \<^verbatim>\<open>macmu-control-receiver.cpp\<close>.

  What the kernel does is a script, one entry per system call that returns. A call for which the
  script has no entry has not returned: the loop is then blocked, a value of its own. The theorems
  quantify over scripts, so they hold for every fragmentation, interruption and failure.

  The contract clients use is the locale \<open>stream_reader\<close>: a read of \<open>n\<close> bytes
  depends only on the bytes the peer has sent and on whether it has closed, never on how they were
  cut into pieces.
\<close>

section \<open>Writing a whole buffer\<close>

text \<open>
  One \<^verbatim>\<open>send\<close> or \<^verbatim>\<open>write\<close> of a nonempty buffer: it accepted some bytes (never more
  than offered), was interrupted (\<^verbatim>\<open>EINTR\<close>) or failed. Accepting no byte counts as failure,
  as in the code.
\<close>

datatype tx = Accepted nat | Tx_interrupted | Tx_failed

text \<open>Result: whether the loop succeeded, the bytes handed over, and the rest of the script.\<close>

datatype sent = Tx_blocked bytes | Sent bool bytes "tx list"

fun sent_prepend :: "bytes \<Rightarrow> sent \<Rightarrow> sent" where
  "sent_prepend p (Tx_blocked d) = Tx_blocked (p @ d)"
| "sent_prepend p (Sent ok d s) = Sent ok (p @ d) s"

fun write_all :: "tx list \<Rightarrow> bytes \<Rightarrow> sent" where
  "write_all s [] = Sent True [] s"
| "write_all [] (b # bs) = Tx_blocked []"
| "write_all (Accepted n # s) (b # bs) =
     (if n > 0 then sent_prepend (take n (b # bs)) (write_all s (drop n (b # bs)))
      else Sent False [] s)"
| "write_all (Tx_interrupted # s) (b # bs) = write_all s (b # bs)"
| "write_all (Tx_failed # s) (b # bs) = Sent False [] s"

section \<open>Reading a whole buffer\<close>

text \<open>
  The incoming side: pieces as the reads see them, interruptions, and end of stream or a hard
  error. A read takes at most what it asked for; the rest of the piece stays for the next read.
\<close>

datatype rx = Piece bytes | Rx_interrupted | Rx_end

datatype 's got = Rx_blocked | Rx_failed | Got bytes 's

fun got_prepend :: "bytes \<Rightarrow> 's got \<Rightarrow> 's got" where
  "got_prepend p (Got d s) = Got (p @ d) s"
| "got_prepend p r = r"

fun read_exact :: "rx list \<Rightarrow> nat \<Rightarrow> rx list got" where
  "read_exact s 0 = Got [] s"
| "read_exact [] (Suc n) = Rx_blocked"
| "read_exact (Piece bs # s) (Suc n) =
     (if bs = [] then Rx_failed
      else if length bs \<le> Suc n then got_prepend bs (read_exact s (Suc n - length bs))
      else Got (take (Suc n) bs) (Piece (drop (Suc n) bs) # s))"
| "read_exact (Rx_interrupted # s) (Suc n) = read_exact s (Suc n)"
| "read_exact (Rx_end # s) (Suc n) = Rx_failed"

text \<open>What the peer has sent before it closed, and whether it has closed.\<close>

fun incoming :: "rx list \<Rightarrow> bytes" where
  "incoming [] = []"
| "incoming (Piece bs # s) = (if bs = [] then [] else bs @ incoming s)"
| "incoming (Rx_interrupted # s) = incoming s"
| "incoming (Rx_end # s) = []"

fun closed_stream :: "rx list \<Rightarrow> bool" where
  "closed_stream [] = False"
| "closed_stream (Piece bs # s) = (bs = [] \<or> closed_stream s)"
| "closed_stream (Rx_interrupted # s) = closed_stream s"
| "closed_stream (Rx_end # s) = True"

section \<open>Lemmas\<close>

lemma write_all_prefix:
  "write_all s d = Sent ok out r \<Longrightarrow> (ok \<longrightarrow> out = d) \<and> (\<not> ok \<longrightarrow> (\<exists>rest. rest \<noteq> [] \<and> d = out @ rest))"
proof (induction s d arbitrary: out rule: write_all.induct)
  case (3 n s b bs)
  show ?case
  proof (cases "n > 0")
    case True
    with 3(2) obtain out' where w: "write_all s (drop n (b # bs)) = Sent ok out' r"
      and out: "out = take n (b # bs) @ out'"
      by (cases "write_all s (drop n (b # bs))") auto
    from 3(1) [OF True w] show ?thesis
      unfolding out by (metis append_assoc append_take_drop_id)
  qed (use 3(2) in auto)
qed auto

lemma read_exact_got:
  "read_exact s n = Got d r \<Longrightarrow>
     length d = n \<and> incoming s = d @ incoming r \<and> closed_stream r = closed_stream s"
proof (induction s n arbitrary: d rule: read_exact.induct)
  case (3 bs s n)
  then show ?case
    by (cases "read_exact s (Suc n - length bs)") (auto split: if_splits)
qed auto

lemma read_exact_short:
  "length (incoming s) < n \<Longrightarrow>
     read_exact s n = (if closed_stream s then Rx_failed else Rx_blocked)"
proof (induction s n rule: read_exact.induct)
  case (3 bs s n)
  then show ?case by (cases "bs = []") (auto simp: less_diff_conv)
qed auto

lemma read_exact_enough:
  "n \<le> length (incoming s) \<Longrightarrow> \<exists>r. read_exact s n = Got (take n (incoming s)) r"
proof (induction s n rule: read_exact.induct)
  case (3 bs s n)
  show ?case
  proof (cases "bs \<noteq> [] \<and> length bs \<le> Suc n")
    case True
    with 3 obtain r where
      "read_exact s (Suc n - length bs) = Got (take (Suc n - length bs) (incoming s)) r"
      by (auto simp: le_diff_conv)
    with True show ?thesis by simp
  next
    case False
    with 3(2) show ?thesis by auto
  qed
qed auto

text \<open>
  Enough progress: interruptions do not count, and every call that returns accepts something.
\<close>

fun progress :: "tx list \<Rightarrow> nat" where
  "progress [] = 0"
| "progress (Accepted n # s) = (if n = 0 then 0 else n + progress s)"
| "progress (Tx_interrupted # s) = progress s"
| "progress (Tx_failed # s) = 0"

lemma write_all_complete: "length d \<le> progress s \<Longrightarrow> \<exists>r. write_all s d = Sent True d r"
proof (induction s d rule: write_all.induct)
  case (3 n s b bs)
  then have n: "n > 0" by (auto split: if_splits)
  with 3 obtain r where "write_all s (drop n (b # bs)) = Sent True (drop n (b # bs)) r"
    by fastforce
  with n have "write_all (Accepted n # s) (b # bs) = Sent True (take n (b # bs) @ drop n (b # bs)) r"
    by simp
  then show ?case by (simp only: append_take_drop_id) blast
qed auto

lemma write_all_blocked: "write_all s d = Tx_blocked out \<Longrightarrow> \<exists>rest. rest \<noteq> [] \<and> d = out @ rest"
proof (induction s d arbitrary: out rule: write_all.induct)
  case (3 n s b bs)
  then obtain out' where n: "n > 0" and w: "write_all s (drop n (b # bs)) = Tx_blocked out'"
    and out: "out = take n (b # bs) @ out'"
    by (cases "write_all s (drop n (b # bs))") (auto split: if_splits)
  from 3(1) [OF n w] show ?case unfolding out by (metis append_assoc append_take_drop_id)
qed auto

text \<open>The bytes a write attempt handed over, however it ended.\<close>

fun sent_bytes :: "sent \<Rightarrow> bytes" where
  "sent_bytes (Tx_blocked d) = d"
| "sent_bytes (Sent ok d s) = d"

fun sent_ok :: "sent \<Rightarrow> bool" where
  "sent_ok (Sent ok d s) = ok"
| "sent_ok (Tx_blocked d) = False"

lemma write_all_bytes:
  "\<exists>rest. d = sent_bytes (write_all s d) @ rest \<and> (rest = [] \<longleftrightarrow> sent_ok (write_all s d))"
proof (cases "write_all s d")
  case (Tx_blocked out)
  with write_all_blocked [OF this] show ?thesis by auto
next
  case (Sent ok out r)
  with write_all_prefix [OF this] show ?thesis by (cases ok) auto
qed

section \<open>The interface of an incoming stream\<close>

locale stream_reader =
  fixes rd :: "'s \<Rightarrow> nat \<Rightarrow> 's got"
    and arrived :: "'s \<Rightarrow> bytes"
    and ended :: "'s \<Rightarrow> bool"
  assumes rd_enough: "n \<le> length (arrived s) \<Longrightarrow>
      \<exists>r. rd s n = Got (take n (arrived s)) r \<and>
        arrived r = drop n (arrived s) \<and> ended r = ended s"
    and rd_short: "length (arrived s) < n \<Longrightarrow> rd s n = (if ended s then Rx_failed else Rx_blocked)"
begin

lemma rd_got:
  assumes "rd s n = Got d r"
  shows "n \<le> length (arrived s) \<and> d = take n (arrived s) \<and>
         arrived r = drop n (arrived s) \<and> ended r = ended s"
  using assms rd_enough [of n s] rd_short [of s n]
  by (cases "n \<le> length (arrived s)") (auto split: if_splits)

lemma rd_failed: "rd s n = Rx_failed \<longleftrightarrow> length (arrived s) < n \<and> ended s"
  using rd_enough [of n s] rd_short [of s n] by (cases "n \<le> length (arrived s)") auto

lemma rd_blocked: "rd s n = Rx_blocked \<longleftrightarrow> length (arrived s) < n \<and> \<not> ended s"
  using rd_enough [of n s] rd_short [of s n] by (cases "n \<le> length (arrived s)") auto

text \<open>A client cannot tell two streams apart that carry the same bytes.\<close>

lemma rd_same:
  assumes "arrived s = arrived s'" and "ended s = ended s'"
  shows "(case rd s n of Rx_blocked \<Rightarrow> rd s' n = Rx_blocked | Rx_failed \<Rightarrow> rd s' n = Rx_failed
          | Got d r \<Rightarrow> \<exists>r'. rd s' n = Got d r' \<and> arrived r = arrived r' \<and> ended r = ended r')"
proof (cases "rd s n")
  case Rx_blocked
  with rd_blocked [of s n] rd_blocked [of s' n] assms show ?thesis by simp
next
  case Rx_failed
  with rd_failed [of s n] rd_failed [of s' n] assms show ?thesis by simp
next
  case (Got d r)
  from rd_got [OF this] rd_enough [of n s'] Got assms show ?thesis by auto
qed

text \<open>A header of fixed size followed by a body whose size the header gives.\<close>

lemma rd_header_body:
  assumes "n + m (take n (arrived s)) \<le> length (arrived s)"
  shows "\<exists>r r'. rd s n = Got (take n (arrived s)) r \<and>
           rd r (m (take n (arrived s))) = Got (take (m (take n (arrived s))) (drop n (arrived s))) r' \<and>
           arrived r' = drop (n + m (take n (arrived s))) (arrived s) \<and> ended r' = ended s"
proof -
  let ?m = "m (take n (arrived s))"
  obtain r where r: "rd s n = Got (take n (arrived s)) r" "arrived r = drop n (arrived s)"
    "ended r = ended s"
    using rd_enough [of n s] assms by auto
  then have "?m \<le> length (arrived r)" using assms by simp
  from rd_enough [OF this] r show ?thesis by (auto simp: ac_simps)
qed

end

interpretation sock: stream_reader read_exact incoming closed_stream
proof unfold_locales
  fix n s
  assume "n \<le> length (incoming s)"
  from read_exact_enough [OF this] obtain r where "read_exact s n = Got (take n (incoming s)) r" ..
  with read_exact_got [OF this]
  show "\<exists>r. read_exact s n = Got (take n (incoming s)) r \<and>
      incoming r = drop n (incoming s) \<and> closed_stream r = closed_stream s"
    by (metis append_take_drop_id same_append_eq)
qed (rule read_exact_short)

section \<open>Properties\<close>

text \<open>
  Reading \<open>n\<close> bytes: the loop returns the first \<open>n\<close> bytes the peer sent when
  there are that many, fails when the peer closed before, and otherwise is still waiting. How the
  bytes were cut into pieces and how often the calls were interrupted does not matter.
\<close>

theorem read_exact_outcome:
  "read_exact s n = Rx_blocked \<and> length (incoming s) < n \<and> \<not> closed_stream s \<or>
   read_exact s n = Rx_failed \<and> length (incoming s) < n \<and> closed_stream s \<or>
   (\<exists>r. read_exact s n = Got (take n (incoming s)) r \<and>
        incoming s = take n (incoming s) @ incoming r \<and> n \<le> length (incoming s) \<and>
        closed_stream r = closed_stream s)"
  using sock.rd_failed [of s n] sock.rd_blocked [of s n] sock.rd_got [of s n]
  by (cases "read_exact s n") auto



end
