(* ===== verification/Control_Protocol.thy ===== *)
theory Control_Protocol
  imports Prelude
begin

text \<open>
  \<^verbatim>\<open>shell/protocol/macmu_control_protocol.h\<close>, the wire format both ends of the control plane
  share: a packed little-endian header of 16 bytes and payload structures, written and read with
  \<^verbatim>\<open>memcpy\<close> on little-endian hosts. Every structure is a record with its encoder and its
  decoder; a decoder reads the first bytes of its argument and ignores what follows, as the
  \<^verbatim>\<open>memcpy\<close> of a structure from a longer payload does.
\<close>

section \<open>Constants\<close>

definition kControlProtocolMagic :: u32 where "kControlProtocolMagic = 0x4d4d4350"
definition kControlProtocolVersion :: u16 where "kControlProtocolVersion = 1"
definition kControlMaxPayload :: u32 where "kControlMaxPayload = 64 * 1024"
definition kControlChildFd :: int where "kControlChildFd = 197"

datatype ControlMessageType =
    kHello | kPing | kDisplayAdd | kDisplayRemove | kDisplayList | kDisplayStream
  | kHelloAck | kPong | kDisplayAddOk | kDisplayRemoveOk | kDisplayListOk | kDisplayStreamOk
  | kError | kEventDisplay | kEventBoot

fun message_code :: "ControlMessageType \<Rightarrow> u16" where
  "message_code kHello = 0x0001"
| "message_code kPing = 0x0002"
| "message_code kDisplayAdd = 0x0010"
| "message_code kDisplayRemove = 0x0011"
| "message_code kDisplayList = 0x0012"
| "message_code kDisplayStream = 0x0013"
| "message_code kHelloAck = 0x0101"
| "message_code kPong = 0x0102"
| "message_code kDisplayAddOk = 0x0110"
| "message_code kDisplayRemoveOk = 0x0111"
| "message_code kDisplayListOk = 0x0112"
| "message_code kDisplayStreamOk = 0x0113"
| "message_code kError = 0x01FF"
| "message_code kEventDisplay = 0x0201"
| "message_code kEventBoot = 0x0202"

definition control_response_type :: "u16 \<Rightarrow> u16" where
  "control_response_type requestType = requestType OR 0x0100"

definition kControlErrUnsupported :: i32 where "kControlErrUnsupported = 1"
definition kControlErrInvalidArgument :: i32 where "kControlErrInvalidArgument = 2"
definition kControlErrRejected :: i32 where "kControlErrRejected = 3"
definition kControlErrNotReady :: i32 where "kControlErrNotReady = 4"
definition kControlErrInternal :: i32 where "kControlErrInternal = 5"

definition kControlDisplayAdded :: u32 where "kControlDisplayAdded = 1"
definition kControlDisplayChanged :: u32 where "kControlDisplayChanged = 2"
definition kControlDisplayRemoved :: u32 where "kControlDisplayRemoved = 3"

definition kControlDisplayIdAuto :: u32 where "kControlDisplayIdAuto = 0xFFFFFFFF"

section \<open>Structures\<close>

record ControlFrameHeader =
  magic :: u32
  version :: u16
  msgType :: u16
  requestId :: u32
  payloadLength :: u32

record ControlHello =
  protoVersion :: u32

record ControlHelloAck =
  ackProtoVersion :: u32
  capabilities :: u32
  maxDisplays :: u32
  frameShmVersion :: u32

record ControlPong =
  timestampNs :: u64

record ControlDisplayAdd =
  addDisplayId :: u32
  addWidth :: u32
  addHeight :: u32
  addDpi :: u32
  addFlags :: u32

record ControlDisplayAddOk =
  addedDisplayId :: u32

record ControlDisplayRemove =
  removeDisplayId :: u32

record ControlDisplayStream =
  streamDisplayId :: u32
  streamEnabled :: u32
  maximumFramesPerSecond :: u32

record ControlDisplayInfo =
  infoDisplayId :: u32
  infoWidth :: u32
  infoHeight :: u32
  infoDpi :: u32
  infoFlags :: u32
  infoEnabled :: u32

record ControlDisplayListOk =
  listCount :: u32

record ControlError =
  errCode :: i32
  errMsgLen :: u32

record ControlEventDisplay =
  eventDisplayId :: u32
  eventState :: u32
  eventWidth :: u32
  eventHeight :: u32
  eventDpi :: u32
  eventFlags :: u32

record ControlEventBoot =
  bootStage :: u32

section \<open>Encoders and decoders\<close>

text \<open>Most structures are sequences of 32-bit fields.\<close>

definition encode_u32s :: "u32 list \<Rightarrow> bytes" where
  "encode_u32s ws = concat (map (le_bytes 4) ws)"

definition u32_at :: "nat \<Rightarrow> bytes \<Rightarrow> u32" where
  "u32_at i bs = le_word (take 4 (drop (4 * i) bs))"

definition encode_header :: "ControlFrameHeader \<Rightarrow> bytes" where
  "encode_header h =
     le_bytes 4 (magic h) @ le_bytes 2 (version h) @ le_bytes 2 (msgType h) @
     le_bytes 4 (requestId h) @ le_bytes 4 (payloadLength h)"

definition decode_header :: "bytes \<Rightarrow> ControlFrameHeader" where
  "decode_header bs =
     \<lparr>magic = le_word (take 4 bs), version = le_word (take 2 (drop 4 bs)),
      msgType = le_word (take 2 (drop 6 bs)), requestId = le_word (take 4 (drop 8 bs)),
      payloadLength = le_word (take 4 (drop 12 bs))\<rparr>"

definition encode_hello :: "ControlHello \<Rightarrow> bytes" where
  "encode_hello p = encode_u32s [protoVersion p]"

definition decode_hello :: "bytes \<Rightarrow> ControlHello" where
  "decode_hello bs = \<lparr>protoVersion = u32_at 0 bs\<rparr>"

definition encode_hello_ack :: "ControlHelloAck \<Rightarrow> bytes" where
  "encode_hello_ack p =
     encode_u32s [ackProtoVersion p, capabilities p, maxDisplays p, frameShmVersion p]"

definition decode_hello_ack :: "bytes \<Rightarrow> ControlHelloAck" where
  "decode_hello_ack bs =
     \<lparr>ackProtoVersion = u32_at 0 bs, capabilities = u32_at 1 bs, maxDisplays = u32_at 2 bs,
      frameShmVersion = u32_at 3 bs\<rparr>"

definition encode_pong :: "ControlPong \<Rightarrow> bytes" where
  "encode_pong p = le_bytes 8 (timestampNs p)"

definition decode_pong :: "bytes \<Rightarrow> ControlPong" where
  "decode_pong bs = \<lparr>timestampNs = le_word (take 8 bs)\<rparr>"

definition encode_display_add :: "ControlDisplayAdd \<Rightarrow> bytes" where
  "encode_display_add p =
     encode_u32s [addDisplayId p, addWidth p, addHeight p, addDpi p, addFlags p]"

definition decode_display_add :: "bytes \<Rightarrow> ControlDisplayAdd" where
  "decode_display_add bs =
     \<lparr>addDisplayId = u32_at 0 bs, addWidth = u32_at 1 bs, addHeight = u32_at 2 bs,
      addDpi = u32_at 3 bs, addFlags = u32_at 4 bs\<rparr>"

definition encode_display_add_ok :: "ControlDisplayAddOk \<Rightarrow> bytes" where
  "encode_display_add_ok p = encode_u32s [addedDisplayId p]"

definition decode_display_add_ok :: "bytes \<Rightarrow> ControlDisplayAddOk" where
  "decode_display_add_ok bs = \<lparr>addedDisplayId = u32_at 0 bs\<rparr>"

definition encode_display_remove :: "ControlDisplayRemove \<Rightarrow> bytes" where
  "encode_display_remove p = encode_u32s [removeDisplayId p]"

definition decode_display_remove :: "bytes \<Rightarrow> ControlDisplayRemove" where
  "decode_display_remove bs = \<lparr>removeDisplayId = u32_at 0 bs\<rparr>"

definition encode_display_stream :: "ControlDisplayStream \<Rightarrow> bytes" where
  "encode_display_stream p =
     encode_u32s [streamDisplayId p, streamEnabled p, maximumFramesPerSecond p]"

definition decode_display_stream :: "bytes \<Rightarrow> ControlDisplayStream" where
  "decode_display_stream bs =
     \<lparr>streamDisplayId = u32_at 0 bs, streamEnabled = u32_at 1 bs,
      maximumFramesPerSecond = u32_at 2 bs\<rparr>"

definition encode_display_info :: "ControlDisplayInfo \<Rightarrow> bytes" where
  "encode_display_info p =
     encode_u32s [infoDisplayId p, infoWidth p, infoHeight p, infoDpi p, infoFlags p,
       infoEnabled p]"

definition decode_display_info :: "bytes \<Rightarrow> ControlDisplayInfo" where
  "decode_display_info bs =
     \<lparr>infoDisplayId = u32_at 0 bs, infoWidth = u32_at 1 bs, infoHeight = u32_at 2 bs,
      infoDpi = u32_at 3 bs, infoFlags = u32_at 4 bs, infoEnabled = u32_at 5 bs\<rparr>"

definition encode_list_ok :: "ControlDisplayListOk \<Rightarrow> bytes" where
  "encode_list_ok p = encode_u32s [listCount p]"

definition decode_list_ok :: "bytes \<Rightarrow> ControlDisplayListOk" where
  "decode_list_ok bs = \<lparr>listCount = u32_at 0 bs\<rparr>"

definition encode_error :: "ControlError \<Rightarrow> bytes" where
  "encode_error p = encode_u32s [errCode p, errMsgLen p]"

definition decode_error :: "bytes \<Rightarrow> ControlError" where
  "decode_error bs = \<lparr>errCode = u32_at 0 bs, errMsgLen = u32_at 1 bs\<rparr>"

definition encode_event_display :: "ControlEventDisplay \<Rightarrow> bytes" where
  "encode_event_display p =
     encode_u32s [eventDisplayId p, eventState p, eventWidth p, eventHeight p, eventDpi p,
       eventFlags p]"

definition decode_event_display :: "bytes \<Rightarrow> ControlEventDisplay" where
  "decode_event_display bs =
     \<lparr>eventDisplayId = u32_at 0 bs, eventState = u32_at 1 bs, eventWidth = u32_at 2 bs,
      eventHeight = u32_at 3 bs, eventDpi = u32_at 4 bs, eventFlags = u32_at 5 bs\<rparr>"

definition encode_event_boot :: "ControlEventBoot \<Rightarrow> bytes" where
  "encode_event_boot p = encode_u32s [bootStage p]"

definition decode_event_boot :: "bytes \<Rightarrow> ControlEventBoot" where
  "decode_event_boot bs = \<lparr>bootStage = u32_at 0 bs\<rparr>"

section \<open>Frames\<close>

text \<open>
  A frame is the header both senders build, followed by the payload
  (\<^verbatim>\<open>ControlChannel::write_frame\<close> and \<^verbatim>\<open>MacMuControlReceiver::send_frame\<close> fill the
  header the same way), and the check both receivers make before they read the payload.
\<close>

definition frame_header :: "u16 \<Rightarrow> u32 \<Rightarrow> u32 \<Rightarrow> ControlFrameHeader" where
  "frame_header type request_id len =
     \<lparr>magic = kControlProtocolMagic, version = kControlProtocolVersion, msgType = type,
      requestId = request_id, payloadLength = len\<rparr>"

definition bad_header :: "ControlFrameHeader \<Rightarrow> bool" where
  "bad_header h \<longleftrightarrow>
     magic h \<noteq> kControlProtocolMagic \<or> version h \<noteq> kControlProtocolVersion \<or>
     payloadLength h > kControlMaxPayload"

definition encode_frame :: "u16 \<Rightarrow> u32 \<Rightarrow> bytes \<Rightarrow> bytes" where
  "encode_frame type request_id payload =
     encode_header (frame_header type request_id (of_nat (length payload))) @ payload"

section \<open>Lemmas\<close>

lemma length_encode_u32s [simp, codec_simps]: "length (encode_u32s ws) = 4 * length ws"
  by (induction ws) (auto simp: encode_u32s_def)

lemma encode_u32s_Cons: "encode_u32s (w # ws) = le_bytes 4 w @ encode_u32s ws"
  by (simp add: encode_u32s_def)

lemma u32_at_encode [simp, codec_simps]: "i < length ws \<Longrightarrow> u32_at i (encode_u32s ws @ r) = ws ! i"
proof (induction ws arbitrary: i)
  case Nil
  then show ?case by simp
next
  case (Cons w ws)
  show ?case
  proof (cases i)
    case 0
    then show ?thesis by (simp add: u32_at_def encode_u32s_Cons)
  next
    case (Suc j)
    then have "u32_at i (encode_u32s (w # ws) @ r) = u32_at j (encode_u32s ws @ r)"
      by (simp add: u32_at_def encode_u32s_Cons)
    with Suc Cons show ?thesis by simp
  qed
qed

lemma length_encode_header [simp, codec_simps]: "length (encode_header h) = 16"
  by (simp add: encode_header_def)

lemma decode_encode_header [simp, codec_simps]: "decode_header (encode_header h @ r) = h"
  by (simp add: decode_header_def encode_header_def)

lemmas struct_codec_defs =
  encode_hello_def encode_hello_ack_def encode_pong_def encode_display_add_def
  encode_display_add_ok_def encode_display_remove_def encode_display_stream_def
  encode_display_info_def encode_list_ok_def encode_error_def encode_event_display_def
  encode_event_boot_def decode_hello_def decode_hello_ack_def decode_pong_def
  decode_display_add_def decode_display_add_ok_def decode_display_remove_def
  decode_display_stream_def decode_display_info_def decode_list_ok_def decode_error_def
  decode_event_display_def decode_event_boot_def

lemma struct_sizes [simp, codec_simps]:
  "length (encode_hello a) = 4" "length (encode_hello_ack b) = 16" "length (encode_pong c) = 8"
  "length (encode_display_add d) = 20" "length (encode_display_add_ok e) = 4"
  "length (encode_display_remove f) = 4" "length (encode_display_stream g) = 12"
  "length (encode_display_info h) = 24" "length (encode_list_ok i) = 4"
  "length (encode_error j) = 8" "length (encode_event_display k) = 24"
  "length (encode_event_boot l) = 4"
  by (simp_all add: struct_codec_defs)

lemma struct_round_trips [simp, codec_simps]:
  "decode_hello (encode_hello a @ r) = a"
  "decode_hello_ack (encode_hello_ack b @ r) = b"
  "decode_pong (encode_pong c @ r) = c"
  "decode_display_add (encode_display_add d @ r) = d"
  "decode_display_add_ok (encode_display_add_ok e @ r) = e"
  "decode_display_remove (encode_display_remove f @ r) = f"
  "decode_display_stream (encode_display_stream g @ r) = g"
  "decode_display_info (encode_display_info h @ r) = h"
  "decode_list_ok (encode_list_ok i @ r) = i"
  "decode_error (encode_error j @ r) = j"
  "decode_event_display (encode_event_display k @ r) = k"
  "decode_event_boot (encode_event_boot l @ r) = l"
  by (simp_all add: struct_codec_defs)

lemmas exact_round_trips [simp, codec_simps] =
  decode_encode_header [where r = "[]", unfolded append_Nil2]
  struct_round_trips [where r = "[]", unfolded append_Nil2]

lemma frame_header_sel [simp]:
  "magic (frame_header t i n) = kControlProtocolMagic"
  "version (frame_header t i n) = kControlProtocolVersion"
  "msgType (frame_header t i n) = t" "requestId (frame_header t i n) = i"
  "payloadLength (frame_header t i n) = n"
  by (simp_all add: frame_header_def)

lemma bad_header_frame [simp]: "bad_header (frame_header t i n) \<longleftrightarrow> n > kControlMaxPayload"
  by (simp add: bad_header_def)

lemma length_encode_frame [simp, codec_simps]: "length (encode_frame t i p) = 16 + length p"
  by (simp add: encode_frame_def)

lemma payload_fits:
  assumes "length p \<le> 65536"
  shows "unat (of_nat (length p) :: u32) = length p"
    and "\<not> bad_header (frame_header t i (of_nat (length p)))"
proof -
  show "unat (of_nat (length p) :: u32) = length p"
    using assms by (simp add: unat_of_nat take_bit_nat_eq_self)
  then show "\<not> bad_header (frame_header t i (of_nat (length p)))"
    using assms by (simp add: kControlMaxPayload_def word_less_nat_alt)
qed

section \<open>Properties\<close>

text \<open>
  Every structure of the protocol survives the wire: decoding what its encoder wrote, with
  whatever bytes behind it, gives the structure back, and the encoded sizes are those of the
  packed C structures (the header's is the 16 bytes the header file asserts).
\<close>

theorem control_structs_round_trip:
  "decode_header (encode_header h @ r) = h \<and> length (encode_header h) = 16 \<and>
   decode_hello (encode_hello a @ r) = a \<and> length (encode_hello a) = 4 \<and>
   decode_hello_ack (encode_hello_ack b @ r) = b \<and> length (encode_hello_ack b) = 16 \<and>
   decode_pong (encode_pong c @ r) = c \<and> length (encode_pong c) = 8 \<and>
   decode_display_add (encode_display_add d @ r) = d \<and> length (encode_display_add d) = 20 \<and>
   decode_display_add_ok (encode_display_add_ok e @ r) = e \<and>
   decode_display_remove (encode_display_remove f @ r) = f \<and>
   decode_display_stream (encode_display_stream g @ r) = g \<and>
   length (encode_display_stream g) = 12 \<and>
   decode_display_info (encode_display_info i @ r) = i \<and> length (encode_display_info i) = 24 \<and>
   decode_list_ok (encode_list_ok j @ r) = j \<and> length (encode_list_ok j) = 4 \<and>
   decode_error (encode_error k @ r) = k \<and> length (encode_error k) = 8 \<and>
   decode_event_display (encode_event_display l @ r) = l \<and>
   length (encode_event_display l) = 24 \<and>
   decode_event_boot (encode_event_boot m @ r) = m"
  by (intro conjI) simp_all

text \<open>
  The type numbers are distinct, so the dispatch on them is a dispatch on the message, and
  the acknowledgement of every request is the type the response rule of the header gives.
\<close>

theorem message_codes:
  "(message_code s = message_code t \<longleftrightarrow> s = t) \<and>
   map (control_response_type \<circ> message_code)
     [kHello, kPing, kDisplayAdd, kDisplayRemove, kDisplayList, kDisplayStream] =
   map message_code
     [kHelloAck, kPong, kDisplayAddOk, kDisplayRemoveOk, kDisplayListOk, kDisplayStreamOk]"
  by (cases s; cases t) (simp_all add: control_response_type_def)

end
