(* ===== verification/Control_Frames.thy ===== *)
theory Control_Frames
  imports Stream_IO Control_Protocol
begin

text \<open>
  Reading one frame of the control protocol from a stream socket. The reader loops of
  \<^verbatim>\<open>shell/core/control_channel.cpp\<close> and \<^verbatim>\<open>macmu-control-receiver.cpp\<close> contain the
  same steps: sixteen header bytes, the check of the header, then as many payload bytes as the
  header announces. The reference is a parser over the bytes sent so far; \<open>read_frame\<close>
  refines it whatever the fragmentation.
\<close>

section \<open>Reading a frame\<close>

datatype frame_read = Fr_blocked | Fr_closed | Fr_bad | Frame ControlFrameHeader bytes "rx list"

definition read_frame :: "rx list \<Rightarrow> frame_read" where
  "read_frame s =
     (case read_exact s 16 of
        Rx_blocked \<Rightarrow> Fr_blocked
      | Rx_failed \<Rightarrow> Fr_closed
      | Got raw r \<Rightarrow>
          let header = decode_header raw in
          if bad_header header then Fr_bad
          else if payloadLength header > 0 then
            (case read_exact r (unat (payloadLength header)) of
               Rx_blocked \<Rightarrow> Fr_blocked
             | Rx_failed \<Rightarrow> Fr_closed
             | Got payload r' \<Rightarrow> Frame header payload r')
          else Frame header [] r)"

section \<open>The reference parser\<close>

datatype parsed = Incomplete | Corrupt | Parsed ControlFrameHeader bytes bytes

definition parse_frame :: "bytes \<Rightarrow> parsed" where
  "parse_frame bs =
     (if length bs < 16 then Incomplete
      else
        let header = decode_header (take 16 bs); n = unat (payloadLength header) in
        if bad_header header then Corrupt
        else if length bs < 16 + n then Incomplete
        else Parsed header (take n (drop 16 bs)) (drop (16 + n) bs))"

text \<open>All complete frames at the front of a byte sequence, and whether a corrupt one follows.\<close>

function parse_stream :: "bytes \<Rightarrow> (ControlFrameHeader \<times> bytes) list \<times> bool" where
  "parse_stream bs =
     (case parse_frame bs of
        Incomplete \<Rightarrow> ([], False)
      | Corrupt \<Rightarrow> ([], True)
      | Parsed h p rest \<Rightarrow> (let (fs, bad) = parse_stream rest in ((h, p) # fs, bad)))"
  by pat_completeness auto

termination parse_stream
  by (relation "measure length") (auto simp: parse_frame_def Let_def split: if_splits)

declare parse_stream.simps [simp del]

section \<open>Lemmas\<close>

lemma decode_header_take [simp]: "decode_header (take 16 bs) = decode_header bs"
  by (simp add: decode_header_def drop_take min_def)

lemma read_frame_refines:
  "case parse_frame (incoming s) of
     Incomplete \<Rightarrow> read_frame s = (if closed_stream s then Fr_closed else Fr_blocked)
   | Corrupt \<Rightarrow> read_frame s = Fr_bad
   | Parsed h p rest \<Rightarrow>
       \<exists>r. read_frame s = Frame h p r \<and> incoming r = rest \<and> closed_stream r = closed_stream s"
proof (cases "length (incoming s) < 16")
  case True
  then show ?thesis by (simp add: parse_frame_def read_frame_def read_exact_short)
next
  case False
  then obtain r where r: "read_exact s 16 = Got (take 16 (incoming s)) r"
      "incoming r = drop 16 (incoming s)" "closed_stream r = closed_stream s"
    using sock.rd_enough [of 16 s] by auto
  let ?h = "decode_header (incoming s)"
  let ?n = "unat (payloadLength ?h)"
  show ?thesis
  proof (cases "bad_header ?h")
    case True
    with False r show ?thesis by (simp add: parse_frame_def read_frame_def)
  next
    case ok: False
    show ?thesis
    proof (cases "length (incoming r) < ?n")
      case True
      then have "payloadLength ?h > 0" by (simp add: word_less_nat_alt)
      with True False ok r read_exact_short [OF True] show ?thesis
        by (auto simp: parse_frame_def read_frame_def Let_def)
    next
      case enough: False
      then obtain r' where r': "read_exact r ?n = Got (take ?n (incoming r)) r'"
        "incoming r' = drop ?n (incoming r)" "closed_stream r' = closed_stream r"
        using sock.rd_enough [of ?n r] by auto
      show ?thesis
      proof (cases "payloadLength ?h = 0")
        case True
        with False ok r show ?thesis by (auto simp: parse_frame_def read_frame_def Let_def)
      next
        case pos: False
        then have "payloadLength ?h > 0" by (simp add: word_neq_0_conv)
        with False ok r r' enough show ?thesis
          by (auto simp: parse_frame_def read_frame_def Let_def ac_simps)
      qed
    qed
  qed
qed

lemma read_frame_same:
  assumes "incoming s = incoming s'" and "closed_stream s = closed_stream s'"
  shows "case read_frame s of
      Frame h p r \<Rightarrow> (\<exists>r'. read_frame s' = Frame h p r' \<and> incoming r = incoming r' \<and>
                          closed_stream r = closed_stream r')
    | x \<Rightarrow> read_frame s' = x"
  using read_frame_refines [of s] read_frame_refines [of s'] assms
  by (cases "parse_frame (incoming s')") auto

lemma parse_encode_frame:
  assumes "length p \<le> 65536"
  shows "parse_frame (encode_frame t i p @ rest) =
           Parsed (frame_header t i (of_nat (length p))) p rest"
  using payload_fits(1) [OF assms] payload_fits(2) [OF assms, of t i]
  by (simp add: parse_frame_def encode_frame_def Let_def)

lemma read_frame_encoded:
  assumes "incoming s = encode_frame t i p @ rest" and "length p \<le> 65536"
  shows "\<exists>r. read_frame s = Frame (frame_header t i (of_nat (length p))) p r \<and>
             incoming r = rest \<and> closed_stream r = closed_stream s"
  using read_frame_refines [of s] parse_encode_frame [OF assms(2), of t i rest] assms(1) by simp

lemma parse_stream_frames:
  assumes "\<forall>(t, i, p) \<in> set frames. length p \<le> 65536"
  shows "parse_stream (concat (map (\<lambda>(t, i, p). encode_frame t i p) frames) @ rest) =
           (map (\<lambda>(t, i, p). (frame_header t i (of_nat (length p)), p)) frames @
              fst (parse_stream rest), snd (parse_stream rest))"
  using assms
proof (induction frames)
  case Nil
  then show ?case by simp
next
  case (Cons f frames)
  obtain t i p where f: "f = (t, i, p)" by (cases f)
  with Cons.prems have "length p \<le> 65536" by simp
  from parse_encode_frame [OF this] Cons f show ?case
    by (simp add: parse_stream.simps [of "encode_frame t i p @ _"])
qed

section \<open>Properties\<close>

text \<open>
  The frame reader refines the parser over the bytes received: it yields a frame exactly when
  a whole well-formed frame has arrived, reports a corrupt header exactly when sixteen bytes with
  a wrong magic, version or length have arrived, and otherwise waits, or fails when the peer has
  closed. The result does not depend on how the bytes were fragmented.
\<close>

theorem read_frame_parses:
  "(read_frame s = Fr_bad \<longleftrightarrow> parse_frame (incoming s) = Corrupt) \<and>
   (read_frame s = Fr_blocked \<longleftrightarrow> parse_frame (incoming s) = Incomplete \<and> \<not> closed_stream s) \<and>
   (read_frame s = Fr_closed \<longleftrightarrow> parse_frame (incoming s) = Incomplete \<and> closed_stream s) \<and>
   ((\<exists>r. read_frame s = Frame h p r \<and> incoming r = rest \<and> closed_stream r = closed_stream s) \<longleftrightarrow>
      parse_frame (incoming s) = Parsed h p rest)"
  using read_frame_refines [of s] by (cases "parse_frame (incoming s)") auto

text \<open>
  Whatever sequence of frames a sender writes back to back, the receiver of the concatenated
  bytes parses the same sequence, then continues with what follows.
\<close>

theorem frame_stream_round_trip:
  assumes "\<forall>(t, i, p) \<in> set frames. length p \<le> unat kControlMaxPayload"
  shows "parse_stream (concat (map (\<lambda>(t, i, p). encode_frame t i p) frames) @ rest) =
           (map (\<lambda>(t, i, p). (frame_header t i (of_nat (length p)), p)) frames @
              fst (parse_stream rest), snd (parse_stream rest))"
  using parse_stream_frames [of frames rest] assms by (simp add: kControlMaxPayload_def)

end
