(* ===== verification/Text_Util.thy ===== *)
theory Text_Util
  imports Prelude
begin

text \<open>
  Text as the C library writes and reads it: \<^verbatim>\<open>std::to_string\<close> and the integer conversions of
  \<^verbatim>\<open>snprintf\<close>, \<^verbatim>\<open>strtoull\<close> and \<^verbatim>\<open>std::stoi\<close> in base ten, C strings that end at the
  first NUL, and splitting at a separator.
\<close>

section \<open>Decimal numbers\<close>

definition digit :: "nat \<Rightarrow> char" where
  "digit d = char_of (48 + d)"

fun decimal :: "nat \<Rightarrow> string" where
  "decimal n = (if n < 10 then [digit n] else decimal (n div 10) @ [digit (n mod 10)])"

declare decimal.simps [simp del]

definition decimal_int :: "int \<Rightarrow> string" where
  "decimal_int i = (if i < 0 then CHR ''-'' # decimal (nat (- i)) else decimal (nat i))"

definition is_digit :: "char \<Rightarrow> bool" where
  "is_digit c \<longleftrightarrow> 48 \<le> (of_char c :: nat) \<and> (of_char c :: nat) \<le> 57"

definition digit_value :: "char \<Rightarrow> nat" where
  "digit_value c = of_char c - 48"

definition digits_value :: "string \<Rightarrow> nat" where
  "digits_value ds = foldl (\<lambda>a c. 10 * a + digit_value c) 0 ds"

definition is_space :: "char \<Rightarrow> bool" where
  "is_space c \<longleftrightarrow> c = CHR '' '' \<or> 9 \<le> (of_char c :: nat) \<and> (of_char c :: nat) \<le> 13"

text \<open>
  The common part of the conversions: white space, a sign, digits. The result is the sign, the
  digits and the text behind them; no digits means no conversion.
\<close>

definition scan_number :: "string \<Rightarrow> (bool \<times> string \<times> string) option" where
  "scan_number s =
     (let t = dropWhile is_space s;
          (neg, u) = (case t of
                        [] \<Rightarrow> (False, [])
                      | c # r \<Rightarrow> if c = CHR ''-'' then (True, r)
                                 else if c = CHR ''+'' then (False, r) else (False, t));
          ds = takeWhile is_digit u in
      if ds = [] then None else Some (neg, ds, drop (length ds) u))"

text \<open>\<^verbatim>\<open>strtoull\<close>: the value, whether it was out of range, and the text behind the number.\<close>

definition strtoull :: "string \<Rightarrow> (u64 \<times> bool \<times> string) option" where
  "strtoull s =
     (case scan_number s of
        None \<Rightarrow> None
      | Some (neg, ds, rest) \<Rightarrow>
          let v = digits_value ds in
          if v \<ge> 2 ^ 64 then Some (-1, True, rest)
          else Some (if neg then - of_nat v else of_nat v, False, rest))"

text \<open>\<^verbatim>\<open>std::stoi\<close>: \<open>None\<close> where it throws.\<close>

definition stoi :: "string \<Rightarrow> int option" where
  "stoi s =
     (case scan_number s of
        None \<Rightarrow> None
      | Some (neg, ds, rest) \<Rightarrow>
          let v = (if neg then - int (digits_value ds) else int (digits_value ds)) in
          if v < - (2 ^ 31) \<or> v \<ge> 2 ^ 31 then None else Some v)"

section \<open>Strings\<close>

definition NUL :: char where "NUL = CHR 0x00"
definition newline :: char where "newline = CHR 0x0A"

definition c_str :: "string \<Rightarrow> string" where
  "c_str s = takeWhile (\<lambda>c. c \<noteq> NUL) s"

text \<open>Message text travels as bytes.\<close>

definition text_of :: "bytes \<Rightarrow> string" where
  "text_of bs = map (\<lambda>b. char_of (unat b)) bs"

definition bytes_of :: "string \<Rightarrow> bytes" where
  "bytes_of s = map (\<lambda>c. of_nat (of_char c)) s"

definition starts_with :: "string \<Rightarrow> string \<Rightarrow> bool" where
  "starts_with p s \<longleftrightarrow> take (length p) s = p"

text \<open>Splitting at every occurrence of a separator; there is always at least one part.\<close>

fun split_at :: "char \<Rightarrow> string \<Rightarrow> string list" where
  "split_at sep [] = [[]]"
| "split_at sep (c # s) =
     (if c = sep then [] # split_at sep s
      else
        case split_at sep s of
          [] \<Rightarrow> [[c]]
        | p # ps \<Rightarrow> (c # p) # ps)"

section \<open>Lemmas\<close>

lemma of_char_digit: "d < 10 \<Longrightarrow> (of_char (digit d) :: nat) = 48 + d"
  by (simp add: digit_def of_char_of)

lemma is_digit_digit [simp]: "d < 10 \<Longrightarrow> is_digit (digit d)"
  by (simp add: is_digit_def of_char_digit)

lemma digit_value_digit [simp]: "d < 10 \<Longrightarrow> digit_value (digit d) = d"
  by (simp add: digit_value_def of_char_digit)

lemma decimal_not_Nil [simp]: "decimal n \<noteq> []"
  by (subst decimal.simps) simp

lemma decimal_digits [simp]: "c \<in> set (decimal n) \<Longrightarrow> is_digit c"
proof (induction n arbitrary: c rule: decimal.induct)
  case (1 n)
  then show ?case by (subst (asm) (2) decimal.simps) (auto split: if_splits)
qed

lemma digits_value_append [simp]:
  "digits_value (ds @ [c]) = 10 * digits_value ds + digit_value c"
  by (simp add: digits_value_def)

lemma digits_value_decimal [simp]: "digits_value (decimal n) = n"
proof (induction n rule: decimal.induct)
  case (1 n)
  then show ?case
    by (cases "n < 10") (simp_all add: decimal.simps [of n] digits_value_def [of "[_]"])
qed

lemma digit_not_special:
  assumes "is_digit c"
  shows "c \<noteq> CHR ''-''" "c \<noteq> CHR ''+''" "\<not> is_space c" "c \<noteq> NUL" "c \<noteq> newline" "c \<noteq> CHR '' ''"
    "c \<noteq> CHR 0x0D"
  using assms by (auto simp: is_digit_def is_space_def NUL_def newline_def)

lemma decimal_plain: "NUL \<notin> set (decimal n)" "newline \<notin> set (decimal n)"
  using decimal_digits [of _ n] digit_not_special by blast+

lemma c_str_id [simp]: "NUL \<notin> set s \<Longrightarrow> c_str s = s"
  by (auto simp: c_str_def takeWhile_eq_all_conv)

lemma scan_decimal:
  assumes "rest = [] \<or> \<not> is_digit (hd rest)"
  shows "scan_number (decimal n @ rest) = Some (False, decimal n, rest)"
proof -
  obtain c ds where c: "decimal n = c # ds" by (cases "decimal n") auto
  then have dc: "is_digit c" using decimal_digits [of c n] by simp
  have tw: "takeWhile is_digit (decimal n @ rest) = decimal n"
    using assms by (subst takeWhile_append2) (auto simp: takeWhile_eq_Nil_iff)
  show ?thesis
    using digit_not_special [OF dc] tw by (simp add: scan_number_def c Let_def)
qed

lemma strtoull_decimal:
  assumes "n < 2 ^ 64" and "rest = [] \<or> \<not> is_digit (hd rest)"
  shows "strtoull (decimal n @ rest) = Some (of_nat n, False, rest)"
  using assms by (simp add: strtoull_def scan_decimal)

lemma stoi_decimal: "n < 2 ^ 31 \<Longrightarrow> stoi (decimal n) = Some (int n)"
  using scan_decimal [of "[]" n] by (simp add: stoi_def)

lemma split_at_Nil [simp]: "split_at sep s \<noteq> []"
  by (induction s) (auto split: list.split)

lemma split_at_no_sep: "sep \<notin> set s \<Longrightarrow> split_at sep s = [s]"
  by (induction s) auto

lemma split_at_append:
  "sep \<notin> set p \<Longrightarrow> split_at sep (p @ sep # s) = p # split_at sep s"
  by (induction p) auto

lemma text_of_bytes_of [simp, codec_simps]: "text_of (bytes_of s) = s"
proof -
  have "char_of (unat (of_nat (of_char c) :: u8)) = c" for c
    using nat_of_char_less_256 [of c] by (simp add: unat_of_nat take_bit_nat_eq_self)
  then show ?thesis by (simp add: text_of_def bytes_of_def comp_def)
qed

lemma length_bytes_of [simp, codec_simps]:
  "length (bytes_of s) = length s" "length (text_of b) = length b"
  by (simp_all add: bytes_of_def text_of_def)

end
