(* ===== verification/Control_Channel.thy ===== *)
theory Control_Channel
  imports Control_Frames Pending_Table Text_Util
begin

text \<open>
  \<^verbatim>\<open>shell/core/control_channel.{h,cpp}\<close>, the shell's end of the control plane. The object is
  the record \<open>chan\<close>; every method is a function of it that also returns what the outside sees,
  in order: callbacks that fire, bytes written, descriptors shut down and closed. Results of
  system calls (scripts of \<^verbatim>\<open>send\<close>, pieces of the incoming stream, results of
  \<^verbatim>\<open>poll\<close>, the clock) are arguments.

  The response callback of the \<^verbatim>\<open>HELLO\<close> request is code of the class and is modelled; the
  callbacks users pass are identified by a number.
\<close>

section \<open>State\<close>

record Response =
  respOk :: bool
  respType :: u16
  respErrorCode :: i32
  respErrorMessage :: string
  respPayload :: bytes

datatype cb = Hello_cb | User_cb nat

datatype obs =
    Called nat Response
  | Event_fired u16 bytes
  | Closed_fired
  | Ready_fired
  | Wrote bytes
  | Shut_down int
  | Closed_fd int

datatype reader = No_thread | Reading | Exited

record chan =
  localFd :: int
  remoteFd :: int
  alive :: bool
  ready :: bool
  stopRequested :: bool
  nextRequestId :: u32
  readerThread :: reader
  pending :: "(u32, cb) table"
  onEvent :: bool
  onClosed :: bool
  onReady :: bool

definition new_channel :: chan where
  "new_channel =
     \<lparr>localFd = -1, remoteFd = -1, alive = False, ready = False, stopRequested = False,
      nextRequestId = 1, readerThread = No_thread, pending = [], onEvent = False,
      onClosed = False, onReady = False\<rparr>"

section \<open>Responses and callbacks\<close>

definition failure :: "i32 \<Rightarrow> string \<Rightarrow> Response" where
  "failure code message =
     \<lparr>respOk = False, respType = 0, respErrorCode = code, respErrorMessage = message,
      respPayload = []\<rparr>"

definition response_of :: "ControlFrameHeader \<Rightarrow> bytes \<Rightarrow> Response" where
  "response_of header payload =
     (if msgType header = message_code kError then
        if length payload \<ge> 8 then
          let error = decode_error payload;
              msgLen = min (unat (errMsgLen error)) (length payload - 8) in
          \<lparr>respOk = False, respType = msgType header, respErrorCode = errCode error,
           respErrorMessage = text_of (take msgLen (drop 8 payload)), respPayload = []\<rparr>
        else
          \<lparr>respOk = False, respType = msgType header, respErrorCode = kControlErrInternal,
           respErrorMessage = ''malformed error frame'', respPayload = []\<rparr>
      else
        \<lparr>respOk = True, respType = msgType header, respErrorCode = 0, respErrorMessage = [],
         respPayload = payload\<rparr>)"

fun invoke :: "cb \<Rightarrow> Response \<Rightarrow> chan \<Rightarrow> chan \<times> obs list" where
  "invoke Hello_cb response c =
     (if respOk response \<and> length (respPayload response) \<ge> 16
      then (c\<lparr>ready := True\<rparr>, if onReady c then [Ready_fired] else [])
      else (c, []))"
| "invoke (User_cb n) response c = (c, [Called n response])"

fun invoke_all :: "cb list \<Rightarrow> Response \<Rightarrow> chan \<Rightarrow> chan \<times> obs list" where
  "invoke_all [] response c = (c, [])"
| "invoke_all (f # fs) response c =
     (let (c1, o1) = invoke f response c; (c2, o2) = invoke_all fs response c1 in (c2, o1 @ o2))"

definition fail_all_pending :: "i32 \<Rightarrow> string \<Rightarrow> chan \<Rightarrow> chan \<times> obs list" where
  "fail_all_pending code message c =
     (let (failed, t) = fail_all (pending c) in
      invoke_all failed (failure code message) (c\<lparr>pending := t\<rparr>))"

definition sweep_channel :: "u64 \<Rightarrow> chan \<Rightarrow> chan \<times> obs list" where
  "sweep_channel now c =
     (let (expired, t) = sweep_timeouts now (pending c) in
      invoke_all expired (failure kControlErrInternal ''request timed out'')
        (c\<lparr>pending := t\<rparr>))"

section \<open>Requests\<close>

text \<open>
  The header and the payload go out as two chunks under the write mutex; the second loop starts
  only after the first sent everything.
\<close>

definition write_frame :: "tx list \<Rightarrow> u16 \<Rightarrow> u32 \<Rightarrow> bytes \<Rightarrow> chan \<Rightarrow> sent" where
  "write_frame s type request_id payload c =
     (if localFd c < 0 \<or> \<not> alive c then Sent False [] s
      else
        case write_all s (encode_header (frame_header type request_id (of_nat (length payload)))) of
          Sent True d s' \<Rightarrow> sent_prepend d (write_all s' payload)
        | r \<Rightarrow> r)"

text \<open>
  A request whose \<^verbatim>\<open>send\<close> has not returned leaves the state reached so far: registered, part
  of the frame written.
\<close>

definition request ::
  "u64 \<Rightarrow> tx list \<Rightarrow> ControlMessageType \<Rightarrow> bytes \<Rightarrow> u64 \<Rightarrow> cb option \<Rightarrow> chan \<Rightarrow> chan \<times> obs list"
where
  "request now s type payload timeout_ms cbk c =
     (if \<not> alive c then
        (case cbk of
           None \<Rightarrow> (c, [])
         | Some f \<Rightarrow> invoke f (failure kControlErrInternal ''control channel not connected'') c)
      else
        let requestId = nextRequestId c;
            c1 = c\<lparr>nextRequestId := requestId + 1\<rparr>;
            c2 = (case cbk of
                    None \<Rightarrow> c1
                  | Some f \<Rightarrow> c1\<lparr>pending := add now requestId (Some f) timeout_ms (pending c1)\<rparr>) in
        (case write_frame s (message_code type) requestId payload c2 of
           Tx_blocked d \<Rightarrow> (c2, [Wrote d])
         | Sent True d s' \<Rightarrow> (c2, [Wrote d])
         | Sent False d s' \<Rightarrow>
             let (failed, t) = take_pending requestId (pending c2); c3 = c2\<lparr>pending := t\<rparr> in
             (case failed of
                None \<Rightarrow> (c3, [Wrote d])
              | Some f \<Rightarrow>
                  let (c4, out) =
                    invoke f (failure kControlErrInternal ''control channel write failed'') c3 in
                  (c4, Wrote d # out))))"

section \<open>The reader thread\<close>

definition deliver :: "u64 \<Rightarrow> ControlFrameHeader \<Rightarrow> bytes \<Rightarrow> chan \<Rightarrow> chan \<times> obs list" where
  "deliver now header payload c =
     (if requestId header = 0 then
        (c, if onEvent c then [Event_fired (msgType header) payload] else [])
      else
        let (cbk, t) = take_pending (requestId header) (pending c); c1 = c\<lparr>pending := t\<rparr> in
        (case cbk of
           None \<Rightarrow> (c1, [])
         | Some f \<Rightarrow>
             let (c2, o2) = invoke f (response_of header payload) c1;
                 (c3, o3) = sweep_channel now c2 in
             (c3, o2 @ o3)))"

definition reader_exit :: "chan \<Rightarrow> chan \<times> obs list" where
  "reader_exit c =
     (let (c1, out) = fail_all_pending kControlErrInternal ''control channel closed''
                        (c\<lparr>alive := False, ready := False\<rparr>) in
      (c1\<lparr>readerThread := Exited\<rparr>,
       out @ (if onClosed c1 \<and> \<not> stopRequested c1 then [Closed_fired] else [])))"

datatype poll_result = Poll_timeout | Poll_interrupted | Poll_error | Poll_ready bool

text \<open>
  One entry per return of \<^verbatim>\<open>poll\<close>, with the clock of the sweep that may follow; the flag of
  \<open>Poll_ready\<close> is whether \<^verbatim>\<open>POLLIN\<close> or \<^verbatim>\<open>POLLHUP\<close> is set. With no entry left the
  thread waits in \<^verbatim>\<open>poll\<close>, and with a blocked read it waits there.
\<close>

fun reader_thread :: "(u64 \<times> poll_result) list \<Rightarrow> rx list \<Rightarrow> chan \<Rightarrow> chan \<times> obs list" where
  "reader_thread [] s c = (if stopRequested c then reader_exit c else (c, []))"
| "reader_thread ((now, poll) # es) s c =
     (if stopRequested c then reader_exit c
      else
        case poll of
          Poll_timeout \<Rightarrow>
            let (c1, o1) = sweep_channel now c; (c2, o2) = reader_thread es s c1 in (c2, o1 @ o2)
        | Poll_interrupted \<Rightarrow> reader_thread es s c
        | Poll_error \<Rightarrow> reader_exit c
        | Poll_ready False \<Rightarrow> reader_thread es s c
        | Poll_ready True \<Rightarrow>
            (case read_frame s of
               Fr_blocked \<Rightarrow> (c, [])
             | Fr_closed \<Rightarrow> reader_exit c
             | Fr_bad \<Rightarrow> reader_exit c
             | Frame header payload r \<Rightarrow>
                 let (c1, o1) = deliver now header payload c; (c2, o2) = reader_thread es r c1 in
                 (c2, o1 @ o2)))"

section \<open>Life cycle\<close>

definition close_remote_fd :: "chan \<Rightarrow> chan \<times> obs list" where
  "close_remote_fd c =
     (if remoteFd c \<ge> 0 then (c\<lparr>remoteFd := -1\<rparr>, [Closed_fd (remoteFd c)]) else (c, []))"

text \<open>
  \<open>stop\<close> joins the reader. A reader that is still in its loop sees the flag, or the end of
  stream the shutdown causes, and runs its exit code; one that has left the loop has run it.
\<close>

definition stop :: "chan \<Rightarrow> chan \<times> obs list" where
  "stop c =
     (let c1 = c\<lparr>stopRequested := True\<rparr>;
          o1 = (if localFd c1 \<ge> 0 then [Shut_down (localFd c1)] else []);
          (c2, o2) = (if readerThread c1 = Reading then reader_exit c1 else (c1, []));
          c3 = c2\<lparr>readerThread := No_thread\<rparr>;
          (c4, o4) = (if localFd c3 \<ge> 0 then (c3\<lparr>localFd := -1\<rparr>, [Closed_fd (localFd c3)])
                      else (c3, []));
          (c5, o5) = close_remote_fd c4;
          (c6, o6) = fail_all_pending kControlErrInternal ''channel stopped'' c5 in
      (c6\<lparr>ready := False, alive := False\<rparr>, o1 @ o2 @ o4 @ o5 @ o6))"

text \<open>
  \<open>fds\<close> is the pair \<^verbatim>\<open>socketpair\<close> returned, if any, and the flags are the results of
  the two \<^verbatim>\<open>set_close_on_exec\<close> calls.
\<close>

definition create :: "(int \<times> int) option \<Rightarrow> bool \<Rightarrow> bool \<Rightarrow> chan \<Rightarrow> bool \<times> chan \<times> obs list" where
  "create fds localOk remoteOk c =
     (case fds of
        None \<Rightarrow> (False, c, [])
      | Some (a, b) \<Rightarrow>
          let c1 = c\<lparr>localFd := a, remoteFd := b\<rparr> in
          if \<not> localOk \<or> \<not> remoteOk then (let (c2, out) = stop c1 in (False, c2, out))
          else (True, c1, []))"

definition start :: "u64 \<Rightarrow> tx list \<Rightarrow> bool \<Rightarrow> bool \<Rightarrow> bool \<Rightarrow> chan \<Rightarrow> chan \<times> obs list" where
  "start now s on_event on_closed on_ready c =
     (if localFd c < 0 \<or> readerThread c \<noteq> No_thread then (c, [])
      else
        let c1 = c\<lparr>onEvent := on_event, onClosed := on_closed, onReady := on_ready, alive := True,
                   ready := False, stopRequested := False, readerThread := Reading\<rparr> in
        request now s kHello (encode_hello \<lparr>protoVersion = ucast kControlProtocolVersion\<rparr>) 30000
          (Some Hello_cb) c1)"

section \<open>Frame lemmas\<close>

text \<open>Callbacks of the class change nothing but the ready flag.\<close>

lemma invoke_fields [simp, frame_simps]:
  "localFd (fst (invoke f r c)) = localFd c" "remoteFd (fst (invoke f r c)) = remoteFd c"
  "alive (fst (invoke f r c)) = alive c" "stopRequested (fst (invoke f r c)) = stopRequested c"
  "nextRequestId (fst (invoke f r c)) = nextRequestId c"
  "readerThread (fst (invoke f r c)) = readerThread c"
  "pending (fst (invoke f r c)) = pending c" "onEvent (fst (invoke f r c)) = onEvent c"
  "onClosed (fst (invoke f r c)) = onClosed c" "onReady (fst (invoke f r c)) = onReady c"
  by (cases f; simp)+

lemma invoke_all_fields [simp, frame_simps]:
  "localFd (fst (invoke_all fs r c)) = localFd c" "remoteFd (fst (invoke_all fs r c)) = remoteFd c"
  "alive (fst (invoke_all fs r c)) = alive c"
  "stopRequested (fst (invoke_all fs r c)) = stopRequested c"
  "nextRequestId (fst (invoke_all fs r c)) = nextRequestId c"
  "readerThread (fst (invoke_all fs r c)) = readerThread c"
  "pending (fst (invoke_all fs r c)) = pending c" "onEvent (fst (invoke_all fs r c)) = onEvent c"
  "onClosed (fst (invoke_all fs r c)) = onClosed c" "onReady (fst (invoke_all fs r c)) = onReady c"
  by (induction fs arbitrary: c; simp add: case_prod_beta)+

text \<open>A failure response never makes the channel ready.\<close>

lemma invoke_failure [simp]:
  "invoke f (failure code m) c =
     (c, case f of Hello_cb \<Rightarrow> [] | User_cb n \<Rightarrow> [Called n (failure code m)])"
  by (cases f) (simp_all add: failure_def)

text \<open>The user callbacks of a list of callbacks, and those that fired in a list of observations.\<close>

definition users :: "cb list \<Rightarrow> nat list" where
  "users fs = [n. User_cb n \<leftarrow> fs]"

definition called :: "obs list \<Rightarrow> nat list" where
  "called os = [n. Called n r \<leftarrow> os]"

lemma called_append [simp]: "called (xs @ ys) = called xs @ called ys"
  by (simp add: called_def)

lemma called_simps [simp]:
  "called [] = []" "called (Called n r # os) = n # called os"
  "called (Event_fired t p # os) = called os" "called (Closed_fired # os) = called os"
  "called (Ready_fired # os) = called os" "called (Wrote d # os) = called os"
  "called (Shut_down fd # os) = called os" "called (Closed_fd fd # os) = called os"
  by (simp_all add: called_def)

lemma users_simps [simp]:
  "users [] = []" "users (User_cb n # fs) = n # users fs" "users (Hello_cb # fs) = users fs"
  by (simp_all add: users_def)

lemma called_invoke [simp]: "called (snd (invoke f r c)) = users [f]"
  by (cases f) simp_all

lemma called_invoke_all [simp]: "called (snd (invoke_all fs r c)) = users fs"
proof (induction fs arbitrary: c)
  case (Cons f fs)
  then show ?case by (cases f) (simp_all add: case_prod_beta)
qed simp

lemma invoke_all_failure:
  "invoke_all fs (failure code m) c = (c, map (\<lambda>n. Called n (failure code m)) (users fs))"
proof (induction fs)
  case (Cons f fs)
  then show ?case by (cases f) simp_all
qed simp

lemma fail_all_pending_eq:
  "fail_all_pending code m c =
     (c\<lparr>pending := []\<rparr>,
      map (\<lambda>n. Called n (failure code m)) (users (fst (fail_all (pending c)))))"
  by (simp add: fail_all_pending_def invoke_all_failure case_prod_beta fail_all_def)

lemma sweep_channel_eq:
  "sweep_channel now c =
     (c\<lparr>pending := snd (sweep_timeouts now (pending c))\<rparr>,
      map (\<lambda>n. Called n (failure kControlErrInternal ''request timed out''))
        (users (fst (sweep_timeouts now (pending c)))))"
  by (simp add: sweep_channel_def invoke_all_failure case_prod_beta)

lemma deliver_stopRequested [simp, frame_simps]:
  "stopRequested (fst (deliver now h p c)) = stopRequested c"
  by (simp add: deliver_def sweep_channel_eq case_prod_beta Let_def split: option.split)

lemma reader_exit_eq:
  "reader_exit c =
     (c\<lparr>alive := False, ready := False, pending := [], readerThread := Exited\<rparr>,
      map (\<lambda>n. Called n (failure kControlErrInternal ''control channel closed''))
        (users (fst (fail_all (pending c)))) @
      (if onClosed c \<and> \<not> stopRequested c then [Closed_fired] else []))"
  by (simp add: reader_exit_def fail_all_pending_eq)

section \<open>Delivery\<close>

lemma reader_thread_same:
  assumes "incoming s = incoming s'" and "closed_stream s = closed_stream s'"
  shows "reader_thread es s c = reader_thread es s' c"
  using assms
proof (induction es arbitrary: s s' c)
  case Nil
  then show ?case by simp
next
  case (Cons e es)
  obtain now poll where e: "e = (now, poll)" by fastforce
  note same = read_frame_same [OF Cons.prems]
  show ?case
  proof (cases "stopRequested c \<or> poll \<noteq> Poll_ready True")
    case True
    with Cons.IH [OF Cons.prems] e show ?thesis
      by (auto split: poll_result.split bool.split)
  next
    case False
    show ?thesis
    proof (cases "read_frame s")
      case (Frame h p r)
      with same obtain r' where "read_frame s' = Frame h p r'"
        and "incoming r = incoming r'" and "closed_stream r = closed_stream r'"
        by auto
      with Cons.IH [of r r'] Frame False e show ?thesis by simp
    qed (use same False e in simp_all)
  qed
qed

fun deliver_all :: "(u64 \<times> ControlFrameHeader \<times> bytes) list \<Rightarrow> chan \<Rightarrow> chan \<times> obs list" where
  "deliver_all [] c = (c, [])"
| "deliver_all ((now, h, p) # fs) c =
     (let (c1, o1) = deliver now h p c; (c2, o2) = deliver_all fs c1 in (c2, o1 @ o2))"

lemma reader_thread_frames:
  assumes "\<not> stopRequested c" and "\<forall>(now, t, i, p) \<in> set fs. length p \<le> 65536"
    and "incoming s = concat (map (\<lambda>(now, t, i, p). encode_frame t i p) fs) @ rest"
  shows "reader_thread (map (\<lambda>(now, f). (now, Poll_ready True)) fs) s c =
           deliver_all (map (\<lambda>(now, t, i, p). (now, frame_header t i (of_nat (length p)), p)) fs) c"
  using assms
proof (induction fs arbitrary: s c)
  case Nil
  then show ?case by simp
next
  case (Cons f fs)
  obtain now t i p where f: "f = (now, t, i, p)" by (cases f) auto
  with Cons.prems obtain r where
    "read_frame s = Frame (frame_header t i (of_nat (length p))) p r"
    "incoming r = concat (map (\<lambda>(now, t, i, p). encode_frame t i p) fs) @ rest"
    using read_frame_encoded [of s t i p] by auto
  moreover from this Cons.prems have
    "reader_thread (map (\<lambda>(now, f). (now, Poll_ready True)) fs) r c' =
     deliver_all (map (\<lambda>(now, t, i, p). (now, frame_header t i (of_nat (length p)), p)) fs) c'"
    if "\<not> stopRequested c'" for c'
    using that by (intro Cons.IH) auto
  moreover obtain c1 o1 where d: "deliver now (frame_header t i (of_nat (length p))) p c = (c1, o1)"
    by fastforce
  moreover from d have "\<not> stopRequested c1"
    using deliver_stopRequested [of now "frame_header t i (of_nat (length p))" p c] Cons.prems(1)
    by simp
  ultimately show ?case using f Cons.prems(1) by simp
qed

section \<open>Writing frames\<close>

lemma encode_header_not_Nil [simp]: "encode_header h \<noteq> []" "[] \<noteq> encode_header h"
  using length_encode_header [of h] by fastforce+

text \<open>Calls that return having accepted something, before the first that fails.\<close>

fun steps :: "tx list \<Rightarrow> nat" where
  "steps [] = 0"
| "steps (Accepted n # s) = (if n = 0 then 0 else Suc (steps s))"
| "steps (Tx_interrupted # s) = steps s"
| "steps (Tx_failed # s) = 0"

lemma write_all_steps:
  "length d \<le> steps s \<Longrightarrow> \<exists>r. write_all s d = Sent True d r \<and> steps s \<le> length d + steps r"
proof (induction s d rule: write_all.induct)
  case (3 n s b bs)
  then have n: "n > 0" and "length (drop n (b # bs)) \<le> steps s" by (auto split: if_splits)
  with 3(1) obtain r where r: "write_all s (drop n (b # bs)) = Sent True (drop n (b # bs)) r"
      "steps s \<le> length (drop n (b # bs)) + steps r"
    by auto
  have "write_all (Accepted n # s) (b # bs) = Sent True (take n (b # bs) @ drop n (b # bs)) r"
    using r n by simp
  with r(2) n show ?case
    by (intro exI [of _ r] conjI) (simp only: append_take_drop_id, simp)
qed auto

lemma write_frame_complete:
  assumes "alive c" and "localFd c \<ge> 0" and "16 + length p \<le> steps s"
  shows "\<exists>r. write_frame s t i p c = Sent True (encode_frame t i p) r"
proof -
  let ?h = "encode_header (frame_header t i (of_nat (length p)))"
  obtain r where r: "write_all s ?h = Sent True ?h r" "length p \<le> steps r"
    using write_all_steps [of ?h s] assms(3) by auto
  obtain r' where "write_all r p = Sent True p r'"
    using write_all_steps [OF r(2)] by auto
  with r assms show ?thesis by (simp add: write_frame_def encode_frame_def)
qed

lemma sent_bytes_prepend [simp]:
  "sent_bytes (sent_prepend d w) = d @ sent_bytes w" "sent_ok (sent_prepend d w) = sent_ok w"
  by (cases w; simp)+

lemma write_frame_prefix:
  "\<exists>rest. encode_frame t i p = sent_bytes (write_frame s t i p c) @ rest \<and>
     (rest = [] \<longleftrightarrow> sent_ok (write_frame s t i p c))"
proof (cases "localFd c < 0 \<or> \<not> alive c")
  case True
  then show ?thesis by (auto simp: write_frame_def encode_frame_def)
next
  case open_channel: False
  let ?h = "encode_header (frame_header t i (of_nat (length p)))"
  from write_all_bytes [of ?h s] obtain rest where
    h: "?h = sent_bytes (write_all s ?h) @ rest" "rest = [] \<longleftrightarrow> sent_ok (write_all s ?h)" by auto
  show ?thesis
  proof (cases "sent_ok (write_all s ?h)")
    case True
    then obtain r where w: "write_all s ?h = Sent True ?h r"
      using h by (cases "write_all s ?h") auto
    from write_all_bytes [of p r] w open_channel show ?thesis
      by (auto simp: write_frame_def encode_frame_def)
  next
    case False
    then have "write_frame s t i p c = write_all s ?h"
      using open_channel by (cases "write_all s ?h") (auto simp: write_frame_def)
    with False h show ?thesis by (auto simp: encode_frame_def intro!: exI [of _ "rest @ p"])
  qed
qed

lemma request_fields [frame_simps]:
  "alive (fst (request now s ty p tmo cbk c)) = alive c"
  "localFd (fst (request now s ty p tmo cbk c)) = localFd c"
  "alive c \<Longrightarrow> nextRequestId (fst (request now s ty p tmo cbk c)) = nextRequestId c + 1"
  by (auto simp: request_def Let_def case_prod_beta split: option.split sent.split bool.split)

section \<open>Properties\<close>

text \<open>
  What the reader thread does depends on the bytes that arrived and on whether the peer has
  closed, never on how the stream was cut into reads or on interrupted calls.
\<close>

theorem reader_fragmentation:
  assumes "incoming s = incoming s'" and "closed_stream s = closed_stream s'"
  shows "reader_thread es s c = reader_thread es s' c"
  by (rule reader_thread_same [OF assms])

text \<open>
  When the peer has written a sequence of frames, the reader delivers exactly these frames in
  order, each with its type, request id and payload intact.
\<close>

theorem reader_delivers_frames:
  assumes "\<not> stopRequested c" and "\<forall>(now, t, i, p) \<in> set fs. length p \<le> unat kControlMaxPayload"
    and "incoming s = concat (map (\<lambda>(now, t, i, p). encode_frame t i p) fs) @ rest"
  shows "reader_thread (map (\<lambda>(now, f). (now, Poll_ready True)) fs) s c =
           deliver_all (map (\<lambda>(now, t, i, p). (now, frame_header t i (of_nat (length p)), p)) fs) c"
  using reader_thread_frames [OF assms(1) _ assms(3)] assms(2)
  by (simp add: kControlMaxPayload_def)

text \<open>
  A request on a live channel whose socket keeps accepting bytes puts exactly one frame on the
  wire, header and payload together, under the next id of the counter, and leaves its callback
  waiting under that id.
\<close>

theorem request_reaches_wire:
  assumes "alive c" and "localFd c \<ge> 0" and "16 + length p \<le> steps s"
  shows "request now s ty p tmo (Some f) c =
           (c\<lparr>nextRequestId := nextRequestId c + 1,
              pending := add now (nextRequestId c) (Some f) tmo (pending c)\<rparr>,
            [Wrote (encode_frame (message_code ty) (nextRequestId c) p)])"
proof -
  let ?c = "c\<lparr>nextRequestId := nextRequestId c + 1,
              pending := add now (nextRequestId c) (Some f) tmo (pending c)\<rparr>"
  obtain r where "write_frame s (message_code ty) (nextRequestId c) p ?c =
      Sent True (encode_frame (message_code ty) (nextRequestId c) p) r"
    using write_frame_complete [of ?c p s] assms by auto
  with assms(1) show ?thesis by (simp add: request_def Let_def)
qed

text \<open>
  No callback is lost by a request, whatever the socket does: either it was called, once, with
  a failure, and is not registered any more, or it was not called and is the callback waiting under
  the request's id, and in that case what reached the socket is a prefix of the one frame.
\<close>

theorem request_never_loses_callback:
  assumes "request now s ty p tmo (Some (User_cb n)) c = (c', os)"
  shows "called os = [n] \<and> (\<exists>r. \<not> respOk r \<and> Called n r \<in> set os) \<and>
           (alive c \<longrightarrow> nextRequestId c \<notin> waiting (pending c')) \<or>
         called os = [] \<and> fst (take_pending (nextRequestId c) (pending c')) = Some (User_cb n) \<and>
           (\<exists>d rest. os = [Wrote d] \<and>
              encode_frame (message_code ty) (nextRequestId c) p = d @ rest)"
proof (cases "alive c")
  case False
  with assms show ?thesis by (auto simp: request_def failure_def)
next
  case True
  let ?c = "c\<lparr>nextRequestId := nextRequestId c + 1,
              pending := add now (nextRequestId c) (Some (User_cb n)) tmo (pending c)\<rparr>"
  let ?w = "write_frame s (message_code ty) (nextRequestId c) p ?c"
  have tk: "take_pending (nextRequestId c) (pending ?c) =
      (Some (User_cb n), omap_erase (nextRequestId c) (pending c))"
    by (simp add: take_pending_def add_def)
  from write_frame_prefix [of "message_code ty" "nextRequestId c" p s ?c] obtain rest where
    pre: "encode_frame (message_code ty) (nextRequestId c) p = sent_bytes ?w @ rest" by auto
  show ?thesis
  proof (cases "\<exists>d r. ?w = Sent False d r")
    case True
    with \<open>alive c\<close> assms tk show ?thesis
      by (auto simp: request_def failure_def waiting_def Let_def)
  next
    case False
    with \<open>alive c\<close> assms have "c' = ?c" and "os = [Wrote (sent_bytes ?w)]"
      by (cases ?w; auto simp: request_def Let_def split: bool.splits)+
    with tk pre show ?thesis by auto
  qed
qed

text \<open>
  Stopping a channel releases everything it holds: both descriptors are closed, each once and
  only if open; every callback that waited is called with a failure, in the order of the request
  ids; the closed callback does not fire; and the channel is neither alive nor ready.
\<close>

theorem stop_releases:
  "let (c', os) = stop c in
     localFd c' < 0 \<and> remoteFd c' < 0 \<and> \<not> alive c' \<and> \<not> ready c' \<and> pending c' = [] \<and>
     readerThread c' = No_thread \<and>
     [fd. Closed_fd fd \<leftarrow> os] = filter (\<lambda>fd. fd \<ge> 0) [localFd c, remoteFd c] \<and>
     called os = users (nonempty (map (callback \<circ> snd) (pending c))) \<and>
     Closed_fired \<notin> set os \<and> Ready_fired \<notin> set os"
  by (auto simp: stop_def close_remote_fd_def reader_exit_eq fail_all_pending_eq fail_all_def
      called_def users_def failure_def concat_map_singleton comp_def Let_def)



text \<open>
  A stream of events keeps the reader from sweeping: however far the clock advances, after any
  number of event frames every request is still pending, its deadline passed or not.
\<close>

theorem events_starve_timeouts:
  assumes "\<not> stopRequested c" and "\<forall>(now, t, p) \<in> set fs. length p \<le> unat kControlMaxPayload"
    and "incoming s = concat (map (\<lambda>(now, t, p). encode_frame t 0 p) fs) @ rest"
  shows "pending (fst (reader_thread (map (\<lambda>(now, f). (now, Poll_ready True)) fs) s c)) = pending c"
proof -
  let ?fs = "map (\<lambda>(now, t, p). (now, t, 0 :: u32, p)) fs"
  have eq: "reader_thread (map (\<lambda>(now, f). (now, Poll_ready True)) ?fs) s c =
      deliver_all (map (\<lambda>(now, t, i, p). (now, frame_header t i (of_nat (length p)), p)) ?fs) c"
    using assms
    by (intro reader_thread_frames [where rest = rest])
      (auto simp: kControlMaxPayload_def comp_def case_prod_beta intro!: arg_cong [of _ _ concat])
  have "pending (fst (deliver_all (map (\<lambda>(now, t, p).
      (now, frame_header t 0 (of_nat (length p)), p)) fs) c)) = pending c" for c
    by (induction fs arbitrary: c) (auto simp: deliver_def case_prod_beta)
  with eq show ?thesis by (simp add: comp_def case_prod_unfold)
qed

end
