(* ===== verification/Channel_Threads.thy ===== *)
theory Channel_Threads
  imports Control_Channel
begin

text \<open>
  The concurrency of \<^verbatim>\<open>ControlChannel\<close>: any number of threads call \<^verbatim>\<open>request\<close> while
  the reader thread delivers responses, sweeps timeouts and, when the peer goes away, fails what
  is pending. Each shared access of the code (an atomic load or store, a method of the request
  table, the guard at the start of \<^verbatim>\<open>write_frame\<close>) is one step of an interleaving relation, so
  the order of the accesses in the code is the order of the program counters here. Delivering a
  response is one step: between taking the entry and calling the callback the reader touches
  nothing shared.

  The question is whether a callback can slip through when the channel dies while a request is
  under way: the request has seen the channel alive, the reader clears the flag and drains the
  table, and the request registers its callback after that.
\<close>

section \<open>Threads and steps\<close>

datatype pc =
    Not_started
  | Seen_alive
  | Has_id u32
  | Registered u32
  | Sending u32
  | Send_failed u32
  | Returned

datatype reader_pc = Looping | Flag_cleared | Drained

text \<open>
  Thread \<open>n\<close> sends one request whose callback is number \<open>n\<close>. \<open>calls\<close> records
  the callbacks that ran; \<open>taken\<close> counts the request ids handed out.
\<close>

record world =
  ch :: chan
  pcs :: "nat \<Rightarrow> pc"
  rdr :: reader_pc
  calls :: "nat list"
  taken :: nat

definition goto :: "nat \<Rightarrow> pc \<Rightarrow> world \<Rightarrow> world" where
  "goto n p w = w\<lparr>pcs := (pcs w)(n := p)\<rparr>"

inductive cstep :: "world \<Rightarrow> world \<Rightarrow> bool" where
  refuse: "\<lbrakk>pcs w n = Not_started; \<not> alive (ch w)\<rbrakk> \<Longrightarrow>
    cstep w ((goto n Returned w)\<lparr>calls := calls w @ [n]\<rparr>)"
| see_alive: "\<lbrakk>pcs w n = Not_started; alive (ch w)\<rbrakk> \<Longrightarrow> cstep w (goto n Seen_alive w)"
| take_id: "pcs w n = Seen_alive \<Longrightarrow>
    cstep w ((goto n (Has_id (nextRequestId (ch w))) w)
      \<lparr>ch := (ch w)\<lparr>nextRequestId := nextRequestId (ch w) + 1\<rparr>, taken := taken w + 1\<rparr>)"
| register: "pcs w n = Has_id i \<Longrightarrow>
    cstep w ((goto n (Registered i) w)
      \<lparr>ch := (ch w)\<lparr>pending := add now i (Some (User_cb n)) tmo (pending (ch w))\<rparr>\<rparr>)"
| guard_passes: "\<lbrakk>pcs w n = Registered i; \<not> (localFd (ch w) < 0 \<or> \<not> alive (ch w))\<rbrakk> \<Longrightarrow>
    cstep w (goto n (Sending i) w)"
| guard_fails: "\<lbrakk>pcs w n = Registered i; localFd (ch w) < 0 \<or> \<not> alive (ch w)\<rbrakk> \<Longrightarrow>
    cstep w (goto n (Send_failed i) w)"
| send_ok: "pcs w n = Sending i \<Longrightarrow> cstep w (goto n Returned w)"
| send_error: "pcs w n = Sending i \<Longrightarrow> cstep w (goto n (Send_failed i) w)"
| take_back: "\<lbrakk>pcs w n = Send_failed i; take_pending i (pending (ch w)) = (f, t)\<rbrakk> \<Longrightarrow>
    cstep w ((goto n Returned w)
      \<lparr>ch := (ch w)\<lparr>pending := t\<rparr>, calls := calls w @ users (nonempty [f])\<rparr>)"
| reader_frame: "\<lbrakk>rdr w = Looping; deliver now h p (ch w) = (c', os)\<rbrakk> \<Longrightarrow>
    cstep w (w\<lparr>ch := c', calls := calls w @ called os\<rparr>)"
| reader_sweep: "\<lbrakk>rdr w = Looping; sweep_channel now (ch w) = (c', os)\<rbrakk> \<Longrightarrow>
    cstep w (w\<lparr>ch := c', calls := calls w @ called os\<rparr>)"
| clear_flag: "rdr w = Looping \<Longrightarrow>
    cstep w (w\<lparr>ch := (ch w)\<lparr>alive := False, ready := False\<rparr>, rdr := Flag_cleared\<rparr>)"
| drain: "\<lbrakk>rdr w = Flag_cleared;
      fail_all_pending kControlErrInternal ''control channel closed'' (ch w) = (c', os)\<rbrakk> \<Longrightarrow>
    cstep w (w\<lparr>ch := c', calls := calls w @ called os, rdr := Drained\<rparr>)"

text \<open>
  The start: the channel as \<open>start\<close> leaves it, the \<^verbatim>\<open>HELLO\<close> request pending under id 1.
\<close>

definition initial :: "world \<Rightarrow> bool" where
  "initial w \<longleftrightarrow>
     (\<exists>p. pending (ch w) = [(1, p)] \<and> callback p = Some Hello_cb) \<and>
     nextRequestId (ch w) = 2 \<and> rdr w = Looping \<and> calls w = [] \<and> taken w = 0 \<and>
     (\<forall>n. pcs w n = Not_started)"

inductive reachable :: "world \<Rightarrow> bool" where
  init: "initial w \<Longrightarrow> reachable w"
| step: "\<lbrakk>reachable w; cstep w w'\<rbrakk> \<Longrightarrow> reachable w'"

section \<open>The invariant\<close>

fun holds_id :: "pc \<Rightarrow> u32 option" where
  "holds_id (Has_id i) = Some i"
| "holds_id (Registered i) = Some i"
| "holds_id (Sending i) = Some i"
| "holds_id (Send_failed i) = Some i"
| "holds_id _ = None"

fun unregistered :: "pc \<Rightarrow> bool" where
  "unregistered Not_started = True"
| "unregistered Seen_alive = True"
| "unregistered (Has_id i) = True"
| "unregistered _ = False"

text \<open>How often callback \<open>n\<close> was called or is waiting.\<close>

definition tally :: "world \<Rightarrow> nat \<Rightarrow> nat" where
  "tally w n = count_list (calls w) n + count (outstanding (pending (ch w))) (User_cb n)"

text \<open>Ids are handed out in order, none twice.\<close>

definition ids_inv :: "world \<Rightarrow> bool" where
  "ids_inv w \<longleftrightarrow>
     nextRequestId (ch w) = of_nat (2 + taken w) \<and>
     (\<forall>n i. holds_id (pcs w n) = Some i \<longrightarrow> unat i < 2 + taken w) \<and>
     (\<forall>k \<in> waiting (pending (ch w)). unat k < 2 + taken w) \<and>
     (\<forall>n m i. holds_id (pcs w n) = Some i \<longrightarrow> holds_id (pcs w m) = Some i \<longrightarrow> n = m)"

text \<open>Whose entry is under which key.\<close>

definition owner_inv :: "world \<Rightarrow> bool" where
  "owner_inv w \<longleftrightarrow>
     ordered_keys (pending (ch w)) \<and>
     (\<forall>n i. pcs w n = Has_id i \<longrightarrow> i \<notin> waiting (pending (ch w))) \<and>
     (\<forall>n. tally w n = (if unregistered (pcs w n) then 0 else 1))"

text \<open>Once the reader has drained the table only requests that are bound to fail are in it.\<close>

definition dead_inv :: "world \<Rightarrow> bool" where
  "dead_inv w \<longleftrightarrow>
     (rdr w \<noteq> Looping \<longrightarrow> \<not> alive (ch w)) \<and>
     (rdr w = Drained \<longrightarrow>
        (\<forall>k \<in> waiting (pending (ch w)). \<exists>n. pcs w n \<in> {Registered k, Send_failed k}))"

definition threads_inv :: "world \<Rightarrow> bool" where
  "threads_inv w \<longleftrightarrow> ids_inv w \<and> owner_inv w \<and> dead_inv w"

lemmas threads_inv_defs = threads_inv_def ids_inv_def owner_inv_def dead_inv_def

lemma goto_sel [simp]:
  "ch (goto n p w) = ch w" "pcs (goto n p w) = (pcs w)(n := p)" "rdr (goto n p w) = rdr w"
  "calls (goto n p w) = calls w" "taken (goto n p w) = taken w"
  by (simp_all add: goto_def)

lemma tally_goto [simp]: "tally (goto n p w) = tally w"
  by (simp add: tally_def fun_eq_iff)

lemma unat_of_nat_u32: "m < 2 ^ 32 \<Longrightarrow> unat (of_nat m :: u32) = m"
  by (simp add: unat_of_nat take_bit_nat_eq_self)

lemma called_map_Called [simp]: "called (map (\<lambda>n. Called n r) ns) = ns"
  by (induction ns) simp_all

lemma count_list_users: "count_list (users fs) n = count (mset fs) (User_cb n)"
proof (induction fs)
  case (Cons f fs)
  then show ?case by (cases f) auto
qed simp

lemma count_users_option:
  "count_list (users (nonempty [f])) n = count (mset_set (set_option f)) (User_cb n)"
  by (cases f) (simp_all add: count_list_users)

subsection \<open>Steps that only take entries out of the table\<close>

lemma removal_keeps:
  assumes "threads_inv w" and "waiting (pending c') \<subseteq> waiting (pending (ch w))"
    and "ordered_keys (pending c')" and "nextRequestId c' = nextRequestId (ch w)"
    and "alive c' = alive (ch w)"
    and "\<And>n. count_list l n + count (outstanding (pending c')) (User_cb n) =
           count (outstanding (pending (ch w))) (User_cb n)"
  shows "threads_inv (w\<lparr>ch := c', calls := calls w @ l\<rparr>)"
proof -
  have "tally (w\<lparr>ch := c', calls := calls w @ l\<rparr>) n = tally w n" for n
    using assms(6) [of n] by (simp add: tally_def)
  with assms show ?thesis by (auto simp: threads_inv_defs)
qed

lemma deliver_removes:
  assumes "deliver now h p c = (c', os)" and "ordered_keys (pending c)"
  shows "waiting (pending c') \<subseteq> waiting (pending c) \<and> ordered_keys (pending c') \<and>
         nextRequestId c' = nextRequestId c \<and> alive c' = alive c \<and>
         count_list (called os) n + count (outstanding (pending c')) (User_cb n) =
           count (outstanding (pending c)) (User_cb n)"
proof (cases "requestId h = 0")
  case True
  with assms show ?thesis by (auto simp: deliver_def)
next
  case False
  obtain f t where tk: "take_pending (requestId h) (pending c) = (f, t)" by fastforce
  have sp: "outstanding (pending c) = mset_set (set_option f) + outstanding t"
    and wt: "waiting t \<subseteq> waiting (pending c)" and ot: "ordered_keys t"
    using take_pending_split [OF assms(2), of "requestId h"] tk
      waiting_take_pending [of "requestId h" "pending c"] take_pending_ordered [OF assms(2)]
    by (auto simp: tk) (metis snd_conv tk)
  show ?thesis
  proof (cases f)
    case None
    with assms tk sp wt ot False show ?thesis by (auto simp: deliver_def)
  next
    case (Some g)
    with assms tk False have c': "pending c' = snd (sweep_timeouts now t)"
      "nextRequestId c' = nextRequestId c" "alive c' = alive c"
      "called os = users [g] @ users (fst (sweep_timeouts now t))"
      by (auto simp: deliver_def sweep_channel_eq case_prod_beta Let_def)
    have "count (outstanding t) (User_cb n) =
        count_list (users (fst (sweep_timeouts now t))) n +
        count (outstanding (snd (sweep_timeouts now t))) (User_cb n)"
      using sweep_timeouts_split [of t now] by (metis count_list_users count_union)
    with c' sp wt ot waiting_sweep_timeouts [of now t] Some show ?thesis
      by (auto simp: count_list_users)
  qed
qed

subsection \<open>Steps that move one thread\<close>

lemma ids_invD:
  assumes "threads_inv w"
  shows "nextRequestId (ch w) = of_nat (2 + taken w)"
    and "holds_id (pcs w n) = Some i \<Longrightarrow> unat i < 2 + taken w"
    and "k \<in> waiting (pending (ch w)) \<Longrightarrow> unat k < 2 + taken w"
    and "holds_id (pcs w n) = Some i \<Longrightarrow> holds_id (pcs w m) = Some i \<Longrightarrow> n = m"
  using assms unfolding threads_inv_def ids_inv_def by blast+

lemma owner_invD:
  assumes "threads_inv w"
  shows "ordered_keys (pending (ch w))"
    and "pcs w n = Has_id i \<Longrightarrow> i \<notin> waiting (pending (ch w))"
    and "tally w n = (if unregistered (pcs w n) then 0 else 1)"
  using assms unfolding threads_inv_def owner_inv_def by blast+

lemma dead_invD:
  assumes "threads_inv w"
  shows "rdr w \<noteq> Looping \<Longrightarrow> \<not> alive (ch w)"
    and "rdr w = Drained \<Longrightarrow> k \<in> waiting (pending (ch w)) \<Longrightarrow>
           \<exists>n. pcs w n = Registered k \<or> pcs w n = Send_failed k"
  using assms unfolding threads_inv_def dead_inv_def by blast+

text \<open>A thread that holds no failing request may move freely in a drained channel.\<close>

lemma dead_inv_move:
  assumes "threads_inv w" and "alive c = alive (ch w)"
    and "waiting (pending c) \<subseteq> K \<union> waiting (pending (ch w))"
    and "\<And>k. k \<in> K \<Longrightarrow> p = Registered k"
    and "\<And>k. pcs w n \<noteq> Registered k \<and> pcs w n \<noteq> Send_failed k"
    and "ch w' = c" "rdr w' = rdr w" "pcs w' = (pcs w)(n := p)"
  shows "dead_inv w'"
  unfolding dead_inv_def
proof (intro conjI impI ballI)
  show "\<not> alive (ch w')" if "rdr w' \<noteq> Looping"
    using that dead_invD(1) [OF assms(1)] assms by simp
  fix k
  assume d: "rdr w' = Drained" and k: "k \<in> waiting (pending (ch w'))"
  show "\<exists>m. pcs w' m \<in> {Registered k, Send_failed k}"
  proof (cases "k \<in> K")
    case True
    with assms(4) [of k] assms(8) show ?thesis by (intro exI [of _ n]) simp
  next
    case False
    with k assms d obtain m where m: "pcs w m = Registered k \<or> pcs w m = Send_failed k"
      using dead_invD(2) [OF assms(1), of k] by auto
    with assms(5) have "m \<noteq> n" by auto
    with m assms(8) show ?thesis by (intro exI [of _ m]) simp
  qed
qed

lemma ids_inv_mono:
  assumes "threads_inv w" and "nextRequestId (ch w') = nextRequestId (ch w)" and "taken w' = taken w"
    and "\<And>m i. holds_id (pcs w' m) = Some i \<Longrightarrow> holds_id (pcs w m) = Some i"
    and "\<And>k. k \<in> waiting (pending (ch w')) \<Longrightarrow> unat k < 2 + taken w"
  shows "ids_inv w'"
  unfolding ids_inv_def assms(2,3)
  using ids_invD [OF assms(1)] assms(4,5) by blast

lemma owner_inv_mono:
  assumes "threads_inv w" and "ordered_keys (pending (ch w'))"
    and "\<And>m i. pcs w' m = Has_id i \<Longrightarrow> pcs w m = Has_id i \<and> i \<notin> waiting (pending (ch w'))"
    and "\<And>m. tally w' m = tally w m + (if m = n then 1 else 0)"
    and "unregistered (pcs w n)" "\<not> unregistered (pcs w' n)"
    and "\<And>m. m \<noteq> n \<Longrightarrow> pcs w' m = pcs w m"
  shows "owner_inv w'"
  unfolding owner_inv_def
proof (intro conjI allI impI)
  show "tally w' m = (if unregistered (pcs w' m) then 0 else 1)" for m
    using owner_invD(3) [OF assms(1), of m] assms(4) [of m] assms(5-7) by (cases "m = n") auto
qed (use assms(2,3) in blast)+

lemma goto_keeps:
  assumes "threads_inv w" and "unregistered p = unregistered (pcs w n)"
    and "holds_id p = None \<or> holds_id p = holds_id (pcs w n) \<and> (\<forall>i. p \<noteq> Has_id i)"
    and "\<And>k. rdr w = Drained \<Longrightarrow> pcs w n \<in> {Registered k, Send_failed k} \<Longrightarrow>
           p = Send_failed k \<or> k \<notin> waiting (pending (ch w))"
  shows "threads_inv (goto n p w)"
proof -
  have h: "holds_id (((pcs w)(n := p)) m) = Some i \<Longrightarrow> holds_id (pcs w m) = Some i" for m i
    using assms(3) by (auto split: if_splits)
  have "ids_inv (goto n p w)"
    by (rule ids_inv_mono [OF assms(1)]) (use h ids_invD(3) [OF assms(1)] in auto)
  moreover have "owner_inv (goto n p w)"
    using assms(1-3) by (auto simp: threads_inv_def owner_inv_def)
  moreover have "dead_inv (goto n p w)"
    unfolding dead_inv_def goto_sel
  proof (intro conjI impI ballI)
    show "\<not> alive (ch w)" if "rdr w \<noteq> Looping"
      using that assms(1) by (simp add: threads_inv_def dead_inv_def)
    fix k
    assume d: "rdr w = Drained" and k: "k \<in> waiting (pending (ch w))"
    then obtain m where m: "pcs w m \<in> {Registered k, Send_failed k}"
      using assms(1) by (auto simp: threads_inv_def dead_inv_def)
    show "\<exists>m. ((pcs w)(n := p)) m \<in> {Registered k, Send_failed k}"
    proof (cases "m = n")
      case True
      with assms(4) [OF d, of k] m k have "p = Send_failed k" by auto
      then show ?thesis by (intro exI [of _ n]) simp
    next
      case False
      with m show ?thesis by (intro exI [of _ m]) simp
    qed
  qed
  ultimately show ?thesis by (simp add: threads_inv_def)
qed

lemma refuse_keeps:
  assumes "threads_inv w" and "pcs w n = Not_started"
  shows "threads_inv ((goto n Returned w)\<lparr>calls := calls w @ [n]\<rparr>)" (is "threads_inv ?w")
proof -
  have h: "holds_id (pcs ?w m) = Some i \<Longrightarrow> holds_id (pcs w m) = Some i" for m i
    by (auto split: if_splits)
  have "tally ?w m = tally w m + (if m = n then 1 else 0)" for m by (simp add: tally_def)
  then have "owner_inv ?w"
    by (intro owner_inv_mono [OF assms(1), where n = n])
      (use assms(2) owner_invD(1,2) [OF assms(1)] in \<open>auto split: if_splits\<close>)
  moreover have "ids_inv ?w"
    by (rule ids_inv_mono [OF assms(1)]) (use h ids_invD(3) [OF assms(1)] in auto)
  moreover have "dead_inv ?w"
    by (rule dead_inv_move [OF assms(1), where n = n and K = "{}" and p = Returned and c = "ch w"])
      (use assms(2) in auto)
  ultimately show ?thesis by (simp add: threads_inv_def)
qed

text \<open>Fresh ids: no thread holds and no entry waits under the next value of the counter.\<close>

lemma take_id_keeps:
  assumes "threads_inv w" and "pcs w n = Seen_alive" and "2 + taken w < 2 ^ 32"
  shows "threads_inv ((goto n (Has_id (nextRequestId (ch w))) w)
    \<lparr>ch := (ch w)\<lparr>nextRequestId := nextRequestId (ch w) + 1\<rparr>, taken := taken w + 1\<rparr>)"
    (is "threads_inv ?w")
proof -
  let ?i = "nextRequestId (ch w)"
  have nx: "unat ?i = 2 + taken w"
    unfolding ids_invD(1) [OF assms(1)] by (rule unat_of_nat_u32 [OF assms(3)])
  have h: "holds_id (pcs ?w m) = Some j \<Longrightarrow>
      m = n \<and> j = ?i \<or> m \<noteq> n \<and> holds_id (pcs w m) = Some j \<and> j \<noteq> ?i \<and> unat j < 3 + taken w" for m j
    using ids_invD(2) [OF assms(1), of m j] nx by (auto split: if_splits)
  have fresh: "?i \<notin> waiting (pending (ch w))" using ids_invD(3) [OF assms(1), of ?i] nx by auto
  have "owner_inv ?w"
    unfolding owner_inv_def
  proof (intro conjI allI impI)
    show "ordered_keys (pending (ch ?w))" using owner_invD(1) [OF assms(1)] by simp
    show "j \<notin> waiting (pending (ch ?w))" if "pcs ?w m = Has_id j" for m j
      using that fresh owner_invD(2) [OF assms(1), of m j] by (simp split: if_splits)
    show "tally ?w m = (if unregistered (pcs ?w m) then 0 else 1)" for m
      using owner_invD(3) [OF assms(1), of m] assms(2) by (simp add: tally_def)
  qed
  moreover have "ids_inv ?w"
    unfolding ids_inv_def
  proof (intro conjI allI ballI impI)
    show "nextRequestId (ch ?w) = of_nat (2 + taken ?w)" using ids_invD(1) [OF assms(1)] by simp
    show "unat j < 2 + taken ?w" if "holds_id (pcs ?w m) = Some j" for m j
      using h [OF that] nx by auto
    show "unat k < 2 + taken ?w" if "k \<in> waiting (pending (ch ?w))" for k
      using ids_invD(3) [OF assms(1), of k] that by simp
    show "m = m'" if "holds_id (pcs ?w m) = Some j" "holds_id (pcs ?w m') = Some j" for m m' j
      using h [OF that(1)] h [OF that(2)] ids_invD(4) [OF assms(1), of m j m'] by blast
  qed
  moreover have "dead_inv ?w"
    by (rule dead_inv_move [OF assms(1), where n = n and K = "{}" and p = "Has_id ?i"])
      (use assms(2) in auto)
  ultimately show ?thesis by (simp add: threads_inv_def)
qed

lemma register_keeps:
  assumes "threads_inv w" and "pcs w n = Has_id i"
  shows "threads_inv ((goto n (Registered i) w)
    \<lparr>ch := (ch w)\<lparr>pending := add now i (Some (User_cb n)) tmo (pending (ch w))\<rparr>\<rparr>)"
    (is "threads_inv ?w")
proof -
  have fresh: "i \<notin> waiting (pending (ch w))" by (rule owner_invD(2) [OF assms])
  have i: "unat i < 2 + taken w" using ids_invD(2) [OF assms(1), of n i] assms(2) by simp
  have sole: "pcs w m = Has_id i \<Longrightarrow> m = n" for m
    using ids_invD(4) [OF assms(1), of m i n] assms(2) by simp
  have h: "holds_id (pcs ?w m) = Some j \<Longrightarrow> holds_id (pcs w m) = Some j" for m j
    using assms(2) by (auto split: if_splits)
  have t: "tally ?w m = tally w m + (if m = n then 1 else 0)" for m
    by (simp add: tally_def outstanding_add [OF fresh])
  have f: "pcs w m = Has_id j \<and> j \<notin> waiting (pending (ch ?w))" if "pcs ?w m = Has_id j" for m j
    using that owner_invD(2) [OF assms(1), of m j] sole [of m] by (cases "m = n") auto
  have "owner_inv ?w"
    by (rule owner_inv_mono [OF assms(1) _ f t])
      (use assms(2) owner_invD(1) [OF assms(1)] in simp_all)
  moreover have "ids_inv ?w"
    by (rule ids_inv_mono [OF assms(1)]) (use h i ids_invD(3) [OF assms(1)] in auto)
  moreover have "dead_inv ?w"
    by (rule dead_inv_move [OF assms(1), where n = n and K = "{i}" and p = "Registered i"])
      (use assms(2) in auto)
  ultimately show ?thesis by (simp add: threads_inv_def)
qed

subsection \<open>Every step keeps the invariant\<close>

lemma take_back_removes:
  assumes "take_pending i (pending c) = (f, t)" and "ordered_keys (pending c)"
  shows "waiting t = waiting (pending c) - {i}" and "ordered_keys t"
    and "count_list (users (nonempty [f])) n + count (outstanding t) (User_cb n) =
           count (outstanding (pending c)) (User_cb n)"
  using take_pending_split [OF assms(2), of i] waiting_take_pending [of i "pending c"]
    take_pending_ordered [OF assms(2), of i] assms(1) count_users_option [of f n]
  by simp_all

lemma take_back_keeps:
  assumes "threads_inv w" and "pcs w n = Send_failed i"
    and "take_pending i (pending (ch w)) = (f, t)"
  shows "threads_inv ((goto n Returned w)
    \<lparr>ch := (ch w)\<lparr>pending := t\<rparr>, calls := calls w @ users (nonempty [f])\<rparr>)"
proof -
  let ?w = "w\<lparr>ch := (ch w)\<lparr>pending := t\<rparr>, calls := calls w @ users (nonempty [f])\<rparr>"
  note r = take_back_removes [OF assms(3) owner_invD(1) [OF assms(1)]]
  have "threads_inv ?w"
    using r by (intro removal_keeps [OF assms(1)]) auto
  then have "threads_inv (goto n Returned ?w)"
    using assms(2) r(1) by (intro goto_keeps) auto
  then show ?thesis by (cases w) (simp add: goto_def)
qed

lemma sweep_removes:
  assumes "sweep_channel now c = (c', os)" and "ordered_keys (pending c)"
  shows "waiting (pending c') \<subseteq> waiting (pending c)" and "ordered_keys (pending c')"
    and "nextRequestId c' = nextRequestId c" and "alive c' = alive c"
    and "count_list (called os) n + count (outstanding (pending c')) (User_cb n) =
           count (outstanding (pending c)) (User_cb n)"
  using assms waiting_sweep_timeouts [of now "pending c"] sweep_timeouts_split [of "pending c" now]
  by (auto simp: sweep_channel_eq count_list_users)

lemma drain_keeps:
  assumes "threads_inv w" and "rdr w = Flag_cleared"
    and "fail_all_pending code m (ch w) = (c', os)"
  shows "threads_inv (w\<lparr>ch := c', calls := calls w @ called os, rdr := Drained\<rparr>)"
proof -
  have c': "pending c' = []" "nextRequestId c' = nextRequestId (ch w)" "alive c' = alive (ch w)"
    and os: "called os = users (fst (fail_all (pending (ch w))))"
    using assms(3) by (auto simp: fail_all_pending_eq)
  have "threads_inv (w\<lparr>ch := c', calls := calls w @ called os\<rparr>)"
    using c' os fail_all_split(1) [of "pending (ch w)"]
    by (intro removal_keeps [OF assms(1)]) (simp_all add: count_list_users)
  with c' dead_invD(1) [OF assms(1)] assms(2) show ?thesis
    by (simp add: threads_inv_def ids_inv_def owner_inv_def dead_inv_def tally_def)
qed

lemma cstep_keeps:
  assumes "cstep w w'" and "threads_inv w" and "taken w' \<le> 2 ^ 32 - 2"
  shows "threads_inv w'"
  using assms
proof (cases rule: cstep.cases)
  case (refuse n)
  with assms(2) show ?thesis by (simp add: refuse_keeps)
next
  case (see_alive n)
  with assms(2) show ?thesis by (auto intro!: goto_keeps)
next
  case (take_id n)
  with assms(3) have "2 + taken w < 2 ^ 32" by simp
  from take_id_keeps [OF assms(2) take_id(2) this] take_id(1) show ?thesis by simp
next
  case (register n i now tmo)
  with assms(2) show ?thesis by (simp add: register_keeps)
next
  case (guard_passes n i)
  with assms(2) show ?thesis
    using dead_invD(1) [OF assms(2)] by (auto intro!: goto_keeps)
next
  case (guard_fails n i)
  with assms(2) show ?thesis by (auto intro!: goto_keeps)
next
  case (send_ok n i)
  with assms(2) show ?thesis by (auto intro!: goto_keeps)
next
  case (send_error n i)
  with assms(2) show ?thesis by (auto intro!: goto_keeps)
next
  case (take_back n i f t)
  with assms(2) show ?thesis by (simp add: take_back_keeps)
next
  case (reader_frame now h p c' os)
  with deliver_removes [OF reader_frame(3) owner_invD(1) [OF assms(2)]] assms(2) show ?thesis
    by (auto intro!: removal_keeps)
next
  case (reader_sweep now c' os)
  with sweep_removes [OF reader_sweep(3) owner_invD(1) [OF assms(2)]] assms(2) show ?thesis
    by (auto intro!: removal_keeps)
next
  case clear_flag
  with assms(2) show ?thesis
    by (simp add: threads_inv_def ids_inv_def owner_inv_def dead_inv_def tally_def)
next
  case (drain c' os)
  with assms(2) show ?thesis by (simp add: drain_keeps)
qed

lemma cstep_taken: "cstep w w' \<Longrightarrow> taken w \<le> taken w'"
  by (induction rule: cstep.induct) simp_all

lemma threads_inv_initial: "initial w \<Longrightarrow> threads_inv w"
  by (auto simp: initial_def threads_inv_def ids_inv_def owner_inv_def dead_inv_def tally_def)

lemma threads_inv_reachable: "reachable w \<Longrightarrow> taken w \<le> 2 ^ 32 - 2 \<Longrightarrow> threads_inv w"
proof (induction rule: reachable.induct)
  case (init w)
  then show ?case by (simp add: threads_inv_initial)
next
  case (step w w')
  with cstep_taken [OF step(2)] show ?case by (auto intro: cstep_keeps)
qed

section \<open>The composed request\<close>

text \<open>
  Running the steps of one request without interruption gives the function \<open>request\<close>, with
  the same pending table and the same calls.
\<close>

lemma request_is_its_steps:
  assumes "pcs w n = Not_started"
  shows "\<exists>w'. cstep\<^sup>*\<^sup>* w w' \<and> pcs w' n = Returned \<and>
           pending (ch w') = pending (fst (request now [Tx_failed] ty p tmo (Some (User_cb n)) (ch w))) \<and>
           nextRequestId (ch w') =
             nextRequestId (fst (request now [Tx_failed] ty p tmo (Some (User_cb n)) (ch w))) \<and>
           calls w' = calls w @ called (snd (request now [Tx_failed] ty p tmo (Some (User_cb n)) (ch w)))"
proof (cases "alive (ch w)")
  case False
  with assms have "cstep w ((goto n Returned w)\<lparr>calls := calls w @ [n]\<rparr>)" by (rule refuse)
  with False show ?thesis
    by (intro exI [of _ "(goto n Returned w)\<lparr>calls := calls w @ [n]\<rparr>"]) (auto simp: request_def)
next
  case True
  let ?i = "nextRequestId (ch w)"
  let ?t = "add now ?i (Some (User_cb n)) tmo (pending (ch w))"
  have tk: "take_pending ?i ?t = (Some (User_cb n), omap_erase ?i (pending (ch w)))"
    by (simp add: take_pending_def add_def)
  obtain w1 where 1: "cstep w w1" "pcs w1 n = Seen_alive" "ch w1 = ch w" "calls w1 = calls w"
    using see_alive [OF assms True] by (intro that [of "goto n Seen_alive w"]) simp_all
  obtain w2 where 2: "cstep w1 w2" "pcs w2 n = Has_id ?i"
    "ch w2 = (ch w)\<lparr>nextRequestId := ?i + 1\<rparr>" "calls w2 = calls w"
    by (rule that [OF take_id [OF 1(2)]]) (use 1 in simp_all)
  obtain w3 where 3: "cstep w2 w3" "pcs w3 n = Registered ?i" "calls w3 = calls w"
    "ch w3 = (ch w)\<lparr>nextRequestId := ?i + 1, pending := ?t\<rparr>"
    by (rule that [OF register [OF 2(2), of now tmo]]) (use 2 in simp_all)
  obtain w4 where 4: "cstep\<^sup>*\<^sup>* w3 w4" "pcs w4 n = Send_failed ?i" "ch w4 = ch w3" "calls w4 = calls w"
  proof (cases "localFd (ch w) < 0")
    case fd: True
    with 3 show thesis
      using guard_fails [OF 3(2)] by (intro that [of "goto n (Send_failed ?i) w3"]) auto
  next
    case False
    then have "cstep w3 (goto n (Sending ?i) w3)" using True 3 by (intro guard_passes) simp_all
    moreover have "cstep (goto n (Sending ?i) w3) (goto n (Send_failed ?i) (goto n (Sending ?i) w3))"
      by (rule send_error) simp
    ultimately show thesis
      using 3(3) by (intro that [of "goto n (Send_failed ?i) (goto n (Sending ?i) w3)"]) auto
  qed
  have tk4: "take_pending ?i (pending (ch w4)) = (Some (User_cb n), omap_erase ?i (pending (ch w)))"
    using tk 3(4) 4(3) by simp
  obtain w5 where 5: "cstep w4 w5" "pcs w5 n = Returned" "calls w5 = calls w @ [n]"
    "pending (ch w5) = omap_erase ?i (pending (ch w))" "nextRequestId (ch w5) = ?i + 1"
    by (rule that [OF take_back [OF 4(2) tk4]]) (use 3(4) 4(3,4) in simp_all)
  have "cstep\<^sup>*\<^sup>* w w5"
    using 1(1) 2(1) 3(1) 4(1) 5(1)
    by (meson converse_rtranclp_into_rtranclp rtranclp.rtrancl_into_rtrancl)
  moreover have "\<exists>s. write_frame [Tx_failed] t i p c = Sent False [] s" for t i c
    by (cases "encode_header (frame_header t i (word_of_nat (length p)))")
      (auto simp: write_frame_def)
  then obtain s where "write_frame [Tx_failed] (message_code ty) ?i p
      ((ch w)\<lparr>nextRequestId := ?i + 1, pending := ?t\<rparr>) = Sent False [] s"
    by blast
  then have "request now [Tx_failed] ty p tmo (Some (User_cb n)) (ch w) =
      ((ch w)\<lparr>nextRequestId := ?i + 1, pending := omap_erase ?i (pending (ch w))\<rparr>,
       [Wrote [], Called n (failure kControlErrInternal ''control channel write failed'')])"
    using True tk by (simp add: request_def Let_def)
  ultimately show ?thesis using 5 by (intro exI [of _ w5]) simp
qed

section \<open>Properties\<close>


text \<open>
  The race itself, as a run: thread 0 sees the channel alive, the reader clears the flag and drains
  the table, then the thread goes on; its registration is refused by the guard and taken back.
\<close>

definition race_start :: world where
  "race_start =
     \<lparr>ch = new_channel\<lparr>localFd := 3, alive := True, nextRequestId := 2, readerThread := Reading,
        pending := [(1, \<lparr>callback = Some Hello_cb, deadlineMs = 30000\<rparr>)]\<rparr>,
      pcs = (\<lambda>n. Not_started), rdr = Looping, calls = [], taken = 0\<rparr>"

lemma race_run:
  "\<exists>w. reachable w \<and> rdr w = Drained \<and> pcs w = (\<lambda>n. Not_started)(0 := Returned) \<and> taken w = 1"
proof -
  have r0: "reachable race_start" by (rule init) (simp add: initial_def race_start_def new_channel_def)
  obtain w1 where 1: "reachable w1" "pcs w1 = (\<lambda>n. Not_started)(0 := Seen_alive)"
    "rdr w1 = Looping" "taken w1 = 0"
    by (rule that [OF step [OF r0 see_alive [of race_start 0]]])
      (simp_all add: race_start_def new_channel_def)
  obtain w2 where 2: "reachable w2" "pcs w2 = pcs w1" "rdr w2 = Flag_cleared" "taken w2 = 0"
    "\<not> alive (ch w2)"
    by (rule that [OF step [OF 1(1) clear_flag [OF 1(3)]]]) (use 1 in simp_all)
  obtain c' os where d: "fail_all_pending kControlErrInternal ''control channel closed'' (ch w2) = (c', os)"
    by fastforce
  obtain w3 where 3: "reachable w3" "pcs w3 0 = Seen_alive" "pcs w3 = pcs w1" "rdr w3 = Drained"
    "taken w3 = 0" "\<not> alive (ch w3)"
    by (rule that [OF step [OF 2(1) drain [OF 2(3) d]]])
      (use 1 2 d in \<open>auto simp: fail_all_pending_eq\<close>)
  obtain w4 i where 4: "reachable w4" "pcs w4 0 = Has_id i" "pcs w4 = (pcs w1)(0 := Has_id i)"
    "rdr w4 = Drained" "taken w4 = 1" "\<not> alive (ch w4)"
    by (rule that [OF step [OF 3(1) take_id [OF 3(2)]]]) (use 3 in simp_all)
  obtain w5 where 5: "reachable w5" "pcs w5 0 = Registered i" "pcs w5 = (pcs w1)(0 := Registered i)"
    "rdr w5 = Drained" "taken w5 = 1" "\<not> alive (ch w5)"
    by (rule that [OF step [OF 4(1) register [OF 4(2)]]]) (use 4 in simp_all)
  have "localFd (ch w5) < 0 \<or> \<not> alive (ch w5)" using 5 by simp
  note g = guard_fails [OF 5(2) this]
  obtain w6 where 6: "reachable w6" "pcs w6 0 = Send_failed i" "rdr w6 = Drained" "taken w6 = 1"
    "pcs w6 = (pcs w1)(0 := Send_failed i)"
    by (rule that [OF step [OF 5(1) g]]) (use 5 in simp_all)
  obtain f t where t: "take_pending i (pending (ch w6)) = (f, t)" by fastforce
  show ?thesis
    by (rule exI, intro conjI, rule step [OF 6(1) take_back [OF 6(2) t]]) (use 1 6 in simp_all)
qed


end
