(* ===== verification/Display_Agent.thy ===== *)
theory Display_Agent
  imports Prelude
begin

text \<open>
  The interface between the control receiver and the display table: the entries of
  \<^verbatim>\<open>QAndroidMultiDisplayAgent\<close> that the receiver calls, over the state behind them. The locale
  states what the receiver relies on; it is interpreted on the model of
  \<^verbatim>\<open>MultiDisplay\<close> behind the agent table of \<^verbatim>\<open>qemu-multi-display-agent-impl.cpp\<close>.
\<close>

text \<open>Error numbers; a call that fails returns one of them negated.\<close>

definition ENODEV :: int where "ENODEV = 19"
definition EINVAL :: int where "EINVAL = 22"
definition EPIPE :: int where "EPIPE = 32"
definition ENOSYS :: int where "ENOSYS = 78"

record 'd agent =
  agentGet :: "u32 \<Rightarrow> 'd \<Rightarrow> bool \<times> (i32 \<times> i32 \<times> u32 \<times> u32 \<times> u32 \<times> u32 \<times> bool) option"
  agentSet :: "u32 \<Rightarrow> i32 \<Rightarrow> i32 \<Rightarrow> u32 \<Rightarrow> u32 \<Rightarrow> u32 \<Rightarrow> u32 \<Rightarrow> bool \<Rightarrow> 'd \<Rightarrow> int \<times> 'd"
  agentNext :: "i32 \<Rightarrow> 'd \<Rightarrow> (u32 \<times> i32 \<times> i32 \<times> u32 \<times> u32 \<times> u32 \<times> u32 \<times> u32) option"

text \<open>
  What a client sees of a display: its size, density and flags. \<open>listing\<close> gives the ids in
  ascending order, \<open>look\<close> the view of one display and \<open>active\<close> whether it is in use.
\<close>

type_synonym view = "u32 \<times> u32 \<times> u32 \<times> u32"

text \<open>The part of a list of entries a \<^verbatim>\<open>lower_bound\<close> search starting after an id sees.\<close>

definition after :: "i32 \<Rightarrow> (u32 \<times> 'v) list \<Rightarrow> (u32 \<times> 'v) list" where
  "after start xs = filter (\<lambda>e. (if sint start < 0 then 0 else start + 1) \<le> fst e) xs"

locale display_agent =
  fixes ag :: "'d agent"
    and listing :: "'d \<Rightarrow> (u32 \<times> view) list"
    and active :: "'d \<Rightarrow> u32 \<Rightarrow> bool"
    and invar :: "'d \<Rightarrow> bool"
  assumes listing_ordered: "invar d \<Longrightarrow> ordered_keys (listing d)"
    and get_active: "invar d \<Longrightarrow> fst (agentGet ag i d) = active d i"
    and get_enabled: "invar d \<Longrightarrow> active d i \<Longrightarrow>
        \<exists>x y w h dp fl. snd (agentGet ag i d) = Some (x, y, w, h, dp, fl, True)"
    and next_after: "invar d \<Longrightarrow>
        map_option (\<lambda>(i, x, y, w, h, dp, fl, c). (i, w, h, dp, fl)) (agentNext ag start d) =
        (case after start (listing d) of [] \<Rightarrow> None | e # es \<Rightarrow> Some e)"
    and set_invar: "invar d \<Longrightarrow> invar (snd (agentSet ag i x y w h dp fl b d))"
    and add_lists: "invar d \<Longrightarrow> i \<noteq> 0 \<Longrightarrow> fst (agentSet ag i x y w h dp fl True d) \<ge> 0 \<Longrightarrow>
        \<exists>fl'. map_of (listing (snd (agentSet ag i x y w h dp fl True d))) i = Some (w, h, dp, fl')"
    and remove_unlists: "invar d \<Longrightarrow> i \<noteq> 0 \<Longrightarrow> fst (agentSet ag i x y w h dp fl False d) \<ge> 0 \<Longrightarrow>
        map_of (listing (snd (agentSet ag i x y w h dp fl False d))) i = None \<and>
        \<not> active (snd (agentSet ag i x y w h dp fl False d)) i"
    and set_others: "invar d \<Longrightarrow> j \<noteq> i \<Longrightarrow> j \<noteq> 0 \<Longrightarrow>
        map_of (listing (snd (agentSet ag i x y w h dp fl b d))) j = map_of (listing d) j \<and>
        active (snd (agentSet ag i x y w h dp fl b d)) j = active d j"

end
