(* ===== verification/Control_Receiver.thy ===== *)
theory Control_Receiver
  imports Control_Frames Text_Util Display_Agent
begin

text \<open>
  \<^verbatim>\<open>android-qemu2-glue/macmu-control-receiver.cpp\<close>, the emulator's end of the control plane:
  the reader loop, the handlers of the requests, the tasks they queue for the main looper, and the
  pacing of display streams. Handlers return the actions they take in order: frames handed to
  \<^verbatim>\<open>send_frame\<close>, queued tasks and calls of the renderer hooks
  (\<^verbatim>\<open>android/macmu-opengles-hooks.h\<close>). The display table is behind the agent interface of
  \<open>Display_Agent\<close>; clocks and system call results are arguments.
\<close>

section \<open>Constants and state\<close>

definition kMaxUserDisplayId :: u32 where "kMaxUserDisplayId = 5"
definition kFrameSlotCount :: u32 where "kFrameSlotCount = 16"
definition kDefaultDisplayStreamFps :: u32 where "kDefaultDisplayStreamFps = 60"
definition kMaximumDisplayStreamFps :: u32 where "kMaximumDisplayStreamFps = 1000"

definition normalize_stream_fps :: "u32 \<Rightarrow> u32" where
  "normalize_stream_fps requestedFps =
     (if requestedFps = 0 then kDefaultDisplayStreamFps
      else if requestedFps > kMaximumDisplayStreamFps then kMaximumDisplayStreamFps
      else requestedFps)"

text \<open>Nanoseconds.\<close>

definition stream_interval :: "u32 \<Rightarrow> int" where
  "stream_interval framesPerSecond = 1000000000 div int (unat (normalize_stream_fps framesPerSecond))"

record DisplayStreamState =
  maxFps :: u32
  nextExport :: int

type_synonym streams = "(u32, DisplayStreamState) omap"

datatype task =
    Task_add u32 ControlDisplayAdd
  | Task_remove u32 ControlDisplayRemove
  | Task_list u32
  | Task_shutdown

datatype act =
    Send u16 u32 bytes
  | Enqueue task
  | Export_enabled u32 bool
  | Export_frame u32
  | Clear_frame u32
  | Reset_subscriptions
  | Vm_shutdown
  | Fd_shutdown int
  | Fd_closed int

record receiver =
  mRunning :: bool
  mStopRequested :: bool
  mFd :: int
  mThread :: bool
  mStreamingDisplays :: streams
  mStreamThread :: bool

definition new_receiver :: receiver where
  "new_receiver =
     \<lparr>mRunning = False, mStopRequested = False, mFd = -1, mThread = False,
      mStreamingDisplays = [], mStreamThread = False\<rparr>"

section \<open>Sending\<close>

definition send_response :: "u32 \<Rightarrow> ControlMessageType \<Rightarrow> bytes \<Rightarrow> act" where
  "send_response request_id type payload = Send (message_code type) request_id payload"

definition send_error :: "u32 \<Rightarrow> i32 \<Rightarrow> string \<Rightarrow> act" where
  "send_error request_id code message =
     Send (message_code kError) request_id
       (encode_error \<lparr>errCode = code, errMsgLen = of_nat (length message)\<rparr> @ bytes_of message)"

definition send_display_event :: "u32 \<Rightarrow> u32 \<Rightarrow> u32 \<Rightarrow> u32 \<Rightarrow> u32 \<Rightarrow> u32 \<Rightarrow> act" where
  "send_display_event displayId state w h d fl =
     Send (message_code kEventDisplay) 0
       (encode_event_display \<lparr>eventDisplayId = displayId, eventState = state, eventWidth = w,
          eventHeight = h, eventDpi = d, eventFlags = fl\<rparr>)"

text \<open>
  \<^verbatim>\<open>send_frame\<close>: nothing without a descriptor; the payload follows only a complete header. A
  failure is logged and otherwise ignored.
\<close>

definition send_frame :: "tx list \<Rightarrow> u16 \<Rightarrow> u32 \<Rightarrow> bytes \<Rightarrow> int \<Rightarrow> sent" where
  "send_frame s type request_id payload fd =
     (if fd < 0 then Sent False [] s
      else
        case write_all s (encode_header (frame_header type request_id (of_nat (length payload)))) of
          Sent True d s' \<Rightarrow> sent_prepend d (write_all s' payload)
        | r \<Rightarrow> r)"

section \<open>Streaming\<close>

definition set_display_streaming :: "int \<Rightarrow> u32 \<Rightarrow> bool \<Rightarrow> u32 \<Rightarrow> receiver \<Rightarrow> receiver \<times> act list" where
  "set_display_streaming now displayId on requestedFps s =
     (if displayId = 0 then (s, [Export_enabled displayId on])
      else if on then
        let fps = normalize_stream_fps requestedFps;
            next = now + stream_interval fps;
            entry = \<lparr>maxFps = fps, nextExport = next\<rparr>;
            s1 = s\<lparr>mStreamThread := True\<rparr> in
        (case map_of (mStreamingDisplays s) displayId of
           None \<Rightarrow>
             (s1\<lparr>mStreamingDisplays := omap_put displayId entry (mStreamingDisplays s)\<rparr>,
              [Export_enabled displayId on, Export_frame displayId])
         | Some st \<Rightarrow>
             if maxFps st \<noteq> fps
             then (s1\<lparr>mStreamingDisplays := omap_put displayId entry (mStreamingDisplays s)\<rparr>,
                   [Export_enabled displayId on])
             else (s1, [Export_enabled displayId on]))
      else
        (s\<lparr>mStreamingDisplays := omap_erase displayId (mStreamingDisplays s)\<rparr>,
         [Export_enabled displayId on]))"

text \<open>
  The body of \<^verbatim>\<open>stream_loop\<close> under its mutex: the displays to export at time \<open>now\<close>
  (they are exported after the mutex is released), the new deadlines, and the time of the next one
  (\<open>None\<close> for \<^verbatim>\<open>time_point::max()\<close>).
\<close>

fun stream_pass :: "int \<Rightarrow> streams \<Rightarrow> u32 list \<times> streams \<times> int option" where
  "stream_pass now [] = ([], [], None)"
| "stream_pass now ((displayId, st) # ss) =
     (let due = (nextExport st \<le> now);
          st' = (if due then st\<lparr>nextExport := now + stream_interval (maxFps st)\<rparr> else st);
          (toExport, ss', wake) = stream_pass now ss in
      (if due then displayId # toExport else toExport, (displayId, st') # ss',
       Some (case wake of None \<Rightarrow> nextExport st' | Some t \<Rightarrow> min (nextExport st') t)))"

text \<open>
  What one turn of the loop does: exit, wait for a display, wait until a deadline, or export.
\<close>

datatype stream_turn = Exit_loop | Wait_display | Wait_until int | Export "u32 list"

definition stream_loop_turn :: "int \<Rightarrow> receiver \<Rightarrow> receiver \<times> stream_turn" where
  "stream_loop_turn now s =
     (if \<not> mRunning s then (s, Exit_loop)
      else if mStreamingDisplays s = [] then (s, Wait_display)
      else
        let (toExport, ss', wake) = stream_pass now (mStreamingDisplays s);
            s' = s\<lparr>mStreamingDisplays := ss'\<rparr> in
        if toExport = []
        then (s', case wake of Some t \<Rightarrow> Wait_until t | None \<Rightarrow> Wait_display)
        else (s', Export toExport))"

definition stop_stream_thread :: "receiver \<Rightarrow> receiver \<times> act list" where
  "stop_stream_thread s =
     (s\<lparr>mStreamingDisplays := [], mStreamThread := False\<rparr>, [Reset_subscriptions])"

section \<open>Handlers\<close>

definition handle_hello :: "u32 \<Rightarrow> act list" where
  "handle_hello request_id =
     [send_response request_id kHelloAck
        (encode_hello_ack \<lparr>ackProtoVersion = ucast kControlProtocolVersion, capabilities = 0,
           maxDisplays = kMaxUserDisplayId, frameShmVersion = 2\<rparr>)]"

definition run_on_main_looper :: "bool \<Rightarrow> u32 \<Rightarrow> task \<Rightarrow> act list" where
  "run_on_main_looper looper request_id t =
     (if \<not> looper then [send_error request_id kControlErrNotReady ''qemu main looper not ready'']
      else [Enqueue t])"

text \<open>
  \<^verbatim>\<open>DISPLAY_STREAM\<close> accepts the short payload of older shells: the missing bytes of the
  structure stay zero.
\<close>

definition kLegacyDisplayStreamSize :: nat where "kLegacyDisplayStreamSize = 8"

definition stream_request :: "bytes \<Rightarrow> ControlDisplayStream" where
  "stream_request payload =
     decode_display_stream (take 12 payload @ replicate (12 - length payload) 0)"

definition handle_frame ::
  "bool \<Rightarrow> int \<Rightarrow> ControlFrameHeader \<Rightarrow> bytes \<Rightarrow> receiver \<Rightarrow> receiver \<times> act list" where
  "handle_frame looper now header payload s =
     (let request_id = requestId header; type = msgType header in
      if type = message_code kHello then (s, handle_hello request_id)
      else if type = message_code kPing then
        (s, [send_response request_id kPong (encode_pong \<lparr>timestampNs = of_int now\<rparr>)])
      else if type = message_code kDisplayAdd then
        (if length payload < 20
         then (s, [send_error request_id kControlErrInvalidArgument ''short DISPLAY_ADD payload''])
         else (s, run_on_main_looper looper request_id
                    (Task_add request_id (decode_display_add payload))))
      else if type = message_code kDisplayRemove then
        (if length payload < 4
         then (s, [send_error request_id kControlErrInvalidArgument ''short DISPLAY_REMOVE payload''])
         else (s, run_on_main_looper looper request_id
                    (Task_remove request_id (decode_display_remove payload))))
      else if type = message_code kDisplayStream then
        (if length payload < kLegacyDisplayStreamSize
         then (s, [send_error request_id kControlErrInvalidArgument ''short DISPLAY_STREAM payload''])
         else
           let request = stream_request payload in
           if streamDisplayId request \<ge> kFrameSlotCount
           then (s, [send_error request_id kControlErrInvalidArgument
                       ''display id exceeds frame slot table''])
           else
             let (s', acts) = set_display_streaming now (streamDisplayId request)
                   (streamEnabled request \<noteq> 0) (maximumFramesPerSecond request) s in
             (s', acts @ [send_response request_id kDisplayStreamOk []]))
      else if type = message_code kDisplayList then
        (s, run_on_main_looper looper request_id (Task_list request_id))
      else (s, [send_error request_id kControlErrUnsupported ''unsupported request type'']))"

section \<open>Tasks on the main looper\<close>

definition agent_says_free :: "'d agent \<Rightarrow> 'd \<Rightarrow> u32 \<Rightarrow> bool" where
  "agent_says_free ag d candidate =
     (let (exists, out) = agentGet ag candidate d;
          en = (case out of None \<Rightarrow> False | Some (x, y, w, h, dp, fl, e) \<Rightarrow> e) in
      \<not> exists \<or> \<not> en)"

definition allocate_display_id :: "'d agent \<Rightarrow> 'd \<Rightarrow> u32" where
  "allocate_display_id ag d =
     (case find (\<lambda>c. agent_says_free ag d (of_nat c)) [1..<Suc (unat kMaxUserDisplayId)] of
        None \<Rightarrow> 0
      | Some c \<Rightarrow> of_nat c)"

definition handle_display_add ::
  "'d agent option \<Rightarrow> u32 \<Rightarrow> ControlDisplayAdd \<Rightarrow> 'd \<Rightarrow> 'd \<times> act list" where
  "handle_display_add agent request_id request d =
     (case agent of
        None \<Rightarrow> (d, [send_error request_id kControlErrInternal ''multi-display agent unavailable''])
      | Some ag \<Rightarrow>
          let auto = (addDisplayId request = kControlDisplayIdAuto);
              displayId = (if auto then allocate_display_id ag d else addDisplayId request) in
          if auto \<and> displayId = 0
          then (d, [send_error request_id kControlErrRejected ''no free display id''])
          else if displayId = 0 \<or> displayId > kMaxUserDisplayId
          then (d, [send_error request_id kControlErrInvalidArgument
                      ''display id out of user range (1..5)''])
          else
            let (result, d') = agentSet ag displayId (-1) (-1) (addWidth request)
                  (addHeight request) (addDpi request) (addFlags request) True d in
            if result < 0
            then (d', [send_error request_id
                         (if result = - EPIPE then kControlErrNotReady else kControlErrRejected)
                         (''setMultiDisplay failed: '' @ decimal_int result)])
            else
              (d', [send_response request_id kDisplayAddOk
                      (encode_display_add_ok \<lparr>addedDisplayId = displayId\<rparr>),
                    send_display_event displayId kControlDisplayAdded (addWidth request)
                      (addHeight request) (addDpi request) (addFlags request)]))"

definition handle_display_remove ::
  "'d agent option \<Rightarrow> int \<Rightarrow> u32 \<Rightarrow> ControlDisplayRemove \<Rightarrow> receiver \<Rightarrow> 'd \<Rightarrow> receiver \<times> 'd \<times> act list"
where
  "handle_display_remove agent now request_id request s d =
     (case agent of
        None \<Rightarrow>
          (s, d, [send_error request_id kControlErrInternal ''multi-display agent unavailable''])
      | Some ag \<Rightarrow>
          let displayId = removeDisplayId request in
          if displayId = 0 \<or> displayId > kMaxUserDisplayId
          then (s, d, [send_error request_id kControlErrInvalidArgument
                         ''display id out of user range (1..5)''])
          else
            let (result, d') = agentSet ag displayId (-1) (-1) 0 0 0 0 False d in
            if result < 0
            then (s, d', [send_error request_id kControlErrRejected
                            (''setMultiDisplay(del) failed: '' @ decimal_int result)])
            else
              let (s', acts) = set_display_streaming now displayId False 0 s in
              (s', d', acts @ [Clear_frame displayId, send_response request_id kDisplayRemoveOk [],
                 send_display_event displayId kControlDisplayRemoved 0 0 0 0]))"

text \<open>
  The loop over the displays ends when the agent has no display after the previous id, compared as
  a signed number; \<open>None\<close> would mean that it does not end.
\<close>

partial_function (option) list_loop :: "'d agent \<Rightarrow> 'd \<Rightarrow> i32 \<Rightarrow> ControlDisplayInfo list option" where
  "list_loop ag d previousId =
     (case agentNext ag previousId d of
        None \<Rightarrow> Some []
      | Some (i, x, y, w, h, dp, fl, c) \<Rightarrow>
          Option.bind (list_loop ag d i)
            (\<lambda>rest. Some (\<lparr>infoDisplayId = i, infoWidth = w, infoHeight = h, infoDpi = dp,
                infoFlags = fl, infoEnabled = 1\<rparr> # rest)))"

definition handle_display_list :: "'d agent option \<Rightarrow> u32 \<Rightarrow> 'd \<Rightarrow> act list option" where
  "handle_display_list agent request_id d =
     (case agent of
        None \<Rightarrow> Some [send_error request_id kControlErrInternal ''multi-display agent unavailable'']
      | Some ag \<Rightarrow>
          (case list_loop ag d (-1) of
             None \<Rightarrow> None
           | Some entries \<Rightarrow>
               Some [send_response request_id kDisplayListOk
                       (encode_list_ok \<lparr>listCount = of_nat (length entries)\<rparr> @
                        concat (map encode_display_info entries))]))"

text \<open>\<open>vm\<close> is whether the agents offer a shutdown request.\<close>

fun run_task ::
  "'d agent option \<Rightarrow> bool \<Rightarrow> int \<Rightarrow> task \<Rightarrow> receiver \<Rightarrow> 'd \<Rightarrow> (receiver \<times> 'd \<times> act list) option" where
  "run_task agent vm now (Task_add request_id request) s d =
     (let (d', acts) = handle_display_add agent request_id request d in Some (s, d', acts))"
| "run_task agent vm now (Task_remove request_id request) s d =
     Some (handle_display_remove agent now request_id request s d)"
| "run_task agent vm now (Task_list request_id) s d =
     (case handle_display_list agent request_id d of
        None \<Rightarrow> None
      | Some acts \<Rightarrow> Some (s, d, acts))"
| "run_task agent vm now Task_shutdown s d = Some (s, d, if vm then [Vm_shutdown] else [])"

section \<open>The reader loop and the life cycle\<close>

definition reader_end :: "bool \<Rightarrow> receiver \<Rightarrow> receiver \<times> act list" where
  "reader_end looper s =
     (s\<lparr>mRunning := False\<rparr>,
      Reset_subscriptions #
      (if \<not> mStopRequested s \<and> looper then [Enqueue Task_shutdown] else []))"

lemma read_frame_shorter:
  "read_frame s = Frame h p r \<Longrightarrow> length (incoming r) < length (incoming s)"
  using read_frame_refines [of s]
  by (auto simp: parse_frame_def Let_def split: if_splits parsed.splits)

text \<open>
  The clock is read per frame. The loop consumes at least a header per turn; it returns when it
  waits for more bytes (the flag is then false) or has ended.
\<close>

function thread_loop ::
  "bool \<Rightarrow> (nat \<Rightarrow> int) \<Rightarrow> rx list \<Rightarrow> receiver \<Rightarrow> bool \<times> receiver \<times> act list" where
  "thread_loop looper clock s c =
     (if \<not> mRunning c then (True, reader_end looper c)
      else
        case read_frame s of
          Fr_blocked \<Rightarrow> (False, c, [])
        | Fr_closed \<Rightarrow> (True, reader_end looper c)
        | Fr_bad \<Rightarrow> (True, reader_end looper c)
        | Frame h p r \<Rightarrow>
            let (c1, a1) = handle_frame looper (clock 0) h p c;
                (ended, c2, a2) = thread_loop looper (\<lambda>n. clock (Suc n)) r c1 in
            (ended, c2, a1 @ a2))"
  by pat_completeness auto

termination thread_loop
  by (relation "measure (\<lambda>(looper, clock, s, c). length (incoming s))")
    (auto dest: read_frame_shorter)

declare thread_loop.simps [simp del]

text \<open>
  \<open>start\<close>: the descriptor number comes from the environment; \<open>usable\<close> is whether
  \<^verbatim>\<open>fcntl\<close> accepts it. Numbers beyond the range of a \<^verbatim>\<open>long\<close> are clamped by
  \<^verbatim>\<open>strtol\<close> and rejected by the same test as other large ones.
\<close>

definition receiver_start :: "string option \<Rightarrow> (int \<Rightarrow> bool) \<Rightarrow> receiver \<Rightarrow> receiver" where
  "receiver_start fdEnv usable s =
     (if mRunning s then s
      else
        case fdEnv of
          None \<Rightarrow> s
        | Some t \<Rightarrow>
            (case scan_number (c_str t) of
               None \<Rightarrow> s
             | Some (neg, ds, rest) \<Rightarrow>
                 let parsed = (if neg then - int (digits_value ds) else int (digits_value ds)) in
                 if parsed < 0 \<or> parsed \<ge> 2 ^ 31 - 1 then s
                 else if \<not> usable parsed then s
                 else s\<lparr>mFd := parsed, mStopRequested := False, mRunning := True, mThread := True\<rparr>))"

text \<open>
  \<open>stop\<close> joins the reader; \<open>reading\<close> is whether its loop was still running.
\<close>

definition receiver_stop :: "bool \<Rightarrow> bool \<Rightarrow> receiver \<Rightarrow> receiver \<times> act list" where
  "receiver_stop looper reading s =
     (let s1 = s\<lparr>mStopRequested := True, mRunning := False\<rparr>;
          a1 = (if mFd s \<ge> 0 then [Fd_shutdown (mFd s)] else []);
          (s2, a2) = (if mThread s \<and> reading then reader_end looper s1 else (s1, []));
          (s3, a3) = stop_stream_thread (s2\<lparr>mThread := False\<rparr>) in
      if mFd s3 \<ge> 0 then (s3\<lparr>mFd := -1\<rparr>, a1 @ a2 @ a3 @ [Fd_closed (mFd s3)])
      else (s3, a1 @ a2 @ a3))"

section \<open>Lemmas: streaming\<close>

definition advance :: "int \<Rightarrow> DisplayStreamState \<Rightarrow> DisplayStreamState" where
  "advance now st =
     (if nextExport st \<le> now then st\<lparr>nextExport := now + stream_interval (maxFps st)\<rparr> else st)"

lemma stream_pass_eq:
  "fst (stream_pass now ss) = map fst (filter (\<lambda>e. nextExport (snd e) \<le> now) ss)"
  "fst (snd (stream_pass now ss)) = map (\<lambda>(i, st). (i, advance now st)) ss"
  by (induction ss rule: stream_pass.induct) (auto simp: advance_def Let_def case_prod_beta)

lemma normalize_range: "1 \<le> unat (normalize_stream_fps f) \<and> unat (normalize_stream_fps f) \<le> 1000"
  by (auto simp: normalize_stream_fps_def kDefaultDisplayStreamFps_def kMaximumDisplayStreamFps_def
      word_less_nat_alt word_le_nat_alt unat_eq_zero Suc_le_eq unat_gt_0)

lemma stream_interval_pos: "stream_interval f \<ge> 1000000"
proof -
  obtain n where n: "unat (normalize_stream_fps f) = n" "1 \<le> n" "n \<le> 1000"
    using normalize_range [of f] by auto
  then have "1000000000 div int n \<ge> 1000000000 div 1000"
    by (intro zdiv_mono2) auto
  with n show ?thesis by (simp add: stream_interval_def)
qed

text \<open>The loop at a sequence of times: which displays are exported when.\<close>

fun run_passes :: "int list \<Rightarrow> streams \<Rightarrow> (int \<times> u32 list) list" where
  "run_passes [] ss = []"
| "run_passes (t # ts) ss =
     (let (toExport, ss', wake) = stream_pass t ss in (t, toExport) # run_passes ts ss')"

definition export_times :: "u32 \<Rightarrow> (int \<times> u32 list) list \<Rightarrow> int list" where
  "export_times i xs = map fst (filter (\<lambda>x. i \<in> set (snd x)) xs)"

lemma export_times_single:
  assumes "distinct (map fst ss)" and "(i, st) \<in> set ss"
  shows "i \<in> set (fst (stream_pass t ss)) \<longleftrightarrow> nextExport st \<le> t"
proof
  assume "i \<in> set (fst (stream_pass t ss))"
  then obtain st' where "(i, st') \<in> set ss" "nextExport st' \<le> t" by (auto simp: stream_pass_eq)
  then show "nextExport st \<le> t" using eq_key_imp_eq_value [OF assms] by blast
next
  assume "nextExport st \<le> t"
  with assms(2) show "i \<in> set (fst (stream_pass t ss))" by (force simp: stream_pass_eq)
qed

lemma paced_exports:
  assumes "distinct (map fst ss)" and "(i, st) \<in> set ss" and "sorted ts"
  shows "sorted_wrt (\<lambda>a b. a + stream_interval (maxFps st) \<le> b) (export_times i (run_passes ts ss)) \<and>
         (\<forall>t \<in> set (export_times i (run_passes ts ss)). nextExport st \<le> t \<and> t \<in> set ts)"
  using assms
proof (induction ts arbitrary: ss st)
  case Nil
  then show ?case by (simp add: export_times_def)
next
  case (Cons t ts)
  let ?ss = "fst (snd (stream_pass t ss))"
  have d: "distinct (map fst ?ss)" and m: "(i, advance t st) \<in> set ?ss"
    using Cons.prems by (force simp: stream_pass_eq comp_def case_prod_beta)+
  have "maxFps (advance t st) = maxFps st" by (simp add: advance_def)
  note ih = Cons.IH [OF d m, unfolded this]
  have run: "run_passes (t # ts) ss = (t, fst (stream_pass t ss)) # run_passes ts ?ss"
    by (simp add: case_prod_beta)
  show ?case
  proof (cases "nextExport st \<le> t")
    case True
    then have "export_times i (run_passes (t # ts) ss) = t # export_times i (run_passes ts ?ss)"
      using export_times_single [OF Cons.prems(1,2), of t] run by (simp add: export_times_def)
    moreover have "nextExport (advance t st) = t + stream_interval (maxFps st)"
      using True by (simp add: advance_def)
    ultimately show ?thesis using ih Cons.prems(3) True stream_interval_pos [of "maxFps st"] by force
  next
    case False
    then have "export_times i (run_passes (t # ts) ss) = export_times i (run_passes ts ?ss)"
      using export_times_single [OF Cons.prems(1,2), of t] run by (simp add: export_times_def)
    moreover have "advance t st = st" using False by (simp add: advance_def)
    ultimately show ?thesis using ih Cons.prems(3) by auto
  qed
qed

text \<open>Streams are kept for frame slots other than the default display, at a legal rate.\<close>

definition streams_ok :: "receiver \<Rightarrow> bool" where
  "streams_ok s \<longleftrightarrow>
     ordered_keys (mStreamingDisplays s) \<and>
     (\<forall>(i, st) \<in> set (mStreamingDisplays s).
        i \<noteq> 0 \<and> i < kFrameSlotCount \<and> 1 \<le> maxFps st \<and> maxFps st \<le> kMaximumDisplayStreamFps)"

lemma set_omap_put: "e \<in> set (omap_put k v m) \<Longrightarrow> e = (k, v) \<or> e \<in> set m"
  by (induction m) (auto split: if_splits)

lemma normalize_legal:
  "1 \<le> normalize_stream_fps f \<and> normalize_stream_fps f \<le> kMaximumDisplayStreamFps"
  using normalize_range [of f] by (simp add: word_le_nat_alt kMaximumDisplayStreamFps_def)

lemma set_display_streaming_ok [inv_intros]:
  assumes "streams_ok s" and "i < kFrameSlotCount"
  shows "streams_ok (fst (set_display_streaming now i on f s))"
  using assms normalize_legal [of f]
  by (auto simp: set_display_streaming_def streams_ok_def Let_def omap_erase_def
      dest!: set_omap_put split: option.split)

lemma handle_frame_ok [inv_intros]:
  "streams_ok s \<Longrightarrow> streams_ok (fst (handle_frame looper now h p s))"
  by (auto simp: handle_frame_def Let_def case_prod_beta not_le intro!: set_display_streaming_ok)

lemma maxFps_advance [simp]: "maxFps (advance now st) = maxFps st"
  by (simp add: advance_def)

lemma fst_advance [simp]: "fst \<circ> (\<lambda>(i, st). (i, advance now st)) = fst"
  by auto

lemma stream_loop_turn_ok [inv_intros]:
  "streams_ok s \<Longrightarrow> streams_ok (fst (stream_loop_turn now s))"
  by (auto simp: stream_loop_turn_def streams_ok_def Let_def case_prod_beta stream_pass_eq)

lemma handle_display_remove_ok [inv_intros]:
  "streams_ok s \<Longrightarrow> streams_ok (fst (handle_display_remove agent now i r s d))"
  by (auto simp: handle_display_remove_def Let_def case_prod_beta kMaxUserDisplayId_def
      kFrameSlotCount_def word_less_nat_alt word_le_nat_alt intro!: set_display_streaming_ok
      split: option.split)

lemma run_task_ok [inv_intros]:
  assumes "streams_ok s" and "run_task agent vm now t s d = Some (s', d', acts)"
  shows "streams_ok s'"
proof (cases t)
  case (Task_remove i r)
  with assms handle_display_remove_ok [of s agent now i r d] show ?thesis by simp
qed (use assms in \<open>auto split: option.splits prod.splits\<close>)

lemma receiver_start_ok [inv_intros]: "streams_ok s \<Longrightarrow> streams_ok (receiver_start e u s)"
  by (auto simp: receiver_start_def streams_ok_def Let_def split: option.split)

lemma receiver_stop_ok [inv_intros]: "streams_ok (fst (receiver_stop looper reading s))"
  by (simp add: receiver_stop_def stop_stream_thread_def streams_ok_def Let_def case_prod_beta)

text \<open>
  The states of the receiver and of the display agent that any interleaving of its threads reaches:
  the reader handles frames and ends, the main looper runs tasks, the streaming thread takes turns,
  and the owner starts and stops the receiver.
\<close>

inductive receiver_reach :: "'d agent option \<Rightarrow> 'd \<Rightarrow> receiver \<times> 'd \<Rightarrow> bool" for agent d0 where
  fresh: "receiver_reach agent d0 (new_receiver, d0)"
| frame: "receiver_reach agent d0 (s, d) \<Longrightarrow>
            receiver_reach agent d0 (fst (handle_frame looper now h p s), d)"
| task: "receiver_reach agent d0 (s, d) \<Longrightarrow> run_task agent vm now t s d = Some (s', d', acts) \<Longrightarrow>
           receiver_reach agent d0 (s', d')"
| turn: "receiver_reach agent d0 (s, d) \<Longrightarrow>
           receiver_reach agent d0 (fst (stream_loop_turn now s), d)"
| ended: "receiver_reach agent d0 (s, d) \<Longrightarrow> receiver_reach agent d0 (fst (reader_end looper s), d)"
| started: "receiver_reach agent d0 (s, d) \<Longrightarrow> receiver_reach agent d0 (receiver_start e u s, d)"
| stopped: "receiver_reach agent d0 (s, d) \<Longrightarrow>
              receiver_reach agent d0 (fst (receiver_stop looper reading s), d)"

lemma new_receiver_ok [inv_intros]: "streams_ok new_receiver"
  by (simp add: streams_ok_def new_receiver_def)

lemma reader_end_ok [inv_intros]: "streams_ok s \<Longrightarrow> streams_ok (fst (reader_end looper s))"
  by (simp add: streams_ok_def reader_end_def)

lemma receiver_reach_ok: "receiver_reach agent d0 x \<Longrightarrow> streams_ok (fst x)"
  by (induction rule: receiver_reach.induct) (auto intro: inv_intros)

section \<open>Lemmas: replies\<close>

text \<open>The frames sent for a request, and the tasks queued, in a list of actions.\<close>

definition replies :: "u32 \<Rightarrow> act list \<Rightarrow> (u16 \<times> bytes) list" where
  "replies i acts = [(t, p). Send t j p \<leftarrow> acts, j = i]"

definition tasks :: "act list \<Rightarrow> task list" where
  "tasks acts = [t. Enqueue t \<leftarrow> acts]"

lemma replies_append [simp]: "replies i (a @ b) = replies i a @ replies i b"
  by (simp add: replies_def)

lemma tasks_append [simp]: "tasks (a @ b) = tasks a @ tasks b"
  by (simp add: tasks_def)

lemma replies_simps [simp]:
  "replies i [] = []"
  "replies i (Send t j p # acts) = (if j = i then (t, p) # replies i acts else replies i acts)"
  "replies i (Enqueue tk # acts) = replies i acts"
  "replies i (Export_enabled k b # acts) = replies i acts"
  "replies i (Export_frame k # acts) = replies i acts"
  "replies i (Clear_frame k # acts) = replies i acts"
  by (simp_all add: replies_def)

lemma tasks_simps [simp]:
  "tasks [] = []" "tasks (Send t j p # acts) = tasks acts"
  "tasks (Enqueue tk # acts) = tk # tasks acts" "tasks (Export_enabled k b # acts) = tasks acts"
  "tasks (Export_frame k # acts) = tasks acts" "tasks (Clear_frame k # acts) = tasks acts"
  by (simp_all add: tasks_def)

lemma streaming_silent [simp]:
  "replies i (snd (set_display_streaming now k on f s)) = []"
  "tasks (snd (set_display_streaming now k on f s)) = []"
  by (auto simp: set_display_streaming_def Let_def split: option.split)

lemmas send_defs = send_error_def send_response_def send_display_event_def

text \<open>A reply is the acknowledgement of the request's type, or an error.\<close>

definition proper_reply :: "u16 \<Rightarrow> (u16 \<times> bytes) list \<Rightarrow> bool" where
  "proper_reply type rs \<longleftrightarrow>
     (\<exists>p. rs = [(control_response_type type, p)] \<or> rs = [(message_code kError, p)])"

lemma proper_reply_simps [simp]:
  "proper_reply t [(0x1FF, p)]" "proper_reply 1 [(0x101, p)]" "proper_reply 2 [(0x102, p)]"
  "proper_reply 0x10 [(0x110, p)]" "proper_reply 0x11 [(0x111, p)]"
  "proper_reply 0x12 [(0x112, p)]" "proper_reply 0x13 [(0x113, p)]"
  by (auto simp: proper_reply_def control_response_type_def)

fun task_type :: "task \<Rightarrow> u16" where
  "task_type (Task_add i r) = message_code kDisplayAdd"
| "task_type (Task_remove i r) = message_code kDisplayRemove"
| "task_type (Task_list i) = message_code kDisplayList"
| "task_type Task_shutdown = 0"

fun task_request :: "task \<Rightarrow> u32" where
  "task_request (Task_add i r) = i"
| "task_request (Task_remove i r) = i"
| "task_request (Task_list i) = i"
| "task_request Task_shutdown = 0"

lemma add_replies:
  assumes "i \<noteq> 0"
  shows "proper_reply (message_code kDisplayAdd) (replies i (snd (handle_display_add ag i r d)))"
  using assms
  by (auto simp: handle_display_add_def proper_reply_def send_defs control_response_type_def Let_def
      split: option.split prod.split)

lemma remove_replies:
  assumes "i \<noteq> 0"
  shows "proper_reply (message_code kDisplayRemove)
           (replies i (snd (snd (handle_display_remove ag now i r s d))))"
  using assms
  by (auto simp: handle_display_remove_def proper_reply_def send_defs control_response_type_def
      Let_def case_prod_beta split: option.split)

lemma list_replies:
  "handle_display_list ag i d = Some acts \<Longrightarrow>
     proper_reply (message_code kDisplayList) (replies i acts)"
  by (auto simp: handle_display_list_def proper_reply_def send_defs control_response_type_def
      split: option.splits)

lemma task_replies:
  assumes "run_task ag vm now t s d = Some (s', d', acts)" and "task_request t \<noteq> 0"
  shows "proper_reply (task_type t) (replies (task_request t) acts)"
proof (cases t)
  case (Task_add i r)
  with assms add_replies [of i ag r d] show ?thesis by (auto simp: case_prod_beta)
next
  case (Task_remove i r)
  with assms remove_replies [of i ag now r s d] show ?thesis by simp
next
  case (Task_list i)
  with assms list_replies [of ag i d acts] show ?thesis by (auto split: option.splits)
qed (use assms in simp)

lemma run_on_main_looper_replies:
  "(\<exists>p. replies i (run_on_main_looper looper i t) = [(message_code kError, p)] \<and>
      tasks (run_on_main_looper looper i t) = []) \<or>
   replies i (run_on_main_looper looper i t) = [] \<and> tasks (run_on_main_looper looper i t) = [t]"
  by (auto simp: run_on_main_looper_def send_defs)

section \<open>Lemmas: listing displays\<close>

lemma after_tail:
  assumes "ordered_keys xs" and "after start xs = e # es" and "fst e < 0x80000000"
  shows "after (fst e) xs = es"
proof -
  let ?k = "if sint start < 0 then 0 else start + 1"
  obtain us vs where xs: "xs = us @ e # vs" and k: "?k \<le> fst e"
    and es: "es = filter (\<lambda>e. ?k \<le> fst e) vs"
    using assms(2) unfolding after_def by (auto simp: filter_eq_Cons_iff)
  have lo: "u \<in> set us \<Longrightarrow> fst u < fst e" and hi: "v \<in> set vs \<Longrightarrow> fst e < fst v" for u v
    using assms(1) xs by (auto simp: sorted_wrt_append)
  have suc: "unat (fst e + 1) = unat (fst e) + 1"
    using assms(3) by (simp add: word_less_nat_alt unat_word_ariths)
  have "\<not> fst e + 1 \<le> fst u" if "u \<in> set us" for u
    using lo [OF that] suc by (simp add: word_le_nat_alt word_less_nat_alt)
  then have "filter (\<lambda>x. fst e + 1 \<le> fst x) us = []" by (simp add: filter_empty_conv)
  moreover have "\<not> fst e + 1 \<le> fst e" using suc by (simp add: word_le_nat_alt)
  moreover have "fst e + 1 \<le> fst v" if "v \<in> set vs" for v
    using hi [OF that] suc by (simp add: word_le_nat_alt word_less_nat_alt)
  then have "filter (\<lambda>x. fst e + 1 \<le> fst x) vs = vs" by (simp add: filter_id_conv)
  moreover have "?k \<le> fst v" if "v \<in> set vs" for v
    using k hi [OF that] by (rule order_trans [OF _ less_imp_le])
  then have "es = vs" using es by (simp only: filter_id_conv) blast
  ultimately show ?thesis using sint_small [OF assms(3)] xs by (simp add: after_def)
qed

definition info_of :: "u32 \<times> view \<Rightarrow> ControlDisplayInfo" where
  "info_of e = (case e of (i, w, h, dp, fl) \<Rightarrow>
     \<lparr>infoDisplayId = i, infoWidth = w, infoHeight = h, infoDpi = dp, infoFlags = fl,
      infoEnabled = 1\<rparr>)"

context display_agent begin

lemma list_loop_after:
  assumes "invar d" and "\<forall>e \<in> set (listing d). fst e < 0x80000000"
  shows "list_loop ag d start = Some (map info_of (after start (listing d)))"
proof (induction "length (after start (listing d))" arbitrary: start)
  case 0
  then have "agentNext ag start d = None"
    using next_after [OF assms(1), of start] by simp
  with 0 show ?case by (simp add: list_loop.simps)
next
  case (Suc n)
  then obtain e es where e: "after start (listing d) = e # es"
    by (cases "after start (listing d)") auto
  obtain i x y w h dp fl c where nx: "agentNext ag start d = Some (i, x, y, w, h, dp, fl, c)"
    and e': "e = (i, w, h, dp, fl)"
    using next_after [OF assms(1), of start] e by (auto split: prod.splits)
  have "e \<in> set (after start (listing d))" using e by simp
  then have "e \<in> set (listing d)" by (simp add: after_def)
  with assms(2) have "fst e < 0x80000000" by blast
  then have tail: "after i (listing d) = es"
    using after_tail [OF listing_ordered [OF assms(1)] e] e' by simp
  with Suc e have "list_loop ag d i = Some (map info_of es)" by simp
  with nx e e' show ?case by (simp add: list_loop.simps [of ag d start] info_of_def)
qed

lemma list_loop_all:
  assumes "invar d" and "\<forall>e \<in> set (listing d). fst e < 0x80000000"
  shows "list_loop ag d (-1) = Some (map info_of (listing d))"
proof -
  have "after (-1) (listing d) = listing d" by (simp add: after_def)
  with list_loop_after [OF assms, of "-1"] show ?thesis by simp
qed

lemma free_iff: "invar d \<Longrightarrow> agent_says_free ag d i \<longleftrightarrow> \<not> active d i"
  using get_active [of d i] get_enabled [of d i]
  by (auto simp: agent_says_free_def case_prod_beta split: option.splits)

lemma allocate_least:
  assumes "invar d"
  shows "if \<forall>i \<in> {1, 2, 3, 4, 5}. active d i then allocate_display_id ag d = 0
         else allocate_display_id ag d \<in> {1, 2, 3, 4, 5} \<and>
           \<not> active d (allocate_display_id ag d) \<and>
           (\<forall>i \<in> {1, 2, 3, 4, 5}. i < allocate_display_id ag d \<longrightarrow> active d i)"
proof -
  have "[1..<Suc (unat kMaxUserDisplayId)] = [1, 2, 3, 4, 5]"
    by (simp add: kMaxUserDisplayId_def upt_rec)
  then have "allocate_display_id ag d =
      (if \<not> active d 1 then 1 else if \<not> active d 2 then 2 else if \<not> active d 3 then 3
       else if \<not> active d 4 then 4 else if \<not> active d 5 then 5 else 0)"
    using free_iff [OF assms] by (simp add: allocate_display_id_def)
  then show ?thesis by simp
qed

end

section \<open>Lemmas: the reader loop\<close>

fun handle_frames ::
  "bool \<Rightarrow> (nat \<Rightarrow> int) \<Rightarrow> (ControlFrameHeader \<times> bytes) list \<Rightarrow> receiver \<Rightarrow> receiver \<times> act list" where
  "handle_frames looper clock [] c = (c, [])"
| "handle_frames looper clock ((h, p) # fs) c =
     (let (c1, a1) = handle_frame looper (clock 0) h p c;
          (c2, a2) = handle_frames looper (\<lambda>n. clock (Suc n)) fs c1 in
      (c2, a1 @ a2))"

lemma streaming_running [simp, frame_simps]:
  "mRunning (fst (set_display_streaming now i on f s)) = mRunning s"
  "mFd (fst (set_display_streaming now i on f s)) = mFd s"
  "mStopRequested (fst (set_display_streaming now i on f s)) = mStopRequested s"
  by (auto simp: set_display_streaming_def Let_def split: option.split)

lemma handle_frame_running [simp, frame_simps]:
  "mRunning (fst (handle_frame looper now h p s)) = mRunning s"
  by (simp add: handle_frame_def Let_def case_prod_beta)

lemma thread_loop_parses:
  assumes "mRunning c" and "\<not> closed_stream s" and "snd (parse_stream (incoming s)) = False"
  shows "thread_loop looper clock s c =
           (False, handle_frames looper clock (fst (parse_stream (incoming s))) c)"
  using assms
proof (induction "length (incoming s)" arbitrary: s c clock rule: less_induct)
  case less
  note rf = read_frame_refines [of s]
  show ?case
  proof (cases "parse_frame (incoming s)")
    case Incomplete
    with rf less.prems show ?thesis
      by (simp add: thread_loop.simps [of looper clock s] parse_stream.simps [of "incoming s"])
  next
    case Corrupt
    with less.prems(3) show ?thesis by (simp add: parse_stream.simps [of "incoming s"])
  next
    case (Parsed h p rest)
    with rf obtain r where r: "read_frame s = Frame h p r" "incoming r = rest"
      "closed_stream r = closed_stream s" by auto
    obtain c1 a1 where hf: "handle_frame looper (clock 0) h p c = (c1, a1)" by fastforce
    then have run: "mRunning c1"
      using handle_frame_running [of looper "clock 0" h p c] less.prems(1) by simp
    have ps: "parse_stream (incoming s) =
        ((h, p) # fst (parse_stream rest), snd (parse_stream rest))"
      using Parsed by (simp add: parse_stream.simps [of "incoming s"] case_prod_beta)
    have "thread_loop looper (\<lambda>n. clock (Suc n)) r c1 =
        (False, handle_frames looper (\<lambda>n. clock (Suc n)) (fst (parse_stream rest)) c1)"
      using less.hyps [OF read_frame_shorter [OF r(1)] run] less.prems r ps by simp
    with r hf less.prems ps show ?thesis
      by (simp add: thread_loop.simps [of looper clock s] case_prod_beta)
  qed
qed

section \<open>Properties\<close>

lemma request_handled_once:
  assumes "handle_frame looper now h p s = (s1, acts)" and "requestId h \<noteq> 0"
  shows "proper_reply (msgType h) (replies (requestId h) acts) \<and> tasks acts = [] \<or>
         replies (requestId h) acts = [] \<and>
         (\<exists>t. tasks acts = [t] \<and>
            (\<forall>(agent :: 'd agent option) vm now' s2 d s3 d' acts'. run_task agent vm now' t s2 d = Some (s3, d', acts') \<longrightarrow>
               proper_reply (msgType h) (replies (requestId h) acts')))"
proof -
  have q: "proper_reply (task_type t) (replies i (run_on_main_looper looper i t)) \<and>
        tasks (run_on_main_looper looper i t) = [] \<or>
      replies i (run_on_main_looper looper i t) = [] \<and> tasks (run_on_main_looper looper i t) = [t]"
    for i t
    using run_on_main_looper_replies [of i looper t] by (auto simp: proper_reply_def)
  let ?i = "requestId h"
  consider (queue) t where "acts = run_on_main_looper looper ?i t" "task_request t = ?i"
      "task_type t = msgType h"
    | (direct) "proper_reply (msgType h) (replies ?i acts)" "tasks acts = []"
    using assms
    by (auto simp: handle_frame_def Let_def case_prod_beta send_defs handle_hello_def
        split: if_splits)
  then show ?thesis
  proof cases
    case queue
    have "proper_reply (msgType h) (replies ?i a)"
      if "run_task agent vm now' t s2 d = Some (s3, d', a)"
      for agent :: "'d agent option" and vm now' s2 d s3 d' a
      using task_replies [OF that] queue(2,3) assms(2) by simp
    then show ?thesis using q [of t ?i] queue by auto
  qed blast
qed



text \<open>
  When the shell has written a sequence of well-formed frames, the receiver handles exactly
  these, in order, however the bytes were fragmented, and then waits for more.
\<close>

theorem receiver_handles_frames:
  assumes "mRunning c" and "\<not> closed_stream s"
    and "\<forall>(t, i, p) \<in> set frames. length p \<le> unat kControlMaxPayload"
    and "incoming s = concat (map (\<lambda>(t, i, p). encode_frame t i p) frames)"
  shows "thread_loop looper clock s c =
           (False, handle_frames looper clock
              (map (\<lambda>(t, i, p). (frame_header t i (of_nat (length p)), p)) frames) c)"
proof -
  have "parse_stream (concat (map (\<lambda>(t, i, p). encode_frame t i p) frames)) =
      (map (\<lambda>(t, i, p). (frame_header t i (of_nat (length p)), p)) frames, False)"
    using parse_stream_frames [of frames "[]"] assms(3)
    by (simp add: kControlMaxPayload_def parse_stream.simps [of "[]"] parse_frame_def)
  with thread_loop_parses [OF assms(1,2)] assms(4) show ?thesis by simp
qed

text \<open>
  A display stream is never exported faster than its rate: whenever the loop runs, two exports
  of the same display are at least the interval of its rate apart, none happens before the deadline
  set for it, and a pass at or after the deadline does export.
\<close>

theorem stream_pacing:
  assumes "streams_ok s" and "(i, st) \<in> set (mStreamingDisplays s)" and "sorted ts"
  shows "sorted_wrt (\<lambda>a b. a + stream_interval (maxFps st) \<le> b)
           (export_times i (run_passes ts (mStreamingDisplays s))) \<and>
         (\<forall>t \<in> set (export_times i (run_passes ts (mStreamingDisplays s))). nextExport st \<le> t) \<and>
         (i \<in> set (fst (stream_pass t (mStreamingDisplays s))) \<longleftrightarrow> nextExport st \<le> t)"
proof -
  have d: "distinct (map fst (mStreamingDisplays s))"
    using assms(1) by (simp add: streams_ok_def ordered_keys_distinct)
  show ?thesis
    using paced_exports [OF d assms(2,3)] export_times_single [OF d assms(2)] by blast
qed

text \<open>
  (C29) The streams the receiver keeps always belong to a frame slot other than the default display
  and run at between 1 and 1000 frames per second, whatever frames, tasks of the main looper, turns
  of the streaming thread, starts and stops interleave.
\<close>

theorem streams_stay_legal:
  "receiver_reach agent d0 (s, d) \<Longrightarrow>
     distinct (map fst (mStreamingDisplays s)) \<and>
     (\<forall>(i, st) \<in> set (mStreamingDisplays s). 0 < i \<and> i < kFrameSlotCount \<and>
        1 \<le> maxFps st \<and> maxFps st \<le> kMaximumDisplayStreamFps)"
  using receiver_reach_ok [of agent d0 "(s, d)"]
  by (auto simp: streams_ok_def ordered_keys_distinct word_neq_0_conv)

theorem streams_stay_legal_witness:
  "mStreamingDisplays (fst (set_display_streaming 0 3 True 5000 new_receiver)) =
     [(3, \<lparr>maxFps = 1000, nextExport = 1000000\<rparr>)] \<and>
   list_all (\<lambda>(i, st). 0 < i \<and> maxFps st \<le> kMaximumDisplayStreamFps)
     (mStreamingDisplays (fst (set_display_streaming 0 3 True 5000 new_receiver)))"
proof -
  let ?p = "encode_display_stream
              \<lparr>streamDisplayId = 3, streamEnabled = 1, maximumFramesPerSecond = 5000\<rparr>"
  let ?s = "fst (handle_frame True 0 (frame_header 0x13 7 12) ?p new_receiver)"
  have e: "?s = fst (set_display_streaming 0 3 True 5000 new_receiver)"
    by (simp add: handle_frame_def stream_request_def kLegacyDisplayStreamSize_def kFrameSlotCount_def
        Let_def case_prod_beta)
  have "receiver_reach None () (?s, ())" by (intro receiver_reach.intros)
  from streams_stay_legal [OF this] show ?thesis
    unfolding e
    by (simp add: set_display_streaming_def new_receiver_def normalize_stream_fps_def
        kMaximumDisplayStreamFps_def stream_interval_def Let_def)
qed

text \<open>
  The greeting of the emulator announces the number of displays a user can create, 5, in the
  field that the protocol header documents as the number of frame channel slots, which is 16.
\<close>

theorem hello_reports_user_displays:
  "handle_hello i = [Send (message_code kHelloAck) i p] \<Longrightarrow>
     maxDisplays (decode_hello_ack p) = 5 \<and> maxDisplays (decode_hello_ack p) \<noteq> kFrameSlotCount"
  by (auto simp: handle_hello_def send_defs kMaxUserDisplayId_def kFrameSlotCount_def)

end
