(* ===== verification/Display_Layout.thy ===== *)
theory Display_Layout
  imports Prelude
begin

text \<open>
  The table of displays of \<^verbatim>\<open>android/emulation/MultiDisplay.cpp\<close> and its geometry: how the
  displays are placed side by side or stacked for each orientation
  (\<^verbatim>\<open>performRotationLocked\<close>), the automotive layout (\<^verbatim>\<open>android/base/LayoutResolver.cpp\<close>,
  \<^verbatim>\<open>android/emulation/AutoDisplays.cpp\<close>), the size of the whole, and the translation of
  a window coordinate to a display and a coordinate on it.

  The class is declared in \<^verbatim>\<open>host-common/MultiDisplay.h\<close>, which is not part of the
  repository: its constants and the constructors of its element type are parameters, the fields
  of \<open>menv\<close>. The other fields of \<open>menv\<close> are the configuration the code asks for.
  All coordinate arithmetic is 32-bit and wraps as in the code.
\<close>

section \<open>Displays and configuration\<close>

record info =
  pos_x :: i32
  pos_y :: i32
  width :: u32
  height :: u32
  originalWidth :: u32
  originalHeight :: u32
  dpi :: u32
  flag :: u32
  enabled :: bool
  cb :: u32
  rotation :: int
  colorTransform :: "u32 list"

type_synonym displays = "(u32, info) omap"

datatype AvdFlavor = AVD_TV | AVD_WEAR | AVD_ANDROID_AUTO | AVD_OTHER

text \<open>\<^verbatim>\<open>SkinRotation\<close> is an enumeration from 0.\<close>

definition SKIN_ROTATION_0 :: int where "SKIN_ROTATION_0 = 0"
definition SKIN_ROTATION_90 :: int where "SKIN_ROTATION_90 = 1"
definition SKIN_ROTATION_180 :: int where "SKIN_ROTATION_180 = 2"
definition SKIN_ROTATION_270 :: int where "SKIN_ROTATION_270 = 3"

record menv =
  s_maxNumMultiDisplay :: u32
  s_invalidIdMultiDisplay :: u32
  s_displayIdInternalBegin :: u32
  newInfo :: info
  makeInfo :: "i32 \<Rightarrow> i32 \<Rightarrow> u32 \<Rightarrow> u32 \<Rightarrow> u32 \<Rightarrow> u32 \<Rightarrow> bool \<Rightarrow> u32 \<Rightarrow> info"
  multiDisplayFeature :: bool
  anyFoldedArea :: bool
  resizable :: bool
  avdPresent :: bool
  avdFlavor :: AvdFlavor
  apiLevel :: int
  desktopApi36 :: bool
  layoutOrientation :: "int option"
  minigbmFeature :: bool
  hotplugOption :: bool
  hwHotplug :: bool
  pixelFold :: bool
  folded :: bool
  secondDisplayId :: u32
  grpcUi :: bool
  multiDisplayWindow :: bool
  automotive :: bool
  distantDisplayProp :: bool
  carMultiDisplayProp :: bool
  adbAvailable :: bool
  pipeUp :: bool
  recordingDisplay :: "u32 option"

definition current_rotation :: "menv \<Rightarrow> int" where
  "current_rotation env =
     (case layoutOrientation env of Some r \<Rightarrow> r | None \<Rightarrow> SKIN_ROTATION_0)"

text \<open>\<^verbatim>\<open>mMultiDisplay[id]\<close> creates a missing element.\<close>

definition at_or_new :: "menv \<Rightarrow> u32 \<Rightarrow> displays \<Rightarrow> info" where
  "at_or_new env i m = (case map_of m i of Some d \<Rightarrow> d | None \<Rightarrow> newInfo env)"

definition modify :: "menv \<Rightarrow> u32 \<Rightarrow> (info \<Rightarrow> info) \<Rightarrow> displays \<Rightarrow> displays" where
  "modify env i f m = omap_put i (f (at_or_new env i m)) m"

text \<open>Displays that are shown: the default one and those with a color buffer.\<close>

definition shown :: "u32 \<times> info \<Rightarrow> bool" where
  "shown e \<longleftrightarrow> fst e = 0 \<or> cb (snd e) \<noteq> 0"

section \<open>Size\<close>

fun extent :: "displays \<Rightarrow> u32 \<Rightarrow> u32 \<Rightarrow> u32 \<times> u32" where
  "extent [] total_w total_h = (total_w, total_h)"
| "extent (e # m) total_w total_h =
     (if shown e
      then extent m (max total_w (width (snd e) + pos_x (snd e)))
             (max total_h (height (snd e) + pos_y (snd e)))
      else extent m total_w total_h)"

definition getCombinedDisplaySizeLocked :: "menv \<Rightarrow> displays \<Rightarrow> u32 \<times> u32 \<times> displays" where
  "getCombinedDisplaySizeLocked env m =
     (if pixelFold env then
        let second_exists = map_of m (secondDisplayId env) \<noteq> None;
            i = (if folded env \<and> second_exists then secondDisplayId env else 0);
            m' = modify env i id m;
            w = originalWidth (at_or_new env i m);
            h = originalHeight (at_or_new env i m);
            r = current_rotation env in
        if r = SKIN_ROTATION_90 \<or> r = SKIN_ROTATION_270 then (h, w, m') else (w, h, m')
      else let (w, h) = extent m 0 0 in (w, h, m))"

definition getNumberActiveMultiDisplaysLocked :: "displays \<Rightarrow> nat" where
  "getNumberActiveMultiDisplaysLocked m = length (filter shown m)"

section \<open>Orientation\<close>

text \<open>
  The four branches of the rotation are a first pass for the totals and a second that places the
  displays in the order of their ids.
\<close>

fun place_row :: "int \<Rightarrow> u32 \<Rightarrow> displays \<Rightarrow> displays" where
  "place_row r total_w [] = []"
| "place_row r total_w ((i, d) # m) =
     (i, d\<lparr>width := originalWidth d, height := originalHeight d, pos_x := total_w, pos_y := 0,
           rotation := r\<rparr>)
     # place_row r (total_w + originalWidth d) m"

definition widest_swapped :: "displays \<Rightarrow> u32" where
  "widest_swapped m = fold (\<lambda>(i, d) w. max w (originalHeight d)) m 0"

fun place_pile :: "int \<Rightarrow> u32 \<Rightarrow> u32 \<Rightarrow> displays \<Rightarrow> displays" where
  "place_pile r total_w total_h [] = []"
| "place_pile r total_w total_h ((i, d) # m) =
     (i, d\<lparr>width := originalHeight d, height := originalWidth d,
           pos_x := total_w - originalHeight d, pos_y := total_h, rotation := r\<rparr>)
     # place_pile r total_w (total_h + originalWidth d) m"

definition pile_height :: "displays \<Rightarrow> u32" where
  "pile_height m = fold (\<lambda>(i, d) h. h + originalWidth d) m 0"

fun place_pile_down :: "int \<Rightarrow> u32 \<Rightarrow> displays \<Rightarrow> displays" where
  "place_pile_down r total_h [] = []"
| "place_pile_down r total_h ((i, d) # m) =
     (let total_h' = total_h - originalWidth d in
      (i, d\<lparr>width := originalHeight d, height := originalWidth d, pos_x := 0, pos_y := total_h',
            rotation := r\<rparr>)
      # place_pile_down r total_h' m)"

definition row_totals :: "displays \<Rightarrow> u32 \<times> u32" where
  "row_totals m =
     fold (\<lambda>(i, d) (w, h). (w + originalWidth d, max (originalHeight d) h)) m (0, 0)"

fun place_row_back :: "int \<Rightarrow> u32 \<Rightarrow> u32 \<Rightarrow> displays \<Rightarrow> displays" where
  "place_row_back r total_w total_h [] = []"
| "place_row_back r total_w total_h ((i, d) # m) =
     (let total_w' = total_w - originalWidth d in
      (i, d\<lparr>width := originalWidth d, height := originalHeight d, pos_x := total_w',
            pos_y := total_h - originalHeight d, rotation := r\<rparr>)
      # place_row_back r total_w' total_h m)"

definition performRotationLocked :: "menv \<Rightarrow> int \<Rightarrow> displays \<Rightarrow> displays" where
  "performRotationLocked env r m =
     (if pixelFold env then
        let home = (\<lambda>d. d\<lparr>pos_x := 0, pos_y := 0, rotation := r\<rparr>);
            m' = modify env 0 home m in
        if map_of m (secondDisplayId env) \<noteq> None then modify env (secondDisplayId env) home m'
        else m'
      else
        let pileUp = (r = SKIN_ROTATION_90 \<or> r = SKIN_ROTATION_270);
            normalOrder = (r = SKIN_ROTATION_0 \<or> r = SKIN_ROTATION_270) in
        if normalOrder then
          (if pileUp then place_pile r (widest_swapped m) 0 m else place_row r 0 m)
        else
          (if pileUp then place_pile_down r (pile_height m) m
           else place_row_back r (fst (row_totals m)) (snd (row_totals m)) m))"

section \<open>The automotive layout\<close>

definition GENERIC_DISPLAY :: u32 where "GENERIC_DISPLAY = 1"
definition DISTANT_DISPLAY :: u32 where "DISTANT_DISPLAY = 2"
definition DYNAMIC_MULTI_DISPLAY :: u32 where "DYNAMIC_MULTI_DISPLAY = 4"

definition getDisplayType :: "menv \<Rightarrow> u32" where
  "getDisplayType env =
     (if distantDisplayProp env then DISTANT_DISPLAY
      else if carMultiDisplayProp env then DYNAMIC_MULTI_DISPLAY
      else GENERIC_DISPLAY)"

definition DEFAULT_FLAGS_AUTO :: u32 where
  "DEFAULT_FLAGS_AUTO = 1 OR 8 OR 128 OR 1024 OR 64 OR 512 OR 256"

definition DEFAULT_FLAGS_AUTO_CLUSTER :: u32 where
  "DEFAULT_FLAGS_AUTO_CLUSTER = 8 OR 1024 OR 64 OR 256"

definition getDefaultFlagsForDisplay :: "u32 \<Rightarrow> u32" where
  "getDefaultFlagsForDisplay displayId =
     (if displayId = 1 then DEFAULT_FLAGS_AUTO_CLUSTER else DEFAULT_FLAGS_AUTO)"

text \<open>
  The code sorts each row by id with a stable sort; the rectangles come from an ordered table
  here, so the rows are sorted already and the order in which an unordered map lists them, which
  the totals do not depend on, is irrelevant.
\<close>

type_synonym rects = "(u32 \<times> u32 \<times> u32) list"

fun line_up :: "u32 \<Rightarrow> u32 \<Rightarrow> rects \<Rightarrow> (u32 \<times> u32 \<times> u32) list" where
  "line_up posX posY [] = []"
| "line_up posX posY ((i, w, h) # rs) = (i, posX, posY) # line_up (posX + w) posY rs"

definition row_width :: "rects \<Rightarrow> u32" where
  "row_width rs = fold (\<lambda>(i, w, h) acc. acc + w) rs 0"

definition row_height :: "rects \<Rightarrow> u32" where
  "row_height rs = fold (\<lambda>(i, w, h) acc. max acc h) rs 0"

definition resolveStackedLayout :: "rects \<Rightarrow> u32 \<Rightarrow> (u32 \<times> u32 \<times> u32) list" where
  "resolveStackedLayout rs displayType =
     (let cluster = (if displayType AND DYNAMIC_MULTI_DISPLAY \<noteq> 0 then 1 else 6);
          mainRow = filter (\<lambda>(i, w, h). i = 0 \<or> i = cluster) rs;
          auxRow = filter (\<lambda>(i, w, h). \<not> (i = 0 \<or> i = cluster)) rs;
          mainW = row_width mainRow; auxW = row_width auxRow;
          startMargin = (of_int (\<bar>sint (mainW - auxW)\<bar> div 2) :: u32);
          distant = displayType AND DISTANT_DISPLAY \<noteq> 0 in
      line_up (if mainW > auxW then startMargin else 0)
              (if \<not> distant then 0 else row_height mainRow) auxRow @
      line_up (if mainW > auxW then 0 else startMargin)
              (if \<not> distant then row_height auxRow else 0) mainRow)"

definition recomputeStackedLayoutLocked :: "menv \<Rightarrow> displays \<Rightarrow> displays" where
  "recomputeStackedLayoutLocked env m =
     fold (\<lambda>(i, x, y). modify env i (\<lambda>d. d\<lparr>pos_x := x, pos_y := y\<rparr>))
       (resolveStackedLayout (map (\<lambda>(i, d). (i, width d, height d)) (filter shown m))
          (getDisplayType env)) m"

definition recomputeLayoutLocked :: "menv \<Rightarrow> displays \<Rightarrow> displays" where
  "recomputeLayoutLocked env m =
     (let m' = performRotationLocked env (current_rotation env) m in
      if automotive env then recomputeStackedLayoutLocked env m' else m')"

section \<open>Coordinates\<close>

fun hit_0 :: "u32 \<Rightarrow> u32 \<Rightarrow> u32 \<Rightarrow> displays \<Rightarrow> (u32 \<times> u32 \<times> u32) option" where
  "hit_0 totalH x y [] = None"
| "hit_0 totalH x y ((i, d) # m) =
     (let px = pos_x d; py = totalH - height d - pos_y d in
      if shown (i, d) \<and> x - px < width d \<and> y - py < height d then Some (x - px, y - py, i)
      else hit_0 totalH x y m)"

fun hit_180 :: "u32 \<Rightarrow> u32 \<Rightarrow> u32 \<Rightarrow> u32 \<Rightarrow> u32 \<Rightarrow> displays \<Rightarrow> (u32 \<times> u32 \<times> u32) option" where
  "hit_180 totalW totalH off x y [] = None"
| "hit_180 totalW totalH off x y ((i, d) # m) =
     (if \<not> shown (i, d) then hit_180 totalW totalH off x y m
      else
        let normal_x = totalW - x; delta = totalH - height d in
        if normal_x - pos_x d < width d \<and> y - delta \<le> height d then Some (x - off, y - delta, i)
        else hit_180 totalW totalH (off + width d) x y m)"

fun hit_270 :: "u32 \<Rightarrow> u32 \<Rightarrow> displays \<Rightarrow> (u32 \<times> u32 \<times> u32) option" where
  "hit_270 x y [] = None"
| "hit_270 x y ((i, d) # m) =
     (if shown (i, d) \<and> x - pos_y d < height d \<and> y - pos_x d < width d
      then Some (x - pos_y d, y - pos_x d, i)
      else hit_270 x y m)"

fun hit_90 :: "u32 \<Rightarrow> u32 \<Rightarrow> u32 \<Rightarrow> u32 \<Rightarrow> u32 \<Rightarrow> displays \<Rightarrow> (u32 \<times> u32 \<times> u32) option" where
  "hit_90 totalW totalH off x y [] = None"
| "hit_90 totalW totalH off x y ((i, d) # m) =
     (if \<not> shown (i, d) then hit_90 totalW totalH off x y m
      else
        let normal_x = totalH - x; normal_y = totalW - y in
        if normal_x - pos_y d < height d \<and> normal_y - pos_x d < width d
        then Some (x - off, y - (totalW - width d), i)
        else hit_90 totalW totalH (off + height d) x y m)"

definition translateCoordination ::
  "menv \<Rightarrow> bool \<Rightarrow> displays \<Rightarrow> u32 \<Rightarrow> u32 \<Rightarrow> (u32 \<times> u32 \<times> u32) option" where
  "translateCoordination env guestMode m x y =
     (if guestMode then Some (x, y, 0)
      else if pixelFold env then
        Some (x, y, if folded env \<and> \<not> grpcUi env then secondDisplayId env else 0)
      else
        let r = current_rotation env;
            isPortrait = (r \<noteq> SKIN_ROTATION_90 \<and> r \<noteq> SKIN_ROTATION_270);
            isNormalOrder = (r \<noteq> SKIN_ROTATION_90 \<and> r \<noteq> SKIN_ROTATION_180);
            (totalW, totalH, m') = getCombinedDisplaySizeLocked env m in
        if isPortrait then
          (if isNormalOrder then hit_0 totalH x y m else hit_180 totalW totalH 0 x y m)
        else
          (if isNormalOrder then hit_270 x y m else hit_90 totalW totalH 0 x y m))"

section \<open>Lemmas: what a layout keeps\<close>

text \<open>The part of a display that no layout changes.\<close>

definition essence :: "info \<Rightarrow> u32 \<times> u32 \<times> u32 \<times> u32 \<times> bool \<times> u32" where
  "essence d = (originalWidth d, originalHeight d, dpi d, flag d, enabled d, cb d)"

definition essences :: "displays \<Rightarrow> (u32 \<times> u32 \<times> u32 \<times> u32 \<times> u32 \<times> bool \<times> u32) list" where
  "essences m = map (\<lambda>(i, d). (i, essence d)) m"

definition ess :: "displays \<Rightarrow> u32 \<Rightarrow> (u32 \<times> u32 \<times> u32 \<times> u32 \<times> bool \<times> u32) option" where
  "ess m i = map_option essence (map_of m i)"

lemma ess_essences: "ess m i = map_of (essences m) i"
  by (induction m) (auto simp: ess_def essences_def)

lemma fst_essences: "map fst m = map fst (essences m)"
  by (auto simp: essences_def)

lemma essences_place [simp]:
  "essences (place_row r a m) = essences m"
  "essences (place_pile r a b m) = essences m"
  "essences (place_pile_down r a m) = essences m"
  "essences (place_row_back r a b m) = essences m"
proof -
  show "essences (place_row r a m) = essences m"
    by (induction m arbitrary: a) (auto simp: essences_def essence_def)
  show "essences (place_pile r a b m) = essences m"
    by (induction m arbitrary: b) (auto simp: essences_def essence_def)
  show "essences (place_pile_down r a m) = essences m"
    by (induction m arbitrary: a) (auto simp: essences_def essence_def Let_def)
  show "essences (place_row_back r a b m) = essences m"
    by (induction m arbitrary: a) (auto simp: essences_def essence_def Let_def)
qed

text \<open>Two tables with the same displays, except that the default one may have been added.\<close>

definition same_displays :: "displays \<Rightarrow> displays \<Rightarrow> bool" where
  "same_displays m m' \<longleftrightarrow>
     (ordered_keys m \<longrightarrow> ordered_keys m') \<and> (\<forall>i. i \<noteq> 0 \<longrightarrow> ess m' i = ess m i) \<and>
     fst ` set m' - {0} = fst ` set m - {0} \<and> fst ` set m \<subseteq> fst ` set m'"

lemma same_displays_refl [simp]: "same_displays m m"
  by (simp add: same_displays_def)

lemma same_displays_trans: "same_displays m m' \<Longrightarrow> same_displays m' m'' \<Longrightarrow> same_displays m m''"
  unfolding same_displays_def
  by (elim conjE, intro conjI) (blast, simp, simp, rule subset_trans)

lemma same_displays_essences:
  assumes "essences m' = essences m"
  shows "same_displays m m'"
proof -
  have "map fst m' = map fst m" using assms by (simp add: fst_essences)
  moreover from this have "fst ` set m' = fst ` set m" by (metis list.set_map)
  ultimately show ?thesis using assms by (simp add: same_displays_def ess_essences)
qed

lemma same_displays_modify:
  assumes "i = 0 \<or> i \<in> fst ` set m" and "\<And>d. essence (f d) = essence d"
  shows "same_displays m (modify env i f m)"
  using assms
  by (auto simp: same_displays_def modify_def ess_def at_or_new_def image_iff
      split: option.split dest: weak_map_of_SomeI)

lemma same_displays_fold_modify:
  assumes "\<And>i x y. (i, x, y) \<in> set ps \<Longrightarrow> i = 0 \<or> i \<in> fst ` set m"
    and "\<And>p d. essence (f p d) = essence d"
  shows "same_displays m (fold (\<lambda>(i, x, y). modify env i (f (x, y))) ps m)"
  using assms(1)
proof (induction ps arbitrary: m)
  case Nil
  then show ?case by simp
next
  case (Cons p ps)
  obtain i x y where p: "p = (i, x, y)" by (cases p) auto
  have one: "same_displays m (modify env i (f (x, y)) m)"
    using Cons.prems p assms(2) by (intro same_displays_modify) auto
  have "same_displays (modify env i (f (x, y)) m)
      (fold (\<lambda>(i, x, y). modify env i (f (x, y))) ps (modify env i (f (x, y)) m))"
    using Cons.prems p by (intro Cons.IH) (auto simp: modify_def)
  from same_displays_trans [OF one this] show ?case by (simp only: p fold_simps prod.case)
qed

lemma fst_line_up: "fst ` set (line_up a b rs) = fst ` set rs"
  by (induction a b rs rule: line_up.induct) auto

lemma fst_resolveStackedLayout: "fst ` set (resolveStackedLayout rs t) = fst ` set rs"
  by (auto simp: resolveStackedLayout_def Let_def fst_line_up image_Un image_iff)

lemma essence_pos [simp]:
  "essence (d\<lparr>pos_x := x, pos_y := y\<rparr>) = essence d"
  "essence (d\<lparr>pos_x := x, pos_y := y, rotation := r\<rparr>) = essence d"
  by (simp_all add: essence_def)

lemma same_displays_rotation: "same_displays m (performRotationLocked env r m)"
proof (cases "pixelFold env")
  case True
  let ?home = "\<lambda>d. d\<lparr>pos_x := 0, pos_y := 0, rotation := r\<rparr>"
  have 1: "same_displays m (modify env 0 ?home m)" by (rule same_displays_modify) auto
  have "same_displays (modify env 0 ?home m)
      (modify env (secondDisplayId env) ?home (modify env 0 ?home m))"
    if "map_of m (secondDisplayId env) \<noteq> None"
    using that by (intro same_displays_modify) (auto simp: modify_def map_of_eq_None_iff)
  with 1 True show ?thesis
    by (auto simp: performRotationLocked_def Let_def intro: same_displays_trans)
next
  case False
  then show ?thesis
    by (auto simp: performRotationLocked_def Let_def intro!: same_displays_essences)
qed

lemma same_displays_stacked: "same_displays m (recomputeStackedLayoutLocked env m)"
proof -
  let ?ps = "resolveStackedLayout (map (\<lambda>(i, d). (i, width d, height d)) (filter shown m))
    (getDisplayType env)"
  have "fst ` set ?ps \<subseteq> fst ` set m"
    by (auto simp: fst_resolveStackedLayout image_iff) (metis fst_conv)
  then have "i = 0 \<or> i \<in> fst ` set m" if "(i, x, y) \<in> set ?ps" for i x y
    using that by force
  then have "same_displays m
      (fold (\<lambda>(i, x, y). modify env i ((\<lambda>(x, y) d. d\<lparr>pos_x := x, pos_y := y\<rparr>) (x, y))) ?ps m)"
    by (rule same_displays_fold_modify) auto
  then show ?thesis by (simp add: recomputeStackedLayoutLocked_def)
qed

lemma same_displays_relayout: "same_displays m (recomputeLayoutLocked env m)"
  using same_displays_rotation same_displays_stacked same_displays_trans
  by (simp add: recomputeLayoutLocked_def Let_def) blast

lemma same_displays_combined: "same_displays m (snd (snd (getCombinedDisplaySizeLocked env m)))"
  by (auto simp: getCombinedDisplaySizeLocked_def Let_def case_prod_beta map_of_eq_None_iff
      intro!: same_displays_modify)

section \<open>Lemmas: displays in a row\<close>

definition total_width :: "displays \<Rightarrow> nat" where
  "total_width m = sum_list (map (\<lambda>e. unat (originalWidth (snd e))) m)"

lemma total_width_simps [simp]:
  "total_width [] = 0" "total_width (e # m) = unat (originalWidth (snd e)) + total_width m"
  by (simp_all add: total_width_def)

lemma unat_add_below: "unat a + unat b < 2 ^ 32 \<Longrightarrow> unat (a + b :: u32) = unat a + unat b"
  by (simp add: unat_word_ariths)

lemma place_row_bounds:
  assumes "(i, d) \<in> set (place_row r a m)" and "unat a + total_width m < 2 ^ 32"
  shows "unat a \<le> unat (pos_x d) \<and> unat (pos_x d) + unat (width d) \<le> unat a + total_width m"
  using assms
proof (induction m arbitrary: a)
  case Nil
  then show ?case by simp
next
  case (Cons e m)
  obtain j f where e: "e = (j, f)" by fastforce
  have s: "unat (a + originalWidth f) = unat a + unat (originalWidth f)"
    using Cons.prems(2) e by (intro unat_add_below) simp
  show ?case
  proof (cases "(i, d) \<in> set (place_row r (a + originalWidth f) m)")
    case True
    from Cons.IH [OF this] Cons.prems(2) e s show ?thesis by simp
  next
    case False
    with Cons.prems e show ?thesis by auto
  qed
qed

lemma place_row_sorted:
  assumes "unat a + total_width m < 2 ^ 32"
  shows "sorted_wrt (\<lambda>d e. unat (pos_x d) + unat (width d) \<le> unat (pos_x e))
           (map snd (place_row r a m))"
  using assms
proof (induction m arbitrary: a)
  case Nil
  then show ?case by simp
next
  case (Cons e m)
  obtain j f where e: "e = (j, f)" by fastforce
  have s: "unat (a + originalWidth f) = unat a + unat (originalWidth f)"
    using Cons.prems e by (intro unat_add_below) simp
  then have tail: "unat (a + originalWidth f) + total_width m < 2 ^ 32" using Cons.prems e by simp
  have "unat a + unat (originalWidth f) \<le> unat (pos_x d)"
    if "d \<in> snd ` set (place_row r (a + originalWidth f) m)" for d
    using that place_row_bounds [OF _ tail] s by fastforce
  with Cons.IH [OF tail] e show ?case by simp
qed

text \<open>A point of one display misses every display to its left.\<close>

lemma hit_0_place_row:
  assumes "(i, d) \<in> set (place_row r a m)" and "shown (i, d)"
    and "unat a + total_width m < 2 ^ 32" and "lx < width d" and "ly < height d"
  shows "hit_0 totalH (pos_x d + lx) (totalH - height d + ly) (place_row r a m) = Some (lx, ly, i)"
  using assms
proof (induction m arbitrary: a)
  case Nil
  then show ?case by simp
next
  case (Cons e m)
  obtain j f where e: "e = (j, f)" by fastforce
  let ?a = "a + originalWidth f"
  let ?f = "f\<lparr>width := originalWidth f, height := originalHeight f, pos_x := a, pos_y := 0,
    rotation := r\<rparr>"
  have s: "unat ?a = unat a + unat (originalWidth f)"
    using Cons.prems(3) e by (intro unat_add_below) simp
  then have tail: "unat ?a + total_width m < 2 ^ 32" using Cons.prems(3) e by simp
  show ?case
  proof (cases "(i, d) = (j, ?f)")
    case True
    with Cons.prems e show ?thesis by auto
  next
    case False
    with Cons.prems(1) e have in_tail: "(i, d) \<in> set (place_row r ?a m)" by auto
    have b: "unat ?a \<le> unat (pos_x d)" "unat (pos_x d) + unat (width d) \<le> unat ?a + total_width m"
      using place_row_bounds [OF in_tail tail] by auto
    have "unat (pos_x d + lx) = unat (pos_x d) + unat lx"
      using b tail Cons.prems(4) by (intro unat_add_below) (simp add: word_less_nat_alt)
    then have "\<not> pos_x d + lx - a < originalWidth f"
      using b s by (simp add: word_less_nat_alt unat_sub_if_size word_size)
    with Cons.IH [OF in_tail Cons.prems(2) tail Cons.prems(4,5)] e show ?thesis
      by (simp add: Let_def)
  qed
qed

lemma place_row_pos_y: "(i, d) \<in> set (place_row r a m) \<Longrightarrow> pos_y d = 0"
  by (induction m arbitrary: a) auto

section \<open>A concrete configuration\<close>

text \<open>A phone with the feature on and its guest service connected.\<close>

definition plain_info :: "i32 \<Rightarrow> i32 \<Rightarrow> u32 \<Rightarrow> u32 \<Rightarrow> u32 \<Rightarrow> u32 \<Rightarrow> bool \<Rightarrow> u32 \<Rightarrow> info" where
  "plain_info x y w h dp fl en c =
     \<lparr>pos_x = x, pos_y = y, width = w, height = h, originalWidth = w, originalHeight = h, dpi = dp,
      flag = fl, enabled = en, cb = c, rotation = 0, colorTransform = []\<rparr>"

definition phone_env :: menv where
  "phone_env =
     \<lparr>s_maxNumMultiDisplay = 11, s_invalidIdMultiDisplay = 0xFFFFFFAB, s_displayIdInternalBegin = 6,
      newInfo = plain_info 0 0 0 0 0 0 True 0, makeInfo = plain_info, multiDisplayFeature = True,
      anyFoldedArea = False, resizable = False, avdPresent = True, avdFlavor = AVD_OTHER,
      apiLevel = 34, desktopApi36 = False, layoutOrientation = None, minigbmFeature = False,
      hotplugOption = False, hwHotplug = False, pixelFold = False, folded = False,
      secondDisplayId = 6, grpcUi = False, multiDisplayWindow = False, automotive = False,
      distantDisplayProp = False, carMultiDisplayProp = False, adbAvailable = True, pipeUp = True,
      recordingDisplay = None\<rparr>"

section \<open>Properties\<close>

text \<open>
  In the upright orientation displays stand side by side in the order of their ids without
  overlap, and touch input finds its way: every point of every shown display, given in window
  coordinates, is translated to that display and to the coordinates of the point on it. This
  holds as long as the widths together stay below the range of the 32-bit coordinates.
\<close>

theorem upright_layout_translates:
  assumes "\<not> pixelFold env" and "current_rotation env = SKIN_ROTATION_0"
    and "total_width m < 2 ^ 32"
    and "m' = performRotationLocked env SKIN_ROTATION_0 m"
    and "(i, d) \<in> set m'" and "shown (i, d)" and "lx < width d" and "ly < height d"
    and "(w, h, m'') = getCombinedDisplaySizeLocked env m'"
  shows "sorted_wrt (\<lambda>d e. unat (pos_x d) + unat (width d) \<le> unat (pos_x e)) (map snd m') \<and>
         translateCoordination env False m' (pos_x d + lx) (h - height d - pos_y d + ly) =
           Some (lx, ly, i)"
proof -
  have m': "m' = place_row SKIN_ROTATION_0 0 m"
    using assms(1,4)
    by (simp add: performRotationLocked_def SKIN_ROTATION_0_def SKIN_ROTATION_90_def
        SKIN_ROTATION_270_def)
  have "translateCoordination env False m' (pos_x d + lx) (h - height d - pos_y d + ly) =
      hit_0 h (pos_x d + lx) (h - height d + ly) m'"
    using assms(1,2,5,9) m' place_row_pos_y
    by (auto simp: translateCoordination_def SKIN_ROTATION_0_def SKIN_ROTATION_90_def
        SKIN_ROTATION_180_def SKIN_ROTATION_270_def Let_def split: prod.split)
  then show ?thesis
    using place_row_sorted [of 0 m] hit_0_place_row [of i d SKIN_ROTATION_0 0 m] assms(3,5-8) m'
    by simp
qed



end
