(* ===== verification/Multi_Display.thy ===== *)
theory Multi_Display
  imports Display_Layout Text_Util Display_Agent
begin

text \<open>
  \<^verbatim>\<open>android/emulation/MultiDisplay.cpp\<close>: creating, placing, removing and listing the displays of
  the emulator. The object is the record \<open>md\<close>; calls on the window, the recorder, the VM, the
  guest pipe and the event listeners are effects, returned in order with the new state. Errors are
  the negative numbers the code returns.
\<close>

section \<open>State and effects\<close>

record md =
  guestMode :: bool
  displays :: displays

datatype DisplayChange =
  DisplayAdded | DisplayRemoved | DisplayChanged | DisplayTransactionCompleted

datatype meff =
    Show_message string
  | Vm_set_display u32 u32 u32 u32
  | Pipe_send u32 u32 u32 u32 u32 bool
  | Adb_broadcast bool
  | Fire DisplayChange u32
  | Stop_recording
  | Window u32 bool u32 u32
  | Ui_region u32 u32
  | Restore_skin
  | No_skin
  | Update_page u32
  | Color_buffer_changed u32 u32

section \<open>Queries\<close>

definition isDisplayPipeReady :: "menv \<Rightarrow> bool" where
  "isDisplayPipeReady env = pipeUp env"

definition hotPlugDisplayEnabled :: "menv \<Rightarrow> bool" where
  "hotPlugDisplayEnabled env \<longleftrightarrow> minigbmFeature env \<and> (hotplugOption env \<or> hwHotplug env)"

text \<open>
  The first component is the returned flag, the second what the pointers receive: position,
  original size, density, flags and whether it is enabled. Without an entry only
  \<^verbatim>\<open>enabled\<close> is written.
\<close>

definition getMultiDisplay ::
  "u32 \<Rightarrow> md \<Rightarrow> bool \<times> (i32 \<times> i32 \<times> u32 \<times> u32 \<times> u32 \<times> u32 \<times> bool) option" where
  "getMultiDisplay i s =
     (case map_of (displays s) i of
        None \<Rightarrow> (False, None)
      | Some d \<Rightarrow>
          (enabled d,
           Some (pos_x d, pos_y d, originalWidth d, originalHeight d, dpi d, flag d, enabled d)))"

fun lower_bound :: "u32 \<Rightarrow> displays \<Rightarrow> (u32 \<times> info) option" where
  "lower_bound key [] = None"
| "lower_bound key (e # m) = (if key \<le> fst e then Some e else lower_bound key m)"

definition getNextMultiDisplay ::
  "i32 \<Rightarrow> md \<Rightarrow> (u32 \<times> i32 \<times> i32 \<times> u32 \<times> u32 \<times> u32 \<times> u32 \<times> u32) option" where
  "getNextMultiDisplay start_id s =
     (let key = (if sint start_id < 0 then 0 else start_id + 1) in
      case lower_bound key (displays s) of
        None \<Rightarrow> None
      | Some (i, d) \<Rightarrow>
          Some (i, pos_x d, pos_y d, originalWidth d, originalHeight d, dpi d, flag d, cb d))"

definition getDisplayPose :: "u32 \<Rightarrow> md \<Rightarrow> int + (i32 \<times> i32 \<times> u32 \<times> u32)" where
  "getDisplayPose i s =
     (if guestMode s then Inl (- ENOSYS)
      else
        case map_of (displays s) i of
          None \<Rightarrow> Inl (- EINVAL)
        | Some d \<Rightarrow> Inr (pos_x d, pos_y d, width d, height d))"

definition getDisplayColorBuffer :: "u32 \<Rightarrow> md \<Rightarrow> int + u32" where
  "getDisplayColorBuffer i s =
     (if guestMode s then Inl (- ENOSYS)
      else case map_of (displays s) i of None \<Rightarrow> Inl (- EINVAL) | Some d \<Rightarrow> Inr (cb d))"

definition getColorBufferDisplay :: "u32 \<Rightarrow> md \<Rightarrow> int + u32" where
  "getColorBufferDisplay colorBuffer s =
     (if guestMode s then Inl (- ENOSYS)
      else
        case find (\<lambda>e. cb (snd e) = colorBuffer) (displays s) of
          None \<Rightarrow> Inl (- EINVAL)
        | Some e \<Rightarrow> Inr (fst e))"

definition getColorTransformMatrix :: "u32 \<Rightarrow> md \<Rightarrow> int + u32 list" where
  "getColorTransformMatrix i s =
     (if guestMode s then Inl (-1)
      else
        case map_of (displays s) i of
          None \<Rightarrow> Inl (-1)
        | Some d \<Rightarrow> Inr (take 16 (colorTransform d)))"

section \<open>Validation\<close>

definition multiDisplayParamError :: "menv \<Rightarrow> u32 \<Rightarrow> u32 \<Rightarrow> u32 \<Rightarrow> u32 \<Rightarrow> string option" where
  "multiDisplayParamError env i w h d =
     (if d < 120 \<or> d > 640 then Some ''dpi should be between 120 and 640''
      else if w < 320 * d div 160 \<or> h < 320 * d div 160
      then Some ''width and height should be >= 320dp''
      else if \<not> (w \<le> 7680 \<and> h \<le> 4320 \<or> w \<le> 4320 \<and> h \<le> 7680)
      then Some ''resolution should not exceed 8k (7680*4320)''
      else if i > s_maxNumMultiDisplay env
      then Some (''Display index cannot be more than '' @ decimal (unat (s_maxNumMultiDisplay env)))
      else None)"

definition multiDisplayParamValidate ::
  "menv \<Rightarrow> u32 \<Rightarrow> u32 \<Rightarrow> u32 \<Rightarrow> u32 \<Rightarrow> bool \<times> meff list" where
  "multiDisplayParamValidate env i w h d =
     (case multiDisplayParamError env i w h d of
        None \<Rightarrow> (True, [])
      | Some msg \<Rightarrow> (False, [Show_message msg]))"

section \<open>Creating and removing\<close>

definition setGpuMode :: "menv \<Rightarrow> bool \<Rightarrow> u32 \<Rightarrow> u32 \<Rightarrow> md \<Rightarrow> md" where
  "setGpuMode env isGuest w h s =
     (let s1 = s\<lparr>guestMode := isGuest\<rparr> in
      if isGuest \<and> map_of (displays s) 0 = None
      then s1\<lparr>displays := omap_put 0 (makeInfo env 0 0 w h 0 0 True 0) (displays s)\<rparr>
      else s1)"

definition notifyDisplayChanges :: "meff list" where
  "notifyDisplayChanges = [Fire DisplayTransactionCompleted 0]"

text \<open>The id of a display the guest creates itself: the first free one of the internal range.\<close>

definition internal_id :: "menv \<Rightarrow> displays \<Rightarrow> u32" where
  "internal_id env m =
     (case find (\<lambda>i. map_of m (of_nat i) = None)
             [unat (s_displayIdInternalBegin env)..<unat (s_maxNumMultiDisplay env)] of
        Some i \<Rightarrow> of_nat i
      | None \<Rightarrow> s_invalidIdMultiDisplay env)"

text \<open>Result, the id as the pointer holds it on return, the state and the effects.\<close>

definition createDisplay :: "menv \<Rightarrow> u32 \<Rightarrow> md \<Rightarrow> int \<times> u32 \<times> md \<times> meff list" where
  "createDisplay env displayId s =
     (if guestMode s then (- ENOSYS, displayId, s, [])
      else if length (displays s) > unat (s_maxNumMultiDisplay env)
      then (- EINVAL, displayId, s, [])
      else if map_of (displays s) displayId \<noteq> None then (0, displayId, s, [])
      else
        let i = (if displayId = s_invalidIdMultiDisplay env then internal_id env (displays s)
                 else displayId) in
        if i = s_invalidIdMultiDisplay env then (- EINVAL, i, s, [])
        else
          (0, i, s\<lparr>displays := omap_put i (newInfo env) (displays s)\<rparr>,
           Fire DisplayAdded i # notifyDisplayChanges))"

definition stop_if_recording :: "menv \<Rightarrow> u32 \<Rightarrow> meff list" where
  "stop_if_recording env i = (if recordingDisplay env = Some i then [Stop_recording] else [])"

definition destroyDisplay :: "menv \<Rightarrow> u32 \<Rightarrow> md \<Rightarrow> int \<times> md \<times> meff list" where
  "destroyDisplay env i s =
     (if guestMode s then (- ENOSYS, s, [])
      else
        case map_of (displays s) i of
          None \<Rightarrow> (0, s, [])
        | Some d \<Rightarrow>
            let needUIUpdate = (cb d \<noteq> 0);
                m1 = omap_erase i (displays s);
                relayout = (needUIUpdate \<and> \<not> multiDisplayWindow env);
                m2 = (if relayout then recomputeLayoutLocked env m1 else m1);
                (w, h, m3) = (if relayout then getCombinedDisplaySizeLocked env m2 else (0, 0, m2));
                restoreSkin = (relayout \<and> getNumberActiveMultiDisplaysLocked m3 = 1) in
            (0, s\<lparr>displays := m3\<rparr>,
             (if needUIUpdate then
                stop_if_recording env i @
                (if multiDisplayWindow env then [Window i False 0 0] else [Ui_region w h]) @
                (if restoreSkin then [Restore_skin] else [])
              else []) @
             [Fire DisplayRemoved i]))"

definition setDisplayPose ::
  "menv \<Rightarrow> u32 \<Rightarrow> i32 \<Rightarrow> i32 \<Rightarrow> u32 \<Rightarrow> u32 \<Rightarrow> u32 \<Rightarrow> u32 \<Rightarrow> md \<Rightarrow> int \<times> md \<times> meff list" where
  "setDisplayPose env i x y w h dp fl s =
     (if guestMode s then (- ENOSYS, s, [])
      else
        case map_of (displays s) i of
          None \<Rightarrow> (- EINVAL, s, [])
        | Some d \<Rightarrow>
            let sizeChanged = (width d \<noteq> w \<or> height d \<noteq> h);
                checkRecording = (cb d \<noteq> 0 \<and> sizeChanged);
                m1 = omap_put i (d\<lparr>width := w, height := h, originalWidth := w,
                       originalHeight := h, dpi := dp, flag := fl, pos_x := x, pos_y := y,
                       rotation := current_rotation env\<rparr>)
                       (displays s);
                relayout = (cb d \<noteq> 0 \<and> \<not> multiDisplayWindow env);
                m2 = (if relayout \<and> x = -1 \<and> y = -1 then recomputeLayoutLocked env m1 else m1);
                (cw, ch, m3) = (if relayout then getCombinedDisplaySizeLocked env m2 else (0, 0, m2));
                uiUpdate = (cb d \<noteq> 0 \<and> \<not> pixelFold env \<and> i > 0 \<and> sizeChanged) in
            (0, s\<lparr>displays := m3\<rparr>,
             (if checkRecording then stop_if_recording env i else []) @
             (if uiUpdate then
                (if multiDisplayWindow env then [Window i True w h] else [Ui_region cw ch])
              else []) @
             [Fire DisplayChanged i]))"

definition setColorTransformMatrix :: "menv \<Rightarrow> u32 \<Rightarrow> u32 list \<Rightarrow> md \<Rightarrow> int \<times> md" where
  "setColorTransformMatrix env i matrix s =
     (if guestMode s then (-1, s)
      else
        case map_of (displays s) i of
          None \<Rightarrow> (-1, s)
        | Some d \<Rightarrow>
            (0, s\<lparr>displays := omap_put i (d\<lparr>colorTransform := take 16 matrix\<rparr>) (displays s)\<rparr>))"

definition setDisplayColorBuffer :: "menv \<Rightarrow> u32 \<Rightarrow> u32 \<Rightarrow> md \<Rightarrow> int \<times> md \<times> meff list" where
  "setDisplayColorBuffer env i colorBuffer s =
     (if guestMode s then (- ENOSYS, s, [])
      else
        case map_of (displays s) i of
          None \<Rightarrow> (- EINVAL, s, [])
        | Some d \<Rightarrow>
            if cb d = colorBuffer then (0, s, [])
            else
              let first = (cb d = 0);
                  m1 = omap_put i (d\<lparr>cb := colorBuffer\<rparr>) (displays s);
                  relayout = (first \<and> \<not> multiDisplayWindow env);
                  m2 = (if relayout then recomputeLayoutLocked env m1 else m1);
                  (w, h, m3) =
                    (if relayout then getCombinedDisplaySizeLocked env m2
                     else (width d, height d, m2));
                  noSkin = (relayout \<and> getNumberActiveMultiDisplaysLocked m3 = 2);
                  needUpdate = (\<not> pixelFold env \<and> i > 0 \<and> first);
                  m4 = modify env i (\<lambda>d. d\<lparr>cb := colorBuffer\<rparr>) m3 in
              (0, s\<lparr>displays := m4\<rparr>,
               (if noSkin then [No_skin] else []) @
               (if needUpdate then
                  (if multiDisplayWindow env then [Window i True w h] else [Ui_region w h]) @
                  [Fire DisplayChanged i]
                else []) @
               [Color_buffer_changed i colorBuffer]))"

definition performRotation :: "menv \<Rightarrow> int \<Rightarrow> md \<Rightarrow> md" where
  "performRotation env r s = s\<lparr>displays := performRotationLocked env r (displays s)\<rparr>"

definition getCombinedDisplaySize :: "menv \<Rightarrow> md \<Rightarrow> u32 \<times> u32 \<times> md" where
  "getCombinedDisplaySize env s =
     (let (w, h, m) = getCombinedDisplaySizeLocked env (displays s) in (w, h, s\<lparr>displays := m\<rparr>))"

section \<open>The operation the control plane calls\<close>

definition DEFAULT_FLAGS_DESKTOP :: u32 where
  "DEFAULT_FLAGS_DESKTOP = 1 OR 1024 OR 131072 OR 64 OR 2"

definition DEFAULT_FLAGS_SINCE_S :: u32 where
  "DEFAULT_FLAGS_SINCE_S = 1 OR 8 OR 128 OR 1024 OR 64 OR 512 OR 2"

definition default_flags :: "menv \<Rightarrow> u32 \<Rightarrow> u32 \<Rightarrow> u32" where
  "default_flags env i fl =
     (if fl = 0 \<and> avdPresent env then
        if avdFlavor env = AVD_ANDROID_AUTO then getDefaultFlagsForDisplay i
        else if desktopApi36 env then DEFAULT_FLAGS_DESKTOP
        else if apiLevel env \<ge> 31 then DEFAULT_FLAGS_SINCE_S
        else fl
      else fl)"

definition startDisplayPipe :: "menv \<Rightarrow> bool \<times> meff list" where
  "startDisplayPipe env =
     (if \<not> adbAvailable env then (False, [])
      else
        (True, [Adb_broadcast (avdPresent env \<and> avdFlavor env = AVD_ANDROID_AUTO \<and>
                               apiLevel env \<le> 33)]))"

text \<open>
  \<open>send_to_guest\<close> is the tail of the non-hotplug path: restart the guest service if its
  pipe is gone, then send the change through the pipe, which fails without one.
\<close>

definition send_to_guest :: "menv \<Rightarrow> u32 \<Rightarrow> u32 \<Rightarrow> u32 \<Rightarrow> u32 \<Rightarrow> u32 \<Rightarrow> bool \<Rightarrow> int \<times> meff list" where
  "send_to_guest env i w h dp fl add =
     (if \<not> isDisplayPipeReady env then (- EPIPE, snd (startDisplayPipe env))
      else (0, [Pipe_send i w h dp fl add]))"

definition setMultiDisplay ::
  "menv \<Rightarrow> u32 \<Rightarrow> i32 \<Rightarrow> i32 \<Rightarrow> u32 \<Rightarrow> u32 \<Rightarrow> u32 \<Rightarrow> u32 \<Rightarrow> bool \<Rightarrow> md \<Rightarrow> int \<times> md \<times> meff list" where
  "setMultiDisplay env i x y w h dp fl add s =
     (if \<not> multiDisplayFeature env then (- ENODEV, s, [])
      else if anyFoldedArea env then (- ENOSYS, s, [])
      else if resizable env then (- ENOSYS, s, [])
      else if avdFlavor env = AVD_TV \<or> avdFlavor env = AVD_WEAR then (- ENOSYS, s, [])
      else if guestMode s then (- ENOSYS, s, [])
      else if add \<and> \<not> fst (multiDisplayParamValidate env i w h dp)
      then (- EINVAL, s, snd (multiDisplayParamValidate env i w h dp))
      else if current_rotation env \<noteq> SKIN_ROTATION_0
      then (- EINVAL, s, [Show_message ''Please apply multiple displays without rotation''])
      else
        let fl' = default_flags env i fl in
        if hotPlugDisplayEnabled env then
          (0, s, [if add then Vm_set_display i w h dp else Vm_set_display i 0 0 0])
        else if add then
          let (ret, i', s1, e1) = createDisplay env i s in
          if ret \<noteq> 0 then (ret, s1, e1)
          else
            let (ret2, s2, e2) = setDisplayPose env i' x y w h dp fl' s1 in
            if ret2 \<noteq> 0 then (ret2, s2, e1 @ e2)
            else
              let (ret3, e3) = send_to_guest env i' w h dp fl' add in
              (ret3, s2, e1 @ e2 @ e3)
        else
          let (ret, s1, e1) = destroyDisplay env i s in
          if ret \<noteq> 0 then (ret, s1, e1)
          else
            let (ret3, e3) = send_to_guest env i w h dp fl' add in
            (ret3, s1, e1 @ e3))"

section \<open>Configuration\<close>

text \<open>
  The option \<^verbatim>\<open>-multidisplay\<close>: numbers in groups of five. \<open>None\<close> is a number that
  \<^verbatim>\<open>std::stoi\<close> rejects with an exception; an invalid group makes the whole configuration
  empty. Of the entries built here only size, density and flags are read later.
\<close>

fun parse_numbers :: "string list \<Rightarrow> u32 list option" where
  "parse_numbers [] = Some []"
| "parse_numbers (p # ps) =
     (case stoi p of
        None \<Rightarrow> None
      | Some v \<Rightarrow> (case parse_numbers ps of None \<Rightarrow> None | Some vs \<Rightarrow> Some (of_int v # vs)))"

fun config_groups :: "menv \<Rightarrow> u32 list \<Rightarrow> displays \<Rightarrow> displays \<times> meff list" where
  "config_groups env (i # w # h # dp # fl # ps) ret =
     (if i = 0 \<or> i > 3 then ([], [])
      else if \<not> fst (multiDisplayParamValidate env i w h dp)
      then ([], snd (multiDisplayParamValidate env i w h dp))
      else
        config_groups env ps
          (if map_of ret i = None then omap_put i (makeInfo env (-1) (-1) w h dp fl True 0) ret
           else ret))"
| "config_groups env ps ret = (ret, [])"

definition parseConfig :: "menv \<Rightarrow> string option \<Rightarrow> (displays \<times> meff list) option" where
  "parseConfig env multidisplay =
     (case multidisplay of
        None \<Rightarrow> Some ([], [])
      | Some s \<Rightarrow>
          (case parse_numbers (split_at (CHR '','') s) of
             None \<Rightarrow> None
           | Some params \<Rightarrow>
               if length params < 5 \<or> length params mod 5 \<noteq> 0 then Some ([], [])
               else Some (config_groups env params [])))"

text \<open>
  The displays of the hardware configuration, with ids 1, 2 and 3: size, offset, density and
  flags.
\<close>

type_synonym hw_display = "u32 \<times> u32 \<times> i32 \<times> i32 \<times> u32 \<times> u32"

fun add_hw_displays :: "menv \<Rightarrow> u32 \<Rightarrow> hw_display list \<Rightarrow> md \<Rightarrow> md \<times> meff list" where
  "add_hw_displays env i [] s = (s, [])"
| "add_hw_displays env i ((w, h, x, y, dp, fl) # hs) s =
     (if w \<noteq> 0 \<and> h \<noteq> 0 then
        let (ret, s1, e1) = setMultiDisplay env i x y w h dp fl True s;
            (s2, e2) = add_hw_displays env (i + 1) hs s1 in
        (s2, e1 @ Update_page i # e2)
      else add_hw_displays env (i + 1) hs s)"

fun add_config_displays :: "menv \<Rightarrow> displays \<Rightarrow> md \<Rightarrow> md \<times> meff list" where
  "add_config_displays env [] s = (s, [])"
| "add_config_displays env ((i, d) # m) s =
     (let (ret, s1, e1) =
            setMultiDisplay env i (-1) (-1) (width d) (height d) (dpi d) (flag d) True s;
          (s2, e2) = add_config_displays env m s1 in
      (s2, e1 @ Update_page i # e2))"

definition loadConfig ::
  "menv \<Rightarrow> string option \<Rightarrow> hw_display list \<Rightarrow> md \<Rightarrow> (md \<times> meff list) option" where
  "loadConfig env multidisplay hw s =
     (if \<not> multiDisplayFeature env \<or> anyFoldedArea env \<or> guestMode s then Some (s, [])
      else
        case parseConfig env multidisplay of
          None \<Rightarrow> None
        | Some (m, e0) \<Rightarrow>
            let (s1, e1) = (if m \<noteq> [] then add_config_displays env m s
                            else add_hw_displays env 1 hw s) in
            Some (s1, e0 @ e1))"

section \<open>Snapshots\<close>

text \<open>
  Each display is nine fields, the numbers big-endian. The framing of the collection belongs to the
  stream library; a snapshot is the list of its elements, whose ids are distinct.
\<close>

definition be32 :: "u32 \<Rightarrow> bytes" where
  "be32 w = rev (le_bytes 4 w)"

definition be32_at :: "nat \<Rightarrow> bytes \<Rightarrow> u32" where
  "be32_at i bs = le_word (rev (take 4 (drop (4 * i) bs)))"

definition save_display :: "u32 \<times> info \<Rightarrow> bytes" where
  "save_display e =
     concat (map be32 [fst e, pos_x (snd e), pos_y (snd e), width (snd e), height (snd e),
       dpi (snd e), flag (snd e), cb (snd e)]) @ [if enabled (snd e) then 1 else 0]"

definition load_display :: "menv \<Rightarrow> bytes \<Rightarrow> u32 \<times> info" where
  "load_display env bs =
     (be32_at 0 bs,
      makeInfo env (be32_at 1 bs) (be32_at 2 bs) (be32_at 3 bs) (be32_at 4 bs) (be32_at 5 bs)
        (be32_at 6 bs) (bs ! 32 \<noteq> 0) (be32_at 7 bs))"

definition onSave :: "md \<Rightarrow> bytes list" where
  "onSave s = map save_display (displays s)"

fun load_displays :: "menv \<Rightarrow> bytes list \<Rightarrow> displays \<Rightarrow> displays" where
  "load_displays env [] m = m"
| "load_displays env (bs # bss) m =
     (let (i, d) = load_display env bs in
      load_displays env bss (if map_of m i = None then omap_put i d m else m))"

definition windows :: "bool \<Rightarrow> displays \<Rightarrow> meff list" where
  "windows shownFlag m =
     map (\<lambda>(i, d). if shownFlag then Window i True (width d) (height d) else Window i False 0 0)
       (filter (\<lambda>e. cb (snd e) > 0) m)"

definition onLoad :: "menv \<Rightarrow> bytes list \<Rightarrow> md \<Rightarrow> md \<times> meff list" where
  "onLoad env snapshot s =
     (let loaded = load_displays env snapshot [];
          ids = sorted_list_of_set (fst ` set (displays s) \<union> fst ` set loaded);
          activeBefore = getNumberActiveMultiDisplaysLocked (displays s) > 1;
          e1 = (if activeBefore \<and> multiDisplayWindow env then windows False (displays s) else []);
          activeAfter = getNumberActiveMultiDisplaysLocked loaded > 1;
          e2 = (if activeAfter \<and> multiDisplayWindow env then windows True loaded else []);
          (w, h, m) = getCombinedDisplaySizeLocked env loaded;
          e3 = (if \<not> multiDisplayWindow env \<and> \<not> pixelFold env then
                  if activeAfter then (if \<not> activeBefore then [No_skin] else []) @ [Ui_region w h]
                  else if activeBefore then [Ui_region w h, Restore_skin]
                  else []
                else []);
          e4 = concat (map (\<lambda>i. [Update_page i, Fire DisplayChanged i]) ids);
          e5 = (if ids \<noteq> [] then notifyDisplayChanges else []) in
      (s\<lparr>displays := m\<rparr>, e1 @ e2 @ e3 @ e4 @ e5))"

section \<open>The agent table\<close>

text \<open>
  Every entry forwards to the one instance, if there is one. The state behind the agent is that
  instance and the effects so far. The entry \<^verbatim>\<open>getMultiDisplay\<close> calls the overload without a
  color buffer pointer; the function never writes through that pointer.
\<close>

type_synonym agent_state = "md option \<times> meff list"

definition agent_getMultiDisplay ::
  "u32 \<Rightarrow> agent_state \<Rightarrow> bool \<times> (i32 \<times> i32 \<times> u32 \<times> u32 \<times> u32 \<times> u32 \<times> bool) option" where
  "agent_getMultiDisplay i st =
     (case fst st of None \<Rightarrow> (False, None) | Some s \<Rightarrow> getMultiDisplay i s)"

definition agent_setMultiDisplay ::
  "menv \<Rightarrow> u32 \<Rightarrow> i32 \<Rightarrow> i32 \<Rightarrow> u32 \<Rightarrow> u32 \<Rightarrow> u32 \<Rightarrow> u32 \<Rightarrow> bool \<Rightarrow> agent_state \<Rightarrow> int \<times> agent_state"
where
  "agent_setMultiDisplay env i x y w h dp fl add st =
     (case fst st of
        None \<Rightarrow> (-1, st)
      | Some s \<Rightarrow>
          let (ret, s', e) = setMultiDisplay env i x y w h dp fl add s in
          (ret, (Some s', snd st @ e)))"

definition agent_getNextMultiDisplay ::
  "i32 \<Rightarrow> agent_state \<Rightarrow> (u32 \<times> i32 \<times> i32 \<times> u32 \<times> u32 \<times> u32 \<times> u32 \<times> u32) option" where
  "agent_getNextMultiDisplay start_id st =
     (case fst st of None \<Rightarrow> None | Some s \<Rightarrow> getNextMultiDisplay start_id s)"

definition md_agent :: "menv \<Rightarrow> agent_state agent" where
  "md_agent env =
     \<lparr>agentGet = agent_getMultiDisplay, agentSet = agent_setMultiDisplay env,
      agentNext = agent_getNextMultiDisplay\<rparr>"

section \<open>Lemmas\<close>

definition view_of :: "info \<Rightarrow> view" where
  "view_of d = (originalWidth d, originalHeight d, dpi d, flag d)"

definition md_listing :: "md \<Rightarrow> (u32 \<times> view) list" where
  "md_listing s = map (\<lambda>(i, d). (i, view_of d)) (displays s)"

definition md_active :: "md \<Rightarrow> u32 \<Rightarrow> bool" where
  "md_active s i = (case map_of (displays s) i of None \<Rightarrow> False | Some d \<Rightarrow> enabled d)"

lemma map_of_md_listing: "map_of (md_listing s) i = map_option view_of (map_of (displays s) i)"
proof -
  have "map_of (map (\<lambda>(i, d). (i, view_of d)) m) i = map_option view_of (map_of m i)" for m
    by (induction m) auto
  then show ?thesis by (simp add: md_listing_def)
qed

lemma view_ess:
  "ess (displays s) i = ess (displays s') i \<Longrightarrow>
     map_of (md_listing s) i = map_of (md_listing s') i \<and> md_active s i = md_active s' i"
  by (cases "map_of (displays s) i"; cases "map_of (displays s') i")
    (auto simp: map_of_md_listing md_active_def ess_def essence_def view_of_def)

lemma destroy_displays:
  assumes "destroyDisplay env i s = (ret, s', e)"
  shows "guestMode s' = guestMode s \<and>
         (ret = 0 \<and> same_displays (omap_erase i (displays s)) (displays s') \<or>
          ret = - ENOSYS \<and> s' = s \<and> guestMode s)"
proof (cases "guestMode s \<or> map_of (displays s) i = None")
  case True
  moreover have "omap_erase i (displays s) = displays s" if "map_of (displays s) i = None"
    using that by (simp add: map_of_eq_None_iff)
  ultimately show ?thesis
    using assms by (cases "guestMode s") (auto simp: destroyDisplay_def)
next
  case False
  let ?m1 = "omap_erase i (displays s)"
  have "same_displays ?m1 (snd (snd (getCombinedDisplaySizeLocked env (recomputeLayoutLocked env ?m1))))"
    by (rule same_displays_trans [OF same_displays_relayout same_displays_combined])
  with False assms show ?thesis
    by (auto simp: destroyDisplay_def Let_def case_prod_beta split: if_splits)
qed

lemma pose_displays:
  assumes "setDisplayPose env i x y w h dp fl s = (ret, s', e)"
  shows "guestMode s' = guestMode s \<and>
         ((\<exists>d d'. ret = 0 \<and> map_of (displays s) i = Some d \<and> view_of d' = (w, h, dp, fl) \<and>
            enabled d' = enabled d \<and> same_displays (omap_put i d' (displays s)) (displays s')) \<or>
          ret < 0 \<and> s' = s)"
proof (cases "guestMode s \<or> map_of (displays s) i = None")
  case True
  then have "ret < 0 \<and> s' = s"
    using assms by (cases "guestMode s") (simp_all add: setDisplayPose_def ENOSYS_def EINVAL_def)
  then show ?thesis by simp
next
  case False
  then obtain d where d: "map_of (displays s) i = Some d" by auto
  let ?d = "d\<lparr>width := w, height := h, originalWidth := w, originalHeight := h, dpi := dp,
    flag := fl, pos_x := x, pos_y := y, rotation := current_rotation env\<rparr>"
  let ?m1 = "omap_put i ?d (displays s)"
  have "same_displays ?m1 (snd (snd (getCombinedDisplaySizeLocked env (recomputeLayoutLocked env ?m1))))"
    by (rule same_displays_trans [OF same_displays_relayout same_displays_combined])
  then have "ret = 0 \<and> same_displays ?m1 (displays s') \<and> guestMode s' = guestMode s"
    using False assms d same_displays_combined [of ?m1 env]
    by (auto simp: setDisplayPose_def Let_def case_prod_beta split: if_splits)
  moreover have "view_of ?d = (w, h, dp, fl)" "enabled ?d = enabled d" by (simp_all add: view_of_def)
  ultimately show ?thesis using d by metis
qed

text \<open>The agent is usable when displays are not handed to the VM by hotplug.\<close>

definition agent_inv :: "menv \<Rightarrow> agent_state \<Rightarrow> bool" where
  "agent_inv env st \<longleftrightarrow>
     \<not> hotPlugDisplayEnabled env \<and> s_maxNumMultiDisplay env < s_invalidIdMultiDisplay env \<and>
     (case fst st of None \<Rightarrow> True | Some s \<Rightarrow> ordered_keys (displays s))"

lemma create_displays:
  assumes "createDisplay env i s = (ret, i', s', e)" and "i \<noteq> s_invalidIdMultiDisplay env"
  shows "i' = i \<and> guestMode s' = guestMode s \<and>
         (ret = 0 \<and> map_of (displays s) i \<noteq> None \<and> s' = s \<or>
          ret = 0 \<and> map_of (displays s) i = None \<and>
            displays s' = omap_put i (newInfo env) (displays s) \<or>
          ret < 0 \<and> ret \<noteq> - EPIPE \<and> s' = s)"
  using assms
  by (auto simp: createDisplay_def Let_def ENOSYS_def EINVAL_def EPIPE_def split: if_splits)

lemma set_refused:
  assumes "setMultiDisplay env i x y w h dp fl add s = (ret, s', e)"
    and "\<not> (multiDisplayFeature env \<and> \<not> anyFoldedArea env \<and> \<not> resizable env \<and>
      avdFlavor env \<noteq> AVD_TV \<and> avdFlavor env \<noteq> AVD_WEAR \<and> \<not> guestMode s \<and>
      (add \<longrightarrow> fst (multiDisplayParamValidate env i w h dp)) \<and>
      current_rotation env = SKIN_ROTATION_0)"
  shows "s' = s \<and> ret < 0 \<and> ret \<noteq> - EPIPE"
  using assms
  by (cases "multiDisplayFeature env"; cases "anyFoldedArea env"; cases "resizable env";
      cases "avdFlavor env = AVD_TV \<or> avdFlavor env = AVD_WEAR"; cases "guestMode s";
      cases "add \<and> \<not> fst (multiDisplayParamValidate env i w h dp)")
    (simp_all add: setMultiDisplay_def ENODEV_def ENOSYS_def EINVAL_def EPIPE_def)

text \<open>All that an addition can do to the table, whatever it returns.\<close>

lemma add_displays:
  assumes "setMultiDisplay env i x y w h dp fl True s = (ret, s', e)"
    and "\<not> hotPlugDisplayEnabled env" and "i \<noteq> s_invalidIdMultiDisplay env"
  shows "s' = s \<and> ret < 0 \<and> ret \<noteq> - EPIPE \<or>
         (\<exists>d d'. (map_of (displays s) i = Some d \<or> map_of (displays s) i = None \<and> d = newInfo env) \<and>
            view_of d' = (w, h, dp, default_flags env i fl) \<and> enabled d' = enabled d \<and>
            same_displays (omap_put i d' (displays s)) (displays s') \<and>
            ret = (if pipeUp env then 0 else - EPIPE))"
proof (cases "multiDisplayFeature env \<and> \<not> anyFoldedArea env \<and> \<not> resizable env \<and>
    avdFlavor env \<noteq> AVD_TV \<and> avdFlavor env \<noteq> AVD_WEAR \<and> \<not> guestMode s \<and>
    fst (multiDisplayParamValidate env i w h dp) \<and> current_rotation env = SKIN_ROTATION_0")
  case False
  then show ?thesis using set_refused [OF assms(1)] by auto
next
  case accepted: True
  obtain r1 i' s1 e1 where c: "createDisplay env i s = (r1, i', s1, e1)" by (metis prod_cases4)
  note cd = create_displays [OF c assms(3)]
  obtain r2 s2 e2 where
    p: "setDisplayPose env i' x y w h dp (default_flags env i fl) s1 = (r2, s2, e2)"
    by (metis prod_cases3)
  note pd = pose_displays [OF p]
  have ret: "r1 \<noteq> 0 \<and> ret = r1 \<and> s' = s1 \<or> r1 = 0 \<and> r2 \<noteq> 0 \<and> ret = r2 \<and> s' = s2 \<or>
      r1 = 0 \<and> r2 = 0 \<and> s' = s2 \<and> ret = (if pipeUp env then 0 else - EPIPE)"
    using assms(1,2) accepted c p
    by (auto simp: setMultiDisplay_def send_to_guest_def isDisplayPipeReady_def Let_def
        split: if_splits)
  show ?thesis
  proof (cases "r1 = 0")
    case False
    with cd ret show ?thesis by auto
  next
    case True
    then have put: "omap_put i v (displays s1) = omap_put i v (displays s)" for v
      using cd by (auto simp: omap_put_put)
    have look: "map_of (displays s1) i = Some (case map_of (displays s) i of Some d \<Rightarrow> d
        | None \<Rightarrow> newInfo env)"
      using cd True by auto
    show ?thesis
    proof (cases "r2 = 0")
      case True
      with pd cd \<open>r1 = 0\<close> obtain d d' where "map_of (displays s1) i = Some d"
        "view_of d' = (w, h, dp, default_flags env i fl)" "enabled d' = enabled d"
        "same_displays (omap_put i d' (displays s)) (displays s2)"
        by (auto simp: put)
      with look ret \<open>r1 = 0\<close> True show ?thesis by (auto split: option.splits)
    next
      case False
      with pd look cd \<open>r1 = 0\<close> p accepted show ?thesis
        by (auto simp: setDisplayPose_def Let_def case_prod_beta split: if_splits)
    qed
  qed
qed

lemma remove_displays:
  assumes "setMultiDisplay env i x y w h dp fl False s = (ret, s', e)"
    and "\<not> hotPlugDisplayEnabled env"
  shows "s' = s \<and> ret < 0 \<or>
         same_displays (omap_erase i (displays s)) (displays s') \<and>
         ret = (if pipeUp env then 0 else - EPIPE)"
proof (cases "multiDisplayFeature env \<and> \<not> anyFoldedArea env \<and> \<not> resizable env \<and>
    avdFlavor env \<noteq> AVD_TV \<and> avdFlavor env \<noteq> AVD_WEAR \<and> \<not> guestMode s \<and>
    current_rotation env = SKIN_ROTATION_0")
  case False
  then show ?thesis using set_refused [OF assms(1)] by auto
next
  case True
  obtain r1 s1 e1 where c: "destroyDisplay env i s = (r1, s1, e1)" by (metis prod_cases3)
  from destroy_displays [OF c] True assms c show ?thesis
    by (auto simp: setMultiDisplay_def send_to_guest_def isDisplayPipeReady_def Let_def
        split: if_splits)
qed

section \<open>The agent meets its interface\<close>

definition agent_listing :: "agent_state \<Rightarrow> (u32 \<times> view) list" where
  "agent_listing st = (case fst st of None \<Rightarrow> [] | Some s \<Rightarrow> md_listing s)"

definition agent_active :: "agent_state \<Rightarrow> u32 \<Rightarrow> bool" where
  "agent_active st i = (case fst st of None \<Rightarrow> False | Some s \<Rightarrow> md_active s i)"

lemma lower_bound_filter:
  "lower_bound key m = (case filter (\<lambda>e. key \<le> fst e) m of [] \<Rightarrow> None | e # es \<Rightarrow> Some e)"
  by (induction m) auto

lemma after_listing:
  "after start (md_listing s) =
     map (\<lambda>(i, d). (i, view_of d))
       (filter (\<lambda>e. (if sint start < 0 then 0 else start + 1) \<le> fst e) (displays s))"
  by (simp add: after_def md_listing_def filter_map comp_def case_prod_beta)

lemma next_after_listing:
  "map_option (\<lambda>(i, x, y, w, h, dp, fl, c). (i, w, h, dp, fl)) (getNextMultiDisplay start s) =
     (case after start (md_listing s) of [] \<Rightarrow> None | e # es \<Rightarrow> Some e)"
  unfolding getNextMultiDisplay_def after_listing lower_bound_filter Let_def
  by (cases "filter (\<lambda>e. (if sint start < 0 then 0 else start + 1) \<le> fst e) (displays s)")
    (auto simp: view_of_def)

text \<open>What a call does to the table, in the terms of the interface.\<close>

lemma set_effect:
  assumes "setMultiDisplay env i x y w h dp fl b s = (ret, s', e)"
    and "\<not> hotPlugDisplayEnabled env" and "s_maxNumMultiDisplay env < s_invalidIdMultiDisplay env"
  shows "ordered_keys (displays s) \<longrightarrow> ordered_keys (displays s')"
    and "j \<noteq> i \<Longrightarrow> j \<noteq> 0 \<Longrightarrow> ess (displays s') j = ess (displays s) j"
    and "b \<Longrightarrow> ret \<ge> 0 \<Longrightarrow> i \<noteq> 0 \<Longrightarrow>
           map_of (md_listing s') i = Some (w, h, dp, default_flags env i fl)"
    and "\<not> b \<Longrightarrow> ret \<ge> 0 \<Longrightarrow> i \<noteq> 0 \<Longrightarrow> map_of (displays s') i = None"
proof -
  have inv: "s' = s \<and> ret < 0" if "b" "i = s_invalidIdMultiDisplay env"
    using set_refused [OF assms(1)] that assms(3)
    by (auto simp: multiDisplayParamValidate_def multiDisplayParamError_def split: if_splits)
  have "s' = s \<and> ret < 0 \<or>
      (\<exists>d'. b \<and> view_of d' = (w, h, dp, default_flags env i fl) \<and>
         same_displays (omap_put i d' (displays s)) (displays s')) \<or>
      \<not> b \<and> same_displays (omap_erase i (displays s)) (displays s')"
  proof (cases b)
    case True
    then show ?thesis
      using inv add_displays [OF assms(1) [simplified True] assms(2)]
      by (cases "i = s_invalidIdMultiDisplay env") auto
  next
    case False
    with remove_displays [OF assms(1) [simplified False] assms(2)] show ?thesis by auto
  qed
  then consider (same) "s' = s" "ret < 0"
    | (add) d' where "b" "view_of d' = (w, h, dp, default_flags env i fl)"
        "same_displays (omap_put i d' (displays s)) (displays s')"
    | (del) "\<not> b" "same_displays (omap_erase i (displays s)) (displays s')"
    by blast
  note cases = this
  show "ordered_keys (displays s) \<longrightarrow> ordered_keys (displays s')"
    by (rule cases) (auto simp: same_displays_def)
  show "ess (displays s') j = ess (displays s) j" if "j \<noteq> i" "j \<noteq> 0"
    by (rule cases) (use that in \<open>auto simp: same_displays_def ess_def\<close>)
  show "map_of (md_listing s') i = Some (w, h, dp, default_flags env i fl)"
    if "b" "ret \<ge> 0" "i \<noteq> 0"
  proof (rule cases)
    fix d' :: info
    assume v: "view_of d' = (w, h, dp, default_flags env i fl)"
      and s: "same_displays (omap_put i d' (displays s)) (displays s')"
    from s that(3) have "ess (displays s') i = Some (essence d')"
      by (simp add: same_displays_def ess_def)
    with v show ?thesis
      by (auto simp: map_of_md_listing ess_def essence_def view_of_def)
  qed (use that in auto)
  show "map_of (displays s') i = None" if "\<not> b" "ret \<ge> 0" "i \<noteq> 0"
    by (rule cases) (use that in \<open>auto simp: same_displays_def ess_def\<close>)
qed

interpretation da: display_agent "md_agent env" agent_listing agent_active "agent_inv env" for env
proof unfold_locales
  fix st :: agent_state and start i j :: u32 and x y w h dp fl and b :: bool
  assume inv: "agent_inv env st"
  then have hp: "\<not> hotPlugDisplayEnabled env" "s_maxNumMultiDisplay env < s_invalidIdMultiDisplay env"
    by (simp_all add: agent_inv_def)
  show "ordered_keys (agent_listing st)"
    using inv by (simp add: agent_inv_def agent_listing_def md_listing_def comp_def case_prod_beta
        split: option.splits)
  show "fst (agentGet (md_agent env) i st) = agent_active st i"
    by (simp add: md_agent_def agent_getMultiDisplay_def agent_active_def getMultiDisplay_def
        md_active_def split: option.split)
  show "map_option (\<lambda>(i, x, y, w, h, dp, fl, c). (i, w, h, dp, fl)) (agentNext (md_agent env) start st) =
      (case after start (agent_listing st) of [] \<Rightarrow> None | e # es \<Rightarrow> Some e)"
    by (cases "fst st")
      (simp_all add: md_agent_def agent_getNextMultiDisplay_def agent_listing_def
        next_after_listing, simp add: after_def)
  {
    assume "agent_active st i"
    then show "\<exists>x y w h dp fl. snd (agentGet (md_agent env) i st) = Some (x, y, w, h, dp, fl, True)"
      by (auto simp: md_agent_def agent_getMultiDisplay_def agent_active_def getMultiDisplay_def
          md_active_def split: option.splits)
  }
  let ?r = "agentSet (md_agent env) i x y w h dp fl b st"
  have none: "?r = (-1, st)" if "fst st = None"
    using that by (simp add: md_agent_def agent_setMultiDisplay_def)
  have some: "\<exists>ret s' e. setMultiDisplay env i x y w h dp fl b s = (ret, s', e) \<and>
      ?r = (ret, (Some s', snd st @ e))" if "fst st = Some s" for s
    using that by (cases "setMultiDisplay env i x y w h dp fl b s")
      (simp add: md_agent_def agent_setMultiDisplay_def)
  show "agent_inv env (snd ?r)"
    using inv none some set_effect(1) [OF _ hp]
    by (cases "fst st") (fastforce simp: agent_inv_def)+
  show "map_of (agent_listing (snd ?r)) j = map_of (agent_listing st) j \<and>
      agent_active (snd ?r) j = agent_active st j" if "j \<noteq> i" "j \<noteq> 0"
  proof (cases "fst st")
    case None
    with none show ?thesis by simp
  next
    case (Some s)
    with some obtain ret s' e where r: "setMultiDisplay env i x y w h dp fl b s = (ret, s', e)"
      "?r = (ret, (Some s', snd st @ e))" by blast
    with Some view_ess [OF set_effect(2) [OF r(1) hp that]] show ?thesis
      by (simp add: agent_listing_def agent_active_def)
  qed
next
  fix st :: agent_state and i :: u32 and x y w h dp fl
  assume inv: "agent_inv env st" and i: "i \<noteq> 0"
  then have hp: "\<not> hotPlugDisplayEnabled env" "s_maxNumMultiDisplay env < s_invalidIdMultiDisplay env"
    by (simp_all add: agent_inv_def)
  {
    assume "fst (agentSet (md_agent env) i x y w h dp fl True st) \<ge> 0"
    then show "\<exists>fl'. map_of (agent_listing (snd (agentSet (md_agent env) i x y w h dp fl True st))) i =
        Some (w, h, dp, fl')"
      using set_effect(3) [OF _ hp, of i x y w h dp fl True] i
      by (auto simp: md_agent_def agent_setMultiDisplay_def agent_listing_def
          split: option.splits prod.splits)
  }
  assume "fst (agentSet (md_agent env) i x y w h dp fl False st) \<ge> 0"
  then show "map_of (agent_listing (snd (agentSet (md_agent env) i x y w h dp fl False st))) i = None \<and>
      \<not> agent_active (snd (agentSet (md_agent env) i x y w h dp fl False st)) i"
    using set_effect(4) [OF _ hp, of i x y w h dp fl False] i
    by (auto simp: md_agent_def agent_setMultiDisplay_def agent_listing_def agent_active_def
        map_of_md_listing md_active_def split: option.splits prod.splits)
qed

section \<open>Snapshots and validation: lemmas\<close>

lemma be32_round_trip: "le_word (rev (be32 w)) = w"
  by (simp add: be32_def)

lemma length_be32 [simp]: "length (be32 w) = 4"
  by (simp add: be32_def)

lemma load_save_display:
  "load_display env (save_display (i, d)) =
     (i, makeInfo env (pos_x d) (pos_y d) (width d) (height d) (dpi d) (flag d) (enabled d) (cb d))"
  by (simp add: load_display_def save_display_def be32_at_def be32_round_trip nth_append)

lemma load_displays_append:
  assumes "ordered_keys (m @ map f m')" and "\<And>e. fst (f e) = fst e"
    and "\<And>e. e \<in> set m' \<Longrightarrow> load_display env (save_display e) = f e"
  shows "load_displays env (map save_display m') m = m @ map f m'"
  using assms(1,3)
proof (induction m' arbitrary: m)
  case Nil
  then show ?case by simp
next
  case (Cons e m')
  have "\<forall>x \<in> set m. fst x < fst (f e)" using Cons.prems(1) by (auto simp: sorted_wrt_append)
  then have "map_of m (fst (f e)) = None" "omap_put (fst (f e)) (snd (f e)) m = m @ [f e]"
    by (auto simp: map_of_eq_None_iff omap_put_last)
  moreover have "load_displays env (map save_display m') (m @ [f e]) = (m @ [f e]) @ map f m'"
    using Cons.prems by (intro Cons.IH) auto
  ultimately show ?case using Cons.prems(2) [of e] by (cases "f e") simp
qed

lemma twice_dpi: "d \<le> (640 :: u32) \<Longrightarrow> unat (320 * d div 160) = 2 * unat d"
proof -
  assume "d \<le> 640"
  then have "unat d \<le> 640" by (simp add: word_le_nat_alt)
  then have "unat (320 * d) = 320 * unat d" by (simp add: unat_word_ariths)
  then show ?thesis by (simp add: unat_div_distrib)
qed

section \<open>Properties\<close>

text \<open>
  The parameters of a display are accepted exactly when the density is between 120 and 640,
  both sides have at least 320 density-independent pixels (twice the density, without overflow in
  the 32-bit computation), the picture fits into 7680 by 4320 in one of the two orientations and
  the id is within the limit; a rejection reports one message.
\<close>

theorem param_validate_exact:
  "(fst (multiDisplayParamValidate env i w h d) \<longleftrightarrow>
      120 \<le> unat d \<and> unat d \<le> 640 \<and> 2 * unat d \<le> unat w \<and> 2 * unat d \<le> unat h \<and>
      (unat w \<le> 7680 \<and> unat h \<le> 4320 \<or> unat w \<le> 4320 \<and> unat h \<le> 7680) \<and>
      i \<le> s_maxNumMultiDisplay env) \<and>
   length (snd (multiDisplayParamValidate env i w h d)) =
     (if fst (multiDisplayParamValidate env i w h d) then 0 else 1)"
  using twice_dpi [of d]
  by (auto simp: multiDisplayParamValidate_def multiDisplayParamError_def word_less_nat_alt
      word_le_nat_alt split: if_splits)

text \<open>
  (C23) Adding and removing displays through the agent behaves like a map: a successful addition
  makes the display visible with the size and density asked for, a successful removal makes it
  invisible, and neither touches any other display but the default one.
\<close>

theorem set_multi_display_map_laws:
  assumes "setMultiDisplay env i x y w h dp fl add s = (ret, s', e)" and "ret \<ge> 0" and "i \<noteq> 0"
    and "\<not> hotPlugDisplayEnabled env" and "s_maxNumMultiDisplay env < s_invalidIdMultiDisplay env"
  shows "map_of (md_listing s') i =
           (if add then Some (w, h, dp, default_flags env i fl) else None) \<and>
         (j \<noteq> i \<and> j \<noteq> 0 \<longrightarrow> map_of (md_listing s') j = map_of (md_listing s) j)"
  using set_effect [OF assms(1,4,5)] view_ess [of s' j s] assms(2,3)
  by (auto simp: map_of_md_listing [of s' i])

theorem set_multi_display_map_laws_witness:
  "map_of (md_listing (fst (snd (setMultiDisplay phone_env 2 (-1) (-1) 640 480 160 3 True
     \<lparr>guestMode = False, displays = [(0, plain_info 0 0 1080 1920 420 0 True 0)]\<rparr>)))) 2 =
   Some (640, 480, 160, 3)"
proof -
  let ?s = "\<lparr>guestMode = False, displays = [(0, plain_info 0 0 1080 1920 420 0 True 0)]\<rparr>"
  have r: "fst (setMultiDisplay phone_env 2 (-1) (-1) 640 480 160 3 True ?s) = 0"
    by (simp add: setMultiDisplay_def phone_env_def multiDisplayParamValidate_def
        multiDisplayParamError_def current_rotation_def SKIN_ROTATION_0_def
        hotPlugDisplayEnabled_def createDisplay_def setDisplayPose_def send_to_guest_def
        isDisplayPipeReady_def plain_info_def Let_def)
  obtain ret s' e where q: "setMultiDisplay phone_env 2 (-1) (-1) 640 480 160 3 True ?s = (ret, s', e)"
    by (metis prod_cases3)
  from set_multi_display_map_laws [OF q] r q show ?thesis
    by (simp add: phone_env_def hotPlugDisplayEnabled_def default_flags_def)
qed

text \<open>
  (C39) An addition that fails because the guest's display service is not connected reports the
  failure but keeps the display: it stays in the table with the requested size, is listed, and its
  id is taken.
\<close>

theorem failed_add_keeps_display:
  assumes "setMultiDisplay env i x y w h dp fl True s = (- EPIPE, s', e)" and "i \<noteq> 0"
    and "\<not> hotPlugDisplayEnabled env" and "i \<noteq> s_invalidIdMultiDisplay env"
    and "map_of (displays s) i = None"
  shows "(\<exists>fl'. map_of (md_listing s') i = Some (w, h, dp, fl')) \<and>
         md_active s' i = enabled (newInfo env)"
  using add_displays [OF assms(1,3,4)]
proof (elim disjE exE conjE)
  fix d d' :: info
  assume d': "view_of d' = (w, h, dp, default_flags env i fl)" "enabled d' = enabled d"
    "same_displays (omap_put i d' (displays s)) (displays s')" "d = newInfo env"
  then have "ess (displays s') i = Some (essence d')"
    using assms(2) by (simp add: same_displays_def ess_def)
  with d' show ?thesis
    by (auto simp: map_of_md_listing md_active_def ess_def essence_def view_of_def)
qed (use assms(5) in auto)

theorem failed_add_keeps_display_witness:
  "let env = phone_env\<lparr>pipeUp := False\<rparr>;
       (ret, s', e) = setMultiDisplay env 2 (-1) (-1) 640 480 160 3 True
         \<lparr>guestMode = False, displays = [(0, plain_info 0 0 1080 1920 420 0 True 0)]\<rparr> in
   ret = - EPIPE \<and> md_active s' 2"
proof -
  let ?env = "phone_env\<lparr>pipeUp := False\<rparr>"
  let ?s = "\<lparr>guestMode = False, displays = [(0, plain_info 0 0 1080 1920 420 0 True 0)]\<rparr>"
  have r: "fst (setMultiDisplay ?env 2 (-1) (-1) 640 480 160 3 True ?s) = - EPIPE"
    by (simp add: setMultiDisplay_def phone_env_def multiDisplayParamValidate_def
        multiDisplayParamError_def current_rotation_def SKIN_ROTATION_0_def
        hotPlugDisplayEnabled_def createDisplay_def setDisplayPose_def send_to_guest_def
        isDisplayPipeReady_def plain_info_def Let_def)
  obtain ret s' e where q: "setMultiDisplay ?env 2 (-1) (-1) 640 480 160 3 True ?s = (ret, s', e)"
    by (metis prod_cases3)
  with r have ret: "ret = - EPIPE" by simp
  from failed_add_keeps_display [OF q [unfolded ret]] q ret show ?thesis
    by (simp add: phone_env_def plain_info_def hotPlugDisplayEnabled_def)
qed



text \<open>
  The color buffer bound to a display is the one the queries return afterwards, for every
  display that exists; binding the same buffer again changes nothing and has no effect outside.
\<close>

theorem color_buffer_bound:
  assumes "setDisplayColorBuffer env i b s = (0, s', e)"
  shows "getDisplayColorBuffer i s' = Inr b \<and>
         setDisplayColorBuffer env i b s' = (0, s', []) \<and> guestMode s' = guestMode s"
  using assms
  by (auto simp: setDisplayColorBuffer_def getDisplayColorBuffer_def modify_def at_or_new_def
      Let_def case_prod_beta ENOSYS_def EINVAL_def split: if_splits option.splits)

end
