(* ===== verification/Posix_Util.thy ===== *)
theory Posix_Util
  imports Prelude
begin

text \<open>
  \<^verbatim>\<open>shell/core/posix_util.h\<close> and \<^verbatim>\<open>shell/core/unix_listener.h\<close>: path joining, the
  close-on-exec flag, and the listening socket that the guest pipe connects to. System calls are
  arguments (their results); the order of calls on every path is the list of effects.
\<close>

section \<open>posix util\<close>

definition path_join :: "string \<Rightarrow> string \<Rightarrow> string" where
  "path_join lhs rhs =
     (if lhs = [] then rhs
      else if last lhs = CHR ''/'' then lhs @ rhs
      else lhs @ ''/'' @ rhs)"

definition FD_CLOEXEC :: int where "FD_CLOEXEC = 1"

text \<open>
  \<open>getfd\<close> is the result of \<^verbatim>\<open>fcntl(fd, F_GETFD)\<close> and \<open>setfd\<close> the function
  from the flags to the result of \<^verbatim>\<open>fcntl(fd, F_SETFD, flags)\<close>.
\<close>

definition set_close_on_exec :: "int \<Rightarrow> (int \<Rightarrow> int) \<Rightarrow> bool \<Rightarrow> bool" where
  "set_close_on_exec getfd setfd enabled =
     (if getfd < 0 then False
      else setfd (if enabled then getfd OR FD_CLOEXEC else getfd AND NOT FD_CLOEXEC) = 0)"

section \<open>The listener\<close>

text \<open>
  The calls the function makes on the kernel, in order. \<open>Unlink\<close> and \<open>Bind\<close> carry
  the path; a failing call leaves the descriptor closed.
\<close>

datatype lcall = Socket | Cloexec int | Unlink string | Bind int string | Listen int | Close int
  | Connect int string

record listener_env =
  socketResult :: int
  cloexecOk :: bool
  bindResult :: int
  listenResult :: int

text \<open>\<^verbatim>\<open>sizeof(sockaddr_un::sun_path)\<close> is a constant of the platform, an argument here.\<close>

definition create_unix_listener :: "nat \<Rightarrow> listener_env \<Rightarrow> string \<Rightarrow> int \<times> lcall list" where
  "create_unix_listener sun_path_size env path =
     (if path = [] \<or> length path \<ge> sun_path_size then (-1, [])
      else
        let fd = socketResult env in
        if fd < 0 then (-1, [Socket])
        else if \<not> cloexecOk env then (-1, [Socket, Cloexec fd, Close fd])
        else
          let sun_path = take (sun_path_size - 1) path in
          if bindResult env \<noteq> 0
          then (-1, [Socket, Cloexec fd, Unlink path, Bind fd sun_path, Close fd])
          else if listenResult env \<noteq> 0
          then (-1, [Socket, Cloexec fd, Unlink path, Bind fd sun_path, Listen fd, Close fd])
          else (fd, [Socket, Cloexec fd, Unlink path, Bind fd sun_path, Listen fd]))"

definition wake_unix_listener :: "nat \<Rightarrow> listener_env \<Rightarrow> string \<Rightarrow> lcall list" where
  "wake_unix_listener sun_path_size env path =
     (if path = [] then []
      else
        let fd = socketResult env in
        if fd < 0 then [Socket]
        else [Socket, Cloexec fd, Connect fd (take (sun_path_size - 1) path), Close fd])"

text \<open>
  The handshake: two bytes out, one poll, one read of at most fifteen bytes. \<open>sent\<close>,
  \<open>pollResult\<close> and \<open>pollin\<close> are results of the calls; \<open>answer\<close> is
  what the peer has written. The C buffer is zero filled, so \<^verbatim>\<open>strstr\<close> sees the bytes up to
  the first NUL.
\<close>

fun occurs :: "string \<Rightarrow> string \<Rightarrow> bool" where
  "occurs p [] = (p = [])"
| "occurs p (c # cs) = (take (length p) (c # cs) = p \<or> occurs p cs)"

definition strstr :: "string \<Rightarrow> string \<Rightarrow> bool" where
  "strstr haystack needle = occurs needle (takeWhile (\<lambda>c. c \<noteq> CHR 0x00) haystack)"

definition perform_unix_pipe_handshake :: "int \<Rightarrow> int \<Rightarrow> bool \<Rightarrow> string option \<Rightarrow> bool" where
  "perform_unix_pipe_handshake sentBytes pollResult pollin answer =
     (if sentBytes \<noteq> 2 then False
      else if pollResult \<le> 0 \<or> \<not> pollin then False
      else
        case answer of
          None \<Rightarrow> False
        | Some bytes \<Rightarrow> (let response = take 15 bytes in length response \<ge> 2 \<and> strstr response ''ok''))"

section \<open>Properties\<close>

lemma occurs_iff: "occurs p s \<longleftrightarrow> (\<exists>u v. s = u @ p @ v)"
proof (induction s)
  case Nil
  then show ?case by simp
next
  case (Cons c s)
  have "(\<exists>u v. c # s = u @ p @ v) \<longleftrightarrow> (\<exists>v. c # s = p @ v) \<or> (\<exists>u v. s = u @ p @ v)"
    by (metis append_Cons append_Nil list.exhaust list.sel(3) hd_append2 neq_Nil_conv)
  moreover have "take (length p) (c # s) = p \<longleftrightarrow> (\<exists>v. c # s = p @ v)"
    by (metis append_eq_conv_conj append_take_drop_id)
  ultimately show ?case using Cons by auto
qed

text \<open>
  The listener leaks no descriptor and hands none out twice: on every path a descriptor that
  was opened is either returned, still open and listening under the path, or closed, and nothing
  is unlinked unless the path fits the socket address.
\<close>

theorem listener_no_leak:
  "(fst (create_unix_listener n env path) = -1 \<and>
      (Socket \<in> set (snd (create_unix_listener n env path)) \<and> socketResult env \<ge> 0 \<longrightarrow>
         last (snd (create_unix_listener n env path)) = Close (socketResult env)) \<or>
    fst (create_unix_listener n env path) = socketResult env \<and> socketResult env \<ge> 0 \<and>
      snd (create_unix_listener n env path) =
        [Socket, Cloexec (socketResult env), Unlink path, Bind (socketResult env) path,
         Listen (socketResult env)]) \<and>
   (Unlink p \<in> set (snd (create_unix_listener n env path)) \<longrightarrow> p = path \<and> length path < n)"
  by (auto simp: create_unix_listener_def Let_def)

end
