(* ===== verification/Input_Sender.thy ===== *)
theory Input_Sender
  imports Control_Protocol Posix_Util
begin

text \<open>
  The input protocol (\<^verbatim>\<open>shell/protocol/macmu_input_protocol.h\<close>) and its sender
  (\<^verbatim>\<open>shell/core/input_sender.{h,cpp}\<close>). Events travel as datagrams of 40 bytes over a socket
  pair whose remote end successive emulator processes inherit.

  The state is the object together with the datagrams that wait in the socket pair. The results of
  \<^verbatim>\<open>send\<close> and \<^verbatim>\<open>poll\<close> are arguments; a datagram is sent as a whole or not at all.
\<close>

section \<open>The protocol\<close>

definition kInputProtocolMagic :: u32 where "kInputProtocolMagic = 0x4d4d494e"
definition kInputProtocolVersion :: u16 where "kInputProtocolVersion = 1"
definition kInputChildFd :: int where "kInputChildFd = 199"
definition kInputTouchPressure :: int where "kInputTouchPressure = 0x400"
definition kInputTouchMajor :: int where "kInputTouchMajor = 0x400"
definition kInputTouchMinor :: int where "kInputTouchMinor = 0x400"

datatype InputEventKind = kTouchBegin | kTouchUpdate | kTouchEnd | kMouseMove | kMouseButton

fun kind_code :: "InputEventKind \<Rightarrow> u16" where
  "kind_code kTouchBegin = 1"
| "kind_code kTouchUpdate = 2"
| "kind_code kTouchEnd = 3"
| "kind_code kMouseMove = 4"
| "kind_code kMouseButton = 5"

record InputEventPacket =
  inMagic :: u32
  inVersion :: u16
  inKind :: u16
  inDisplayId :: u32
  inPointerId :: i32
  inX :: i32
  inY :: i32
  inXGlobal :: i32
  inYGlobal :: i32
  inButtons :: u32
  inFlags :: u32

definition encode_packet :: "InputEventPacket \<Rightarrow> bytes" where
  "encode_packet p =
     le_bytes 4 (inMagic p) @ le_bytes 2 (inVersion p) @ le_bytes 2 (inKind p) @
     encode_u32s [inDisplayId p, inPointerId p, inX p, inY p, inXGlobal p, inYGlobal p,
       inButtons p, inFlags p]"

definition decode_packet :: "bytes \<Rightarrow> InputEventPacket" where
  "decode_packet bs =
     (let ws = drop 8 bs in
      \<lparr>inMagic = le_word (take 4 bs), inVersion = le_word (take 2 (drop 4 bs)),
       inKind = le_word (take 2 (drop 6 bs)), inDisplayId = u32_at 0 ws,
       inPointerId = u32_at 1 ws, inX = u32_at 2 ws, inY = u32_at 3 ws, inXGlobal = u32_at 4 ws,
       inYGlobal = u32_at 5 ws, inButtons = u32_at 6 ws, inFlags = u32_at 7 ws\<rparr>)"

definition packet_size :: nat where "packet_size = 40"

section \<open>The sender\<close>

definition make_packet :: "InputEventKind \<Rightarrow> u32 \<Rightarrow> i32 \<Rightarrow> i32 \<Rightarrow> i32 \<Rightarrow> u32 \<Rightarrow> InputEventPacket"
where
  "make_packet kind display_id pointer_id x y buttons =
     \<lparr>inMagic = kInputProtocolMagic, inVersion = kInputProtocolVersion, inKind = kind_code kind,
      inDisplayId = display_id, inPointerId = pointer_id, inX = x, inY = y, inXGlobal = x,
      inYGlobal = y, inButtons = buttons, inFlags = 0\<rparr>"

record input_sender =
  m_fd :: int
  m_remoteFd :: int
  m_enabled :: bool
  inFlight :: "bytes list"

definition new_input_sender :: input_sender where
  "new_input_sender = \<lparr>m_fd = -1, m_remoteFd = -1, m_enabled = False, inFlight = []\<rparr>"

definition sender_valid :: "input_sender \<Rightarrow> bool" where
  "sender_valid s \<longleftrightarrow> m_fd s \<ge> 0"

text \<open>Creation and destruction return the descriptors that were closed, in order.\<close>

definition sender_create :: "(int \<times> int) option \<Rightarrow> bool \<Rightarrow> bool \<Rightarrow> input_sender \<Rightarrow> bool \<times> input_sender \<times> int list"
where
  "sender_create fds ok0 ok1 s =
     (case fds of
        None \<Rightarrow> (False, s, [])
      | Some (a, b) \<Rightarrow>
          if \<not> ok0 \<or> \<not> ok1 then (False, s, [a, b])
          else (True, s\<lparr>m_fd := a, m_remoteFd := b\<rparr>, []))"

definition sender_destroy :: "input_sender \<Rightarrow> input_sender \<times> int list" where
  "sender_destroy s =
     (let (s1, c1) = (if m_remoteFd s \<ge> 0 then (s\<lparr>m_remoteFd := -1\<rparr>, [m_remoteFd s]) else (s, []));
          (s2, c2) = (if m_fd s1 \<ge> 0 then (s1\<lparr>m_fd := -1\<rparr>, [m_fd s1]) else (s1, [])) in
      (s2, c1 @ c2))"

text \<open>The numbers of the platform.\<close>

definition EINTR :: int where "EINTR = 4"
definition ENOENT :: int where "ENOENT = 2"
definition EAGAIN :: int where "EAGAIN = 35"
definition ECONNREFUSED :: int where "ECONNREFUSED = 61"

datatype send_result = Send_all | Send_errno int

datatype poll_out = Pollout_errno int | Pollout_idle | Pollout_ready bool

text \<open>
  The loop around \<^verbatim>\<open>poll\<close>: whether the socket is writable, and \<^verbatim>\<open>errno\<close> afterwards;
  \<open>None\<close> while it has not returned.
\<close>

fun await_writable :: "poll_out list \<Rightarrow> int \<Rightarrow> (bool \<times> int) option" where
  "await_writable [] e = None"
| "await_writable (Pollout_errno e' # ps) e =
     (if e' = EINTR then await_writable ps e' else Some (False, e'))"
| "await_writable (Pollout_idle # ps) e = Some (False, e)"
| "await_writable (Pollout_ready out # ps) e = Some (out, e)"

text \<open>
  The result is the return value, whether a message was logged, and the new state.
\<close>

definition send_packet ::
  "send_result \<Rightarrow> poll_out list \<Rightarrow> send_result \<Rightarrow> InputEventPacket \<Rightarrow> bool \<Rightarrow> input_sender \<Rightarrow>
     (bool \<times> bool \<times> input_sender) option" where
  "send_packet first polls second packet reliable s =
     (if m_fd s < 0 \<or> \<not> m_enabled s then Some (False, False, s)
      else
        let delivered = s\<lparr>inFlight := inFlight s @ [encode_packet packet]\<rparr>;
            failed = (\<lambda>e. Some (False, e \<notin> {ENOENT, ECONNREFUSED, EAGAIN}, s)) in
        case first of
          Send_all \<Rightarrow> Some (True, False, delivered)
        | Send_errno e \<Rightarrow>
            if reliable \<and> e = EAGAIN then
              (case await_writable polls e of
                 None \<Rightarrow> None
               | Some (out, e1) \<Rightarrow>
                   if out then
                     (case second of
                        Send_all \<Rightarrow> Some (True, False, delivered)
                      | Send_errno e2 \<Rightarrow> failed e2)
                   else failed e1)
            else failed e)"

definition send_touch ::
  "send_result \<Rightarrow> poll_out list \<Rightarrow> send_result \<Rightarrow> InputEventKind \<Rightarrow> u32 \<Rightarrow> i32 \<Rightarrow> i32 \<Rightarrow> i32 \<Rightarrow>
     input_sender \<Rightarrow> (bool \<times> bool \<times> input_sender) option" where
  "send_touch first polls second kind display_id pointer_id x y s =
     (let reliable = (kind = kTouchBegin \<or> kind = kTouchEnd) in
      send_packet first polls second (make_packet kind display_id pointer_id x y 0) reliable s)"

definition send_mouse_move ::
  "send_result \<Rightarrow> poll_out list \<Rightarrow> send_result \<Rightarrow> u32 \<Rightarrow> i32 \<Rightarrow> i32 \<Rightarrow> u32 \<Rightarrow>
     input_sender \<Rightarrow> (bool \<times> bool \<times> input_sender) option" where
  "send_mouse_move first polls second display_id x y buttons s =
     send_packet first polls second (make_packet kMouseMove display_id 0 x y buttons) False s"

definition send_mouse_button ::
  "send_result \<Rightarrow> poll_out list \<Rightarrow> send_result \<Rightarrow> u32 \<Rightarrow> i32 \<Rightarrow> i32 \<Rightarrow> u32 \<Rightarrow>
     input_sender \<Rightarrow> (bool \<times> bool \<times> input_sender) option" where
  "send_mouse_button first polls second display_id x y buttons s =
     send_packet first polls second (make_packet kMouseButton display_id 0 x y buttons) True s"

text \<open>
  The drain receives until a call returns nothing: no datagram waits, or an empty one was taken.
\<close>

fun drain :: "bytes list \<Rightarrow> bytes list" where
  "drain [] = []"
| "drain (d # q) = (if d = [] then q else drain q)"

definition discard_pending_locked :: "input_sender \<Rightarrow> input_sender" where
  "discard_pending_locked s =
     (if m_remoteFd s < 0 then s else s\<lparr>inFlight := drain (inFlight s)\<rparr>)"

definition set_enabled :: "bool \<Rightarrow> input_sender \<Rightarrow> input_sender" where
  "set_enabled on s =
     (let s1 = s\<lparr>m_enabled := on\<rparr> in if \<not> on then discard_pending_locked s1 else s1)"

section \<open>Generations\<close>

text \<open>
  The life of the socket pair: the shell sends and switches, the running emulator receives. Beside
  the state the run records the datagrams accepted since the sender was last disabled and the
  datagrams the emulator took in that time.
\<close>

datatype input_op =
  Op_send send_result "poll_out list" send_result InputEventPacket bool
| Op_enable bool
| Op_receive

record input_run =
  sender :: input_sender
  accepted :: "bytes list"
  received :: "bytes list"

fun input_step :: "input_op \<Rightarrow> input_run \<Rightarrow> input_run" where
  "input_step (Op_send f ps g p rel) r =
     (case send_packet f ps g p rel (sender r) of
        Some (ok, logged, s') \<Rightarrow>
          r\<lparr>sender := s', accepted := (if ok then accepted r @ [encode_packet p] else accepted r)\<rparr>
      | None \<Rightarrow> r)"
| "input_step (Op_enable on) r =
     (if on then r\<lparr>sender := set_enabled True (sender r)\<rparr>
      else r\<lparr>sender := set_enabled False (sender r), accepted := [], received := []\<rparr>)"
| "input_step Op_receive r =
     (case inFlight (sender r) of
        [] \<Rightarrow> r
      | d # q \<Rightarrow> r\<lparr>sender := (sender r)\<lparr>inFlight := q\<rparr>, received := received r @ [d]\<rparr>)"

definition fresh_run :: "int \<Rightarrow> int \<Rightarrow> input_run" where
  "fresh_run a b =
     \<lparr>sender = fst (snd (sender_create (Some (a, b)) True True new_input_sender)), accepted = [],
      received = []\<rparr>"

section \<open>Lemmas\<close>

lemma length_encode_packet [simp, codec_simps]: "length (encode_packet p) = packet_size"
  by (simp add: encode_packet_def packet_size_def)

lemma encode_packet_nonempty [simp]: "encode_packet p \<noteq> []"
  by (metis length_encode_packet packet_size_def list.size(3) zero_neq_numeral)

lemma decode_encode_packet [simp, codec_simps]: "decode_packet (encode_packet p @ r) = p"
  by (simp add: decode_packet_def encode_packet_def Let_def)

lemmas decode_encode_packet_exact [simp, codec_simps] =
  decode_encode_packet [where r = "[]", unfolded append_Nil2]

lemma drain_packets [simp]: "list_all (\<lambda>d. d \<noteq> []) q \<Longrightarrow> drain q = []"
  by (induction q) auto

lemma send_packet_effect:
  assumes "send_packet f ps g p rel s = Some (ok, logged, s')"
  shows "s' = (if ok then s\<lparr>inFlight := inFlight s @ [encode_packet p]\<rparr> else s)"
    and "ok \<Longrightarrow> m_enabled s \<and> m_fd s \<ge> 0"
  using assms
  by (auto simp: send_packet_def Let_def split: if_splits send_result.splits option.splits)

definition run_inv :: "input_run \<Rightarrow> bool" where
  "run_inv r \<longleftrightarrow>
     m_fd (sender r) \<ge> 0 \<and> m_remoteFd (sender r) \<ge> 0 \<and>
     accepted r = received r @ inFlight (sender r) \<and>
     list_all (\<lambda>d. d \<noteq> []) (inFlight (sender r)) \<and>
     (\<not> m_enabled (sender r) \<longrightarrow> accepted r = [])"

lemma input_step_inv [inv_intros]:
  assumes "run_inv r"
  shows "run_inv (input_step x r)"
proof (cases x)
  case (Op_send f ps g p rel)
  with assms send_packet_effect [of f ps g p rel "sender r"] show ?thesis
    by (auto simp: run_inv_def split: option.split)
next
  case (Op_enable on)
  with assms show ?thesis
    by (auto simp: run_inv_def set_enabled_def discard_pending_locked_def Let_def)
next
  case Op_receive
  with assms show ?thesis by (auto simp: run_inv_def split: list.split)
qed

lemma run_inv_fold: "run_inv r \<Longrightarrow> run_inv (fold input_step xs r)"
  by (induction xs arbitrary: r) (auto intro: input_step_inv)

lemma fresh_run_inv: "a \<ge> 0 \<Longrightarrow> b \<ge> 0 \<Longrightarrow> run_inv (fresh_run a b)"
  by (simp add: run_inv_def fresh_run_def sender_create_def new_input_sender_def)

section \<open>Properties\<close>

text \<open>
  (C10) Generations of the emulator do not mix: in every history of sends, switches and receives
  over one socket pair, the emulator receives exactly a prefix of the packets accepted since the
  sender was last disabled, in order and complete, the rest is what still waits, and while the
  sender is disabled nothing waits and nothing is accepted.
\<close>

theorem input_generations_isolated:
  assumes "a \<ge> 0" and "b \<ge> 0" and "r = fold input_step xs (fresh_run a b)"
  shows "accepted r = received r @ inFlight (sender r) \<and>
         (\<not> m_enabled (sender r) \<longrightarrow> inFlight (sender r) = [] \<and>
            send_packet f ps g p rel (sender r) = Some (False, False, sender r))"
  using run_inv_fold [OF fresh_run_inv [OF assms(1,2)], of xs] assms(3)
  by (auto simp: run_inv_def send_packet_def)

theorem input_generations_isolated_witness:
  "accepted (fold input_step
     [Op_enable True, Op_send Send_all [] Send_all (make_packet kTouchBegin 0 1 5 6 0) True,
      Op_enable False, Op_send Send_all [] Send_all (make_packet kTouchEnd 0 1 5 6 0) True,
      Op_enable True,
      Op_send (Send_errno 35) [Pollout_errno 4, Pollout_ready True] Send_all
        (make_packet kTouchBegin 0 2 7 8 0) True,
      Op_receive] (fresh_run 5 6)) = [encode_packet (make_packet kTouchBegin 0 2 7 8 0)]"
  using input_generations_isolated [of 5 6
      "fold input_step
         [Op_enable True, Op_send Send_all [] Send_all (make_packet kTouchBegin 0 1 5 6 0) True,
          Op_enable False, Op_send Send_all [] Send_all (make_packet kTouchEnd 0 1 5 6 0) True,
          Op_enable True,
          Op_send (Send_errno 35) [Pollout_errno 4, Pollout_ready True] Send_all
            (make_packet kTouchBegin 0 2 7 8 0) True,
          Op_receive] (fresh_run 5 6)"]
  by (simp add: fresh_run_def sender_create_def new_input_sender_def set_enabled_def
      discard_pending_locked_def send_packet_def EAGAIN_def EINTR_def Let_def)

end
