(* ===== verification/Input_Receiver.thy ===== *)
theory Input_Receiver
  imports Input_Sender Text_Util
begin

text \<open>
  \<^verbatim>\<open>external/qemu/android-qemu2-glue/macmu-input-receiver.cpp\<close>: the thread in the emulator that
  takes input packets from the inherited socket (or, for older launchers, from a socket it binds)
  and turns them into touch and mouse events on the main looper.

  What the kernel answers to \<^verbatim>\<open>poll\<close> and \<^verbatim>\<open>recv\<close> is a script, one entry per turn of the
  loop; tasks posted to the main looper are values that \<open>deliver_packet\<close> runs later. The events
  handed to the user event agent are recorded.
\<close>

section \<open>State\<close>

record MouseState =
  mouseX :: i32
  mouseY :: i32

text \<open>
  A display has an entry in the map of mouse states only once it has a position, so the flag
  \<^verbatim>\<open>hasPosition\<close> is the presence of the entry.
\<close>

record input_receiver =
  inRunning :: bool
  inAgent :: bool
  inFd :: int
  inPath :: string
  inUsingInheritedFd :: bool
  inThread :: bool
  mMouseStates :: "(u32, MouseState) omap"

definition new_input_receiver :: input_receiver where
  "new_input_receiver =
     \<lparr>inRunning = False, inAgent = False, inFd = -1, inPath = [], inUsingInheritedFd = False,
      inThread = False, mMouseStates = []\<rparr>"

datatype user_event =
  Touch_event InputEventKind u32 i32 int i32 i32 i32 i32
| Mouse_event i32 i32 u32 u32

section \<open>Start and stop\<close>

text \<open>
  \<open>env_fd\<close> is the descriptor number in the environment variable, if it holds one; a number
  beyond \<^verbatim>\<open>long\<close> is clamped by \<^verbatim>\<open>strtol\<close> and fails the same range test.
\<close>

definition env_fd :: "string option \<Rightarrow> int option" where
  "env_fd v =
     (case v of
        None \<Rightarrow> None
      | Some t \<Rightarrow>
          (case scan_number (c_str t) of
             None \<Rightarrow> None
           | Some (neg, ds, rest) \<Rightarrow>
               let parsed = (if neg then - int (digits_value ds) else int (digits_value ds)) in
               if parsed \<ge> 0 \<and> parsed < 2 ^ 31 - 1 then Some parsed else None))"

definition fill_sockaddr :: "nat \<Rightarrow> string \<Rightarrow> string option" where
  "fill_sockaddr sun_path_size path =
     (if length (c_str path) = 0 \<or> length (c_str path) \<ge> sun_path_size then None
      else Some (take (sun_path_size - 1) (c_str path)))"

record input_env =
  fdVariable :: "string option"
  fdUsable :: "int \<Rightarrow> bool"
  pathVariable :: "string option"
  dgramSocket :: int
  dgramBind :: int

definition input_start :: "nat \<Rightarrow> input_env \<Rightarrow> bool \<Rightarrow> input_receiver \<Rightarrow> input_receiver \<times> lcall list" where
  "input_start sun_path_size env agent r =
     (if inRunning r then (r, [])
      else if \<not> agent then (r, [])
      else
        case env_fd (fdVariable env) of
          Some fd \<Rightarrow>
            if \<not> fdUsable env fd then (r, [])
            else (r\<lparr>inAgent := agent, inFd := fd, inPath := [], inUsingInheritedFd := True,
                     inRunning := True, inThread := True\<rparr>, [])
        | None \<Rightarrow>
            (case pathVariable env of
               None \<Rightarrow> (r, [])
             | Some path \<Rightarrow>
                 (case fill_sockaddr sun_path_size path of
                    None \<Rightarrow> (r, [])
                  | Some addr \<Rightarrow>
                      let fd = dgramSocket env in
                      if fd < 0 then (r, [Socket])
                      else if dgramBind env \<noteq> 0
                      then (r, [Socket, Unlink (c_str path), Bind fd addr, Close fd])
                      else
                        (r\<lparr>inAgent := agent, inPath := c_str path, inFd := fd,
                           inUsingInheritedFd := False, inRunning := True, inThread := True\<rparr>,
                         [Socket, Unlink (c_str path), Bind fd addr]))))"

definition input_stop :: "input_receiver \<Rightarrow> input_receiver \<times> lcall list" where
  "input_stop r =
     (if \<not> inRunning r then (r, [])
      else
        (r\<lparr>inRunning := False, inFd := -1, inThread := False\<rparr>,
         (if inFd r \<ge> 0 then [Close (inFd r)] else []) @
         (if \<not> inUsingInheritedFd r \<and> inPath r \<noteq> [] then [Unlink (inPath r)] else [])))"

section \<open>The loop\<close>

definition valid_packet :: "InputEventPacket \<Rightarrow> bool" where
  "valid_packet packet \<longleftrightarrow>
     (if inMagic packet \<noteq> kInputProtocolMagic \<or> inVersion packet \<noteq> kInputProtocolVersion then False
      else inKind packet \<ge> kind_code kTouchBegin \<and> inKind packet \<le> kind_code kMouseButton)"

text \<open>
  One turn: \<^verbatim>\<open>poll\<close> failed with an error number, had nothing to read, or there was a datagram
  (a longer one is cut off by \<^verbatim>\<open>recv\<close>) or an error to read.
\<close>

datatype turn = Poll_failed int | Nothing_ready | Datagram bytes | Recv_failed

definition post_packet :: "bool \<Rightarrow> InputEventPacket \<Rightarrow> InputEventPacket list" where
  "post_packet looper packet = (if \<not> looper then [] else [packet])"

definition receive_turn :: "bool \<Rightarrow> bytes \<Rightarrow> InputEventPacket list" where
  "receive_turn looper d =
     (let size = min (length d) packet_size; packet = decode_packet (take packet_size d) in
      if size \<noteq> packet_size then []
      else if \<not> valid_packet packet then []
      else post_packet looper packet)"

text \<open>
  The result is whether the loop has ended and the packets posted to the main looper.
\<close>

fun input_loop :: "bool \<Rightarrow> turn list \<Rightarrow> input_receiver \<Rightarrow> bool \<times> InputEventPacket list" where
  "input_loop looper [] r = (\<not> inRunning r, [])"
| "input_loop looper (t # ts) r =
     (if \<not> inRunning r then (True, [])
      else
        case t of
          Poll_failed e \<Rightarrow> if e = EINTR then input_loop looper ts r else (True, [])
        | Nothing_ready \<Rightarrow> input_loop looper ts r
        | Recv_failed \<Rightarrow> input_loop looper ts r
        | Datagram d \<Rightarrow>
            (let (ended, ps) = input_loop looper ts r in (ended, receive_turn looper d @ ps)))"

section \<open>Delivery on the main looper\<close>

text \<open>
  A kind outside the enumeration matches no case of the switch. The pressure, major and minor axes are constants of the protocol; the difference of two
  coordinates is kept at the width of an \<^verbatim>\<open>int\<close>.
\<close>

definition kind_of :: "u16 \<Rightarrow> InputEventKind option" where
  "kind_of w =
     (if w = 1 then Some kTouchBegin else if w = 2 then Some kTouchUpdate
      else if w = 3 then Some kTouchEnd else if w = 4 then Some kMouseMove
      else if w = 5 then Some kMouseButton else None)"

definition touch_event :: "InputEventKind \<Rightarrow> InputEventPacket \<Rightarrow> user_event" where
  "touch_event kind packet =
     Touch_event kind (inDisplayId packet) (inPointerId packet)
       (if kind = kTouchEnd then 0 else kInputTouchPressure)
       (inX packet) (inY packet) (inXGlobal packet) (inYGlobal packet)"

definition mouse_event :: "InputEventPacket \<Rightarrow> input_receiver \<Rightarrow> input_receiver \<times> user_event" where
  "mouse_event packet r =
     (let old = map_of (mMouseStates r) (inDisplayId packet);
          dx = (case old of None \<Rightarrow> 0 | Some st \<Rightarrow> inX packet - mouseX st);
          dy = (case old of None \<Rightarrow> 0 | Some st \<Rightarrow> inY packet - mouseY st);
          st' = \<lparr>mouseX = inX packet, mouseY = inY packet\<rparr> in
      (r\<lparr>mMouseStates := omap_put (inDisplayId packet) st' (mMouseStates r)\<rparr>,
       Mouse_event dx dy (inButtons packet) (inDisplayId packet)))"

definition deliver_packet ::
  "bool \<Rightarrow> InputEventPacket \<Rightarrow> input_receiver \<Rightarrow> input_receiver \<times> user_event list" where
  "deliver_packet agent packet r =
     (if \<not> agent then (r, [])
      else
        case kind_of (inKind packet) of
          None \<Rightarrow> (r, [])
        | Some kind \<Rightarrow>
            if kind \<in> {kTouchBegin, kTouchUpdate, kTouchEnd} then (r, [touch_event kind packet])
            else let (r', ev) = mouse_event packet r in (r', [ev]))"

fun deliver_packets ::
  "bool \<Rightarrow> InputEventPacket list \<Rightarrow> input_receiver \<Rightarrow> input_receiver \<times> user_event list" where
  "deliver_packets agent [] r = (r, [])"
| "deliver_packets agent (p # ps) r =
     (let (r1, e1) = deliver_packet agent p r; (r2, e2) = deliver_packets agent ps r1 in
      (r2, e1 @ e2))"

section \<open>Lemmas\<close>

lemma kind_of_code [simp]: "kind_of (kind_code k) = Some k"
  by (cases k) (simp_all add: kind_of_def)

lemma kind_code_range [simp]: "1 \<le> kind_code k" "kind_code k \<le> 5"
  by (cases k; simp)+

lemma valid_make_packet [simp]: "valid_packet (make_packet k d i x y b)"
  by (simp add: valid_packet_def make_packet_def)

lemma receive_encoded [simp]: "receive_turn looper (encode_packet p) =
    (if valid_packet p then post_packet looper p else [])"
  by (simp add: receive_turn_def Let_def)

lemma valid_kind_of: "valid_packet p \<Longrightarrow> kind_of (inKind p) \<noteq> None"
proof -
  assume "valid_packet p"
  then have "1 \<le> inKind p" and "inKind p \<le> 5"
    by (simp_all add: valid_packet_def split: if_splits)
  then have "1 \<le> unat (inKind p)" and "unat (inKind p) \<le> 5" by (simp_all add: word_le_nat_alt)
  then have "unat (inKind p) \<in> {1, 2, 3, 4, 5}" by auto
  then have "inKind p \<in> {1, 2, 3, 4, 5}" by (auto dest!: arg_cong [of _ _ "of_nat :: nat \<Rightarrow> u16"])
  then show ?thesis by (auto simp: kind_of_def)
qed

lemma input_loop_posts:
  "inRunning r \<Longrightarrow> \<forall>t \<in> set ts. (\<forall>e. t = Poll_failed e \<longrightarrow> e = EINTR) \<Longrightarrow>
     input_loop looper ts r =
       (False, concat (map (\<lambda>t. case t of Datagram d \<Rightarrow> receive_turn looper d | _ \<Rightarrow> []) ts))"
  by (induction ts) (auto split: turn.split)

lemma input_loop_sound:
  "p \<in> set (snd (input_loop looper ts r)) \<Longrightarrow> valid_packet p \<and> looper \<and>
     (\<exists>d. Datagram d \<in> set ts \<and> length d \<ge> packet_size \<and> p = decode_packet (take packet_size d))"
  by (induction ts)
    (auto simp: receive_turn_def post_packet_def Let_def case_prod_beta min_def
      split: turn.splits if_splits)


text \<open>The mouse packets of a display, and the distance the mouse events of it add up to.\<close>

definition mouse_packets :: "u32 \<Rightarrow> InputEventPacket list \<Rightarrow> InputEventPacket list" where
  "mouse_packets i ps =
     filter (\<lambda>p. kind_of (inKind p) \<in> {Some kMouseMove, Some kMouseButton} \<and> inDisplayId p = i) ps"

fun moved :: "u32 \<Rightarrow> user_event list \<Rightarrow> i32 \<times> i32" where
  "moved i [] = (0, 0)"
| "moved i (Mouse_event dx dy b d # es) =
     (let (x, y) = moved i es in if d = i then (dx + x, dy + y) else (x, y))"
| "moved i (e # es) = moved i es"

definition mouse_origin :: "u32 \<Rightarrow> InputEventPacket list \<Rightarrow> input_receiver \<Rightarrow> i32 \<times> i32" where
  "mouse_origin i moves r =
     (case map_of (mMouseStates r) i of
        None \<Rightarrow> (inX (hd moves), inY (hd moves))
      | Some st \<Rightarrow> (mouseX st, mouseY st))"

lemma moved_append [simp]:
  "moved i (es @ fs) = (fst (moved i es) + fst (moved i fs), snd (moved i es) + snd (moved i fs))"
  by (induction i es rule: moved.induct) (auto simp: Let_def case_prod_beta)

lemma deliver_irrelevant:
  assumes "mouse_packets i [p] = []"
  shows "moved i (snd (deliver_packet True p r)) = (0, 0)"
    and "map_of (mMouseStates (fst (deliver_packet True p r))) i = map_of (mMouseStates r) i"
  using assms
  by (auto simp: deliver_packet_def mouse_packets_def mouse_event_def touch_event_def Let_def
      split: option.splits if_splits) (metis InputEventKind.exhaust)+

lemma deliver_mouse:
  assumes "mouse_packets i [p] = [p]"
  shows "moved i (snd (deliver_packet True p r)) =
           (inX p - fst (mouse_origin i [p] r), inY p - snd (mouse_origin i [p] r))"
    and "map_of (mMouseStates (fst (deliver_packet True p r))) i =
           Some \<lparr>mouseX = inX p, mouseY = inY p\<rparr>"
  using assms
  by (auto simp: deliver_packet_def mouse_packets_def mouse_event_def mouse_origin_def Let_def
      split: option.splits if_splits)

lemma deliver_packets_moved:
  "moved i (snd (deliver_packets True ps r)) =
     (let moves = mouse_packets i ps in
      if moves = [] then (0, 0)
      else (inX (last moves) - fst (mouse_origin i moves r),
            inY (last moves) - snd (mouse_origin i moves r)))"
proof (induction ps arbitrary: r)
  case Nil
  then show ?case by (simp add: mouse_packets_def)
next
  case (Cons p ps)
  let ?r1 = "fst (deliver_packet True p r)"
  have split: "moved i (snd (deliver_packets True (p # ps) r)) =
      (fst (moved i (snd (deliver_packet True p r))) + fst (moved i (snd (deliver_packets True ps ?r1))),
       snd (moved i (snd (deliver_packet True p r))) + snd (moved i (snd (deliver_packets True ps ?r1))))"
    by (simp add: Let_def case_prod_beta)
  show ?case
  proof (cases "mouse_packets i [p] = []")
    case True
    then have m: "mouse_packets i (p # ps) = mouse_packets i ps"
      by (simp add: mouse_packets_def split: if_splits)
    show ?thesis
      unfolding split m Cons.IH deliver_irrelevant(1) [OF True]
      by (simp add: Let_def mouse_origin_def deliver_irrelevant(2) [OF True])
  next
    case False
    then have p: "mouse_packets i [p] = [p]" and m: "mouse_packets i (p # ps) = p # mouse_packets i ps"
      by (simp_all add: mouse_packets_def split: if_splits)
    show ?thesis
      unfolding split m Cons.IH deliver_mouse(1) [OF p]
      by (simp add: Let_def mouse_origin_def deliver_mouse(2) [OF p] split: option.split)
  qed
qed

lemma deliver_one_event:
  "valid_packet p \<Longrightarrow> length (snd (deliver_packet True p r)) = 1"
  using valid_kind_of [of p] by (auto simp: deliver_packet_def case_prod_beta)

lemma deliver_valid_packets:
  "list_all valid_packet ps \<Longrightarrow> length (snd (deliver_packets True ps r)) = length ps"
  by (induction ps arbitrary: r) (simp_all add: case_prod_beta deliver_one_event)

section \<open>Properties\<close>



text \<open>
  Relative mouse motion loses nothing: over any sequence of delivered packets, the motion the
  agent is told for a display adds up, per axis and at the width of the coordinates, to the last
  position sent minus the position before the sequence (the first one, when there was none).
\<close>

theorem mouse_motion_adds_up:
  "moved i (snd (deliver_packets True ps r)) =
     (if mouse_packets i ps = [] then (0, 0)
      else (inX (last (mouse_packets i ps)) - fst (mouse_origin i (mouse_packets i ps) r),
            inY (last (mouse_packets i ps)) - snd (mouse_origin i (mouse_packets i ps) r)))"
  using deliver_packets_moved [of i ps r] by (simp add: Let_def)

end
