(* ===== verification/Guest_Control.thy ===== *)
theory Guest_Control
  imports Pending_Table Stream_IO Posix_Util Text_Util
begin

text \<open>
  \<^verbatim>\<open>shell/core/guest_control_client.{h,cpp}\<close>: the line protocol between the shell and the agent
  inside the guest. The shell listens on a socket, the agent connects, requests are lines
  \<^verbatim>\<open><id> <command>\<close>, responses are lines \<^verbatim>\<open><id> ok|err [text]\<close>, and an APK is a header line
  followed by its raw bytes.

  The connection is scripted as in \<^verbatim>\<open>Stream_IO\<close>: one entry per system call that returns. The
  write mutex makes the writing part of a request one step; a request that finds the mutex taken
  during a transfer fails, otherwise it waits for it, so the model starts when the mutex is held.
  User callbacks are numbers; what is called, written, closed and unlinked is observed.
\<close>

section \<open>State\<close>

definition kMaximumApkBytes :: int where "kMaximumApkBytes = 2 * 1024 * 1024 * 1024"
definition kApkTransferBufferBytes :: nat where "kApkTransferBufferBytes = 256 * 1024"

datatype gobs =
    G_called nat bool string
  | G_connection bool
  | G_wrote bytes
  | G_shutdown int
  | G_closed int
  | G_unlink string
  | G_listener "lcall list"

record gclient =
  socketPath :: string
  listenFd :: int
  clientFd :: int
  gStopRequested :: bool
  acceptThread :: bool
  fileTransferActive :: bool
  connectionCallback :: bool
  gPending :: "(u64, nat) table"
  gNextRequestId :: u64

definition new_gclient :: gclient where
  "new_gclient =
     \<lparr>socketPath = [], listenFd = -1, clientFd = -1, gStopRequested = False, acceptThread = False,
      fileTransferActive = False, connectionCallback = False, gPending = [], gNextRequestId = 1\<rparr>"

definition gready :: "gclient \<Rightarrow> bool" where
  "gready c \<longleftrightarrow> clientFd c \<ge> 0"

definition call_all :: "nat list \<Rightarrow> bool \<Rightarrow> string \<Rightarrow> gobs list" where
  "call_all cbs ok text = map (\<lambda>n. G_called n ok text) cbs"

definition guest_fail_all :: "string \<Rightarrow> gclient \<Rightarrow> gclient \<times> gobs list" where
  "guest_fail_all message c =
     (let (cbs, t) = fail_all (gPending c) in (c\<lparr>gPending := t\<rparr>, call_all cbs False message))"

definition guest_sweep :: "u64 \<Rightarrow> gclient \<Rightarrow> gclient \<times> gobs list" where
  "guest_sweep now c =
     (let (cbs, t) = sweep_timeouts now (gPending c) in
      (c\<lparr>gPending := t\<rparr>, call_all cbs False ''guest request timed out''))"

text \<open>
  Taking the callback of a request out of the table and calling it, which a response and the
  failure paths of requests and transfers share.
\<close>

definition answer :: "u64 \<Rightarrow> bool \<Rightarrow> string \<Rightarrow> gclient \<Rightarrow> gclient \<times> gobs list" where
  "answer requestId ok text c =
     (let (cbk, t) = take_pending requestId (gPending c) in
      (c\<lparr>gPending := t\<rparr>, case cbk of None \<Rightarrow> [] | Some n \<Rightarrow> [G_called n ok text]))"

text \<open>Taking an id and registering the callback.\<close>

definition register :: "u64 \<Rightarrow> u64 \<Rightarrow> nat option \<Rightarrow> gclient \<Rightarrow> u64 \<times> gclient" where
  "register now timeout_ms cbk c =
     (let requestId = gNextRequestId c; c1 = c\<lparr>gNextRequestId := requestId + 1\<rparr> in
      (requestId,
       case cbk of
         None \<Rightarrow> c1
       | Some n \<Rightarrow> c1\<lparr>gPending := add now requestId (Some n) timeout_ms (gPending c1)\<rparr>))"

definition call_opt :: "nat option \<Rightarrow> string \<Rightarrow> gobs list" where
  "call_opt cbk message = (case cbk of None \<Rightarrow> [] | Some n \<Rightarrow> [G_called n False message])"

section \<open>Requests\<close>

definition request_line :: "u64 \<Rightarrow> string \<Rightarrow> string" where
  "request_line requestId command = decimal (unat requestId) @ '' '' @ command @ [newline]"

text \<open>The part of a request under the write mutex.\<close>

definition send_line :: "tx list \<Rightarrow> u64 \<Rightarrow> string \<Rightarrow> gclient \<Rightarrow> gclient \<times> gobs list" where
  "send_line s requestId line c =
     (if fileTransferActive c then answer requestId False ''APK transfer in progress'' c
      else if clientFd c < 0 then answer requestId False ''guest control write failed'' c
      else
        case write_all s (bytes_of line) of
          Tx_blocked d \<Rightarrow> (c, [G_wrote d])
        | Sent True d s' \<Rightarrow> (c, [G_wrote d])
        | Sent False d s' \<Rightarrow>
            let (c1, out) = answer requestId False ''guest control write failed'' c in
            (c1, G_wrote d # out))"

definition guest_request ::
  "u64 \<Rightarrow> tx list \<Rightarrow> string \<Rightarrow> u64 \<Rightarrow> nat option \<Rightarrow> gclient \<Rightarrow> gclient \<times> gobs list" where
  "guest_request now s command timeout_ms cbk c =
     (if clientFd c < 0 then (c, call_opt cbk ''guest agent not connected'')
      else
        let (requestId, c1) = register now timeout_ms cbk c in
        send_line s requestId (request_line requestId command) c1)"

section \<open>APK transfer\<close>

text \<open>
  The file is the bytes that can be read from it; a read returns at most what it was asked for and
  may return less, be interrupted or fail. The size was taken before, so the file may turn out
  shorter (a read then returns nothing) or longer (the rest is not read).
\<close>

datatype fread = F_read nat | F_interrupted | F_failed

datatype copied = Copy_blocked bytes | Copied bool bytes nat

fun copied_prepend :: "bytes \<Rightarrow> copied \<Rightarrow> copied" where
  "copied_prepend p (Copy_blocked d) = Copy_blocked (p @ d)"
| "copied_prepend p (Copied failed d n) = Copied failed (p @ d) n"

fun copy_apk :: "bool \<Rightarrow> fread list \<Rightarrow> tx list \<Rightarrow> bytes \<Rightarrow> nat \<Rightarrow> copied" where
  "copy_apk stopped [] s file remaining =
     (if remaining = 0 \<or> stopped then Copied False [] remaining else Copy_blocked [])"
| "copy_apk stopped (r # rs) s file remaining =
     (if remaining = 0 \<or> stopped then Copied False [] remaining
      else
        case r of
          F_interrupted \<Rightarrow> copy_apk stopped rs s file remaining
        | F_failed \<Rightarrow> Copied True [] remaining
        | F_read n \<Rightarrow>
            let wanted = min remaining kApkTransferBufferBytes; chunk = take (min n wanted) file in
            if chunk = [] then Copied True [] remaining
            else
              (case write_all s chunk of
                 Tx_blocked d \<Rightarrow> Copy_blocked d
               | Sent True d s' \<Rightarrow>
                   copied_prepend d (copy_apk stopped rs s' (drop (length chunk) file)
                     (remaining - length chunk))
               | Sent False d s' \<Rightarrow> Copied True d (remaining - length chunk)))"

definition install_header :: "u64 \<Rightarrow> nat \<Rightarrow> string" where
  "install_header requestId apkSize =
     decimal (unat requestId) @ '' install '' @ decimal apkSize @ [newline]"

text \<open>Everything sent under the write mutex: the header and then the file.\<close>

definition send_apk :: "bool \<Rightarrow> fread list \<Rightarrow> tx list \<Rightarrow> string \<Rightarrow> bytes \<Rightarrow> nat \<Rightarrow> copied" where
  "send_apk stopped rs s header file apkSize =
     (case write_all s (bytes_of header) of
        Tx_blocked d \<Rightarrow> Copy_blocked d
      | Sent False d s' \<Rightarrow> Copied True d apkSize
      | Sent True d s' \<Rightarrow> copied_prepend d (copy_apk stopped rs s' file apkSize))"

text \<open>
  The transfer itself, with the state when the write mutex is held. A transfer that waits in a
  system call keeps its flag and leaves the callback registered.
\<close>

definition transfer_apk :: "int \<Rightarrow> bytes \<Rightarrow> fread list \<Rightarrow> tx list \<Rightarrow> u64 \<Rightarrow> nat \<Rightarrow> gclient \<Rightarrow> gclient \<times> gobs list" where
  "transfer_apk apkFd file rs s requestId apkSize c =
     (let fd = clientFd c;
          released = c\<lparr>fileTransferActive := False\<rparr>;
          (gone, called) = answer requestId False ''APK transfer failed'' released in
      if fd < 0 then (gone, G_closed apkFd # called)
      else
        case send_apk (gStopRequested c) rs s (install_header requestId apkSize) file apkSize of
          Copy_blocked d \<Rightarrow> (c, [G_wrote d])
        | Copied failed d remaining \<Rightarrow>
            if failed \<or> remaining \<noteq> 0
            then (gone, [G_wrote d, G_shutdown fd, G_closed apkFd] @ called)
            else (released, [G_wrote d, G_closed apkFd]))"

text \<open>
  \<open>apkFd\<close> and \<open>openError\<close> are the result of \<^verbatim>\<open>open\<close>, \<open>stat\<close> the result of
  \<^verbatim>\<open>fstat\<close>: whether the file is regular, and its size.
\<close>

definition install_apk ::
  "u64 \<Rightarrow> int \<Rightarrow> string \<Rightarrow> (bool \<times> int) option \<Rightarrow> bytes \<Rightarrow> fread list \<Rightarrow> tx list \<Rightarrow> u64 \<Rightarrow> nat option \<Rightarrow>
     gclient \<Rightarrow> gclient \<times> gobs list" where
  "install_apk now apkFd openError stat file rs s timeout_ms cbk c =
     (if fileTransferActive c
      then (c, call_opt cbk ''another APK transfer is already in progress'')
      else if apkFd < 0 then (c, call_opt cbk (''could not open APK: '' @ openError))
      else
        case stat of
          None \<Rightarrow> (c, G_closed apkFd # call_opt cbk ''APK must be a non-empty regular file'')
        | Some (regular, st_size) \<Rightarrow>
            if \<not> regular \<or> st_size \<le> 0
            then (c, G_closed apkFd # call_opt cbk ''APK must be a non-empty regular file'')
            else if st_size > kMaximumApkBytes
            then (c, G_closed apkFd # call_opt cbk ''APK exceeds the 2 GiB transfer limit'')
            else if clientFd c < 0
            then (c, G_closed apkFd # call_opt cbk ''guest agent not connected'')
            else
              let (requestId, c1) = register now timeout_ms cbk (c\<lparr>fileTransferActive := True\<rparr>) in
              transfer_apk apkFd file rs s requestId (nat st_size) c1)"

section \<open>Responses\<close>

text \<open>\<open>rest\<close> begins with the word, and the word ends there or is followed by a blank.\<close>

definition word_then :: "string \<Rightarrow> string \<Rightarrow> bool" where
  "word_then w rest \<longleftrightarrow>
     starts_with w rest \<and> (drop (length w) rest = [] \<or> hd (drop (length w) rest) = CHR '' '')"

definition skip_blank :: "string \<Rightarrow> string" where
  "skip_blank rest = (case rest of [] \<Rightarrow> [] | c # cs \<Rightarrow> if c = CHR '' '' then cs else rest)"

definition parse_response :: "string \<Rightarrow> (u64 \<times> bool \<times> string) option" where
  "parse_response line =
     (case strtoull (c_str line) of
        None \<Rightarrow> None
      | Some (i, out_of_range, end) \<Rightarrow>
          if out_of_range \<or> end = [] \<or> hd end \<noteq> CHR '' '' then None
          else
            let rest = tl end in
            if word_then ''ok'' rest then Some (i, True, skip_blank (drop 2 rest))
            else if word_then ''err'' rest then Some (i, False, skip_blank (drop 3 rest))
            else None)"

definition handle_line :: "string \<Rightarrow> gclient \<Rightarrow> gclient \<times> gobs list" where
  "handle_line line c =
     (case parse_response line of
        None \<Rightarrow> (c, [])
      | Some (i, ok, text) \<Rightarrow> answer i ok text c)"

text \<open>A carriage return before the end of the line is dropped, and an empty line is skipped.\<close>

definition strip_cr :: "string \<Rightarrow> string" where
  "strip_cr line = (if line \<noteq> [] \<and> last line = CHR 0x0D then butlast line else line)"

definition one_line :: "string \<Rightarrow> gclient \<Rightarrow> gclient \<times> gobs list" where
  "one_line line c = (let l = strip_cr line in if l \<noteq> [] then handle_line l c else (c, []))"

text \<open>The inner loop: handle every complete line of the buffer; what is left is returned.\<close>

function handle_buffer :: "string \<Rightarrow> gclient \<Rightarrow> string \<times> gclient \<times> gobs list" where
  "handle_buffer buffer c =
     (if newline \<notin> set buffer then (buffer, c, [])
      else
        let line = takeWhile (\<lambda>x. x \<noteq> newline) buffer;
            (c1, o1) = one_line line c;
            (rest, c2, o2) = handle_buffer (drop (Suc (length line)) buffer) c1 in
        (rest, c2, o1 @ o2))"
  by pat_completeness auto

termination handle_buffer
  by (relation "measure (\<lambda>(b, c). length b)") (auto dest: length_pos_if_in_set)

declare handle_buffer.simps [simp del]

text \<open>One turn of the connection loop: what \<^verbatim>\<open>poll\<close> and \<^verbatim>\<open>read\<close> return.\<close>

datatype gturn = G_idle | G_poll_failed bool | G_read_interrupted | G_read_end | G_chunk string

definition kMaximumLine :: nat where "kMaximumLine = 4 * 2 ^ 20"

text \<open>
  The result is whether the loop returned, the bytes that wait for the end of their line, the state
  and the observations. The flag of \<open>G_poll_failed\<close> is whether the call was interrupted.
\<close>

fun serve_connection :: "(u64 \<times> gturn) list \<Rightarrow> string \<Rightarrow> gclient \<Rightarrow> bool \<times> string \<times> gclient \<times> gobs list" where
  "serve_connection [] buffer c = (gStopRequested c, buffer, c, [])"
| "serve_connection ((now, t) # ts) buffer c =
     (if gStopRequested c then (True, buffer, c, [])
      else
        case t of
          G_idle \<Rightarrow>
            let (c1, o1) = guest_sweep now c; (e, b, c2, o2) = serve_connection ts buffer c1 in
            (e, b, c2, o1 @ o2)
        | G_poll_failed interrupted \<Rightarrow>
            if interrupted then serve_connection ts buffer c else (True, buffer, c, [])
        | G_read_interrupted \<Rightarrow> serve_connection ts buffer c
        | G_read_end \<Rightarrow> (True, buffer, c, [])
        | G_chunk chunk \<Rightarrow>
            let (rest, c1, o1) = handle_buffer (buffer @ chunk) c in
            if length rest > kMaximumLine then (True, rest, c1, o1)
            else
              let (e, b, c2, o2) = serve_connection ts rest c1 in (e, b, c2, o1 @ o2))"

section \<open>The accept thread and the life cycle\<close>

definition disconnect :: "int \<Rightarrow> gclient \<Rightarrow> gclient \<times> gobs list" where
  "disconnect fd c =
     (let disconnected = (clientFd c = fd);
          c1 = (if disconnected then c\<lparr>clientFd := -1\<rparr> else c);
          o1 = (if fd \<ge> 0 then [G_closed fd] else []);
          (c2, o2) = guest_fail_all ''guest agent disconnected'' c1 in
      (c2, o1 @ o2 @ (if disconnected \<and> connectionCallback c2 then [G_connection False] else [])))"

text \<open>
  What \<^verbatim>\<open>accept\<close> returns: an error, or a descriptor with the results of the close-on-exec call
  and of the handshake and the turns of the connection.
\<close>

datatype incoming_connection = Accept_failed | Accept_fd int bool bool "(u64 \<times> gturn) list"

fun accept_thread :: "incoming_connection list \<Rightarrow> gclient \<Rightarrow> gclient \<times> gobs list" where
  "accept_thread [] c = (c, [])"
| "accept_thread (a # rest) c =
     (if gStopRequested c \<or> listenFd c < 0 then (c, [])
      else
        case a of
          Accept_failed \<Rightarrow> accept_thread rest c
        | Accept_fd fd cloexec handshake turns \<Rightarrow>
            if \<not> cloexec \<or> \<not> handshake then
              (let (c1, o1) = accept_thread rest c in (c1, G_closed fd # o1))
            else
              let c1 = c\<lparr>clientFd := fd\<rparr>;
                  o1 = (if connectionCallback c1 then [G_connection True] else []);
                  (returned, b, c2, o2) = serve_connection turns [] c1 in
              if \<not> returned then (c2, o1 @ o2)
              else
                let (c3, o3) = disconnect fd c2; (c4, o4) = accept_thread rest c3 in
                (c4, o1 @ o2 @ o3 @ o4))"

text \<open>
  \<open>stop\<close> joins the accept thread. A connection that is open is shut down, so its loop returns
  and the thread disconnects it.
\<close>

definition guest_stop :: "nat \<Rightarrow> listener_env \<Rightarrow> gclient \<Rightarrow> gclient \<times> gobs list" where
  "guest_stop sun_path_size env c =
     (let c1 = c\<lparr>gStopRequested := True, listenFd := -1\<rparr>;
          o1 = (if listenFd c \<ge> 0 then [G_shutdown (listenFd c), G_closed (listenFd c)] else []);
          o2 = [G_listener (wake_unix_listener sun_path_size env (socketPath c1))];
          o3 = (if clientFd c1 \<ge> 0 then [G_shutdown (clientFd c1)] else []);
          (c2, o4) = (if acceptThread c1 \<and> clientFd c1 \<ge> 0 then disconnect (clientFd c1) c1 else (c1, []));
          c3 = c2\<lparr>acceptThread := False\<rparr>;
          (c4, o5) = (if socketPath c3 \<noteq> [] then (c3\<lparr>socketPath := []\<rparr>, [G_unlink (socketPath c3)])
                      else (c3, []));
          (c5, o6) = guest_fail_all ''guest control client stopped'' c4 in
      (c5\<lparr>connectionCallback := False\<rparr>, o1 @ o2 @ o3 @ o4 @ o5 @ o6))"

definition guest_start ::
  "nat \<Rightarrow> listener_env \<Rightarrow> string \<Rightarrow> bool \<Rightarrow> gclient \<Rightarrow> bool \<times> gclient \<times> gobs list" where
  "guest_start sun_path_size env path on_connection_changed c =
     (let (c1, o1) = guest_stop sun_path_size env c;
          (fd, calls) = create_unix_listener sun_path_size env path in
      if fd < 0 then (False, c1, o1 @ [G_listener calls])
      else
        (True,
         c1\<lparr>socketPath := path, connectionCallback := on_connection_changed,
             gStopRequested := False, listenFd := fd, acceptThread := True\<rparr>,
         o1 @ [G_listener calls]))"

section \<open>Lemmas: callbacks\<close>

text \<open>The callbacks an observation list calls.\<close>

fun gcalled :: "gobs list \<Rightarrow> nat list" where
  "gcalled [] = []"
| "gcalled (G_called n ok text # es) = n # gcalled es"
| "gcalled (e # es) = gcalled es"

lemma gcalled_append [simp]: "gcalled (xs @ ys) = gcalled xs @ gcalled ys"
  by (induction xs rule: gcalled.induct) auto

lemma gcalled_call_all [simp]: "gcalled (call_all ns ok text) = ns"
  by (induction ns) (auto simp: call_all_def)

text \<open>The table is ordered, and the ids in it have been given out.\<close>

definition ids_ok :: "gclient \<Rightarrow> bool" where
  "ids_ok c \<longleftrightarrow> ordered_keys (gPending c) \<and> (\<forall>k \<in> waiting (gPending c). k < gNextRequestId c)"

text \<open>
  What a step that gives out no id does with callbacks: those waiting before, and those it was
  given, are called or wait afterwards.
\<close>

definition fine :: "nat list \<Rightarrow> gclient \<Rightarrow> gclient \<times> gobs list \<Rightarrow> bool" where
  "fine new c r \<longleftrightarrow>
     (ids_ok c \<longrightarrow>
        ids_ok (fst r) \<and> gNextRequestId (fst r) = gNextRequestId c \<and>
        outstanding (gPending c) + mset new = mset (gcalled (snd r)) + outstanding (gPending (fst r)))"

lemma fine_idle:
  "gPending c' = gPending c \<Longrightarrow> gNextRequestId c' = gNextRequestId c \<Longrightarrow> gcalled es = new \<Longrightarrow>
     fine new c (c', es)"
  by (simp add: fine_def ids_ok_def)

lemma fine_seq:
  "fine [] c r \<Longrightarrow> fine [] (fst r) r' \<Longrightarrow> fine [] c (fst r', snd r @ snd r')"
  by (simp add: fine_def add.assoc)

text \<open>Fields other than the table and the counter do not matter.\<close>

lemma fine_frame:
  assumes "fine new c r" and "gPending b = gPending c" and "gNextRequestId b = gNextRequestId c"
    and "gPending b' = gPending (fst r)" and "gNextRequestId b' = gNextRequestId (fst r)"
    and "gcalled es' = gcalled (snd r)"
  shows "fine new b (b', es')"
  using assms by (auto simp: fine_def ids_ok_def)

lemma fine_answer: "fine [] c (answer i ok m c)"
  using take_pending_split [of "gPending c" i]
  by (auto simp: answer_def fine_def ids_ok_def case_prod_beta split: option.split)

lemma fine_sweep: "fine [] c (guest_sweep now c)"
  using sweep_timeouts_split [of "gPending c" now] waiting_sweep_timeouts [of now "gPending c"]
  by (auto simp: guest_sweep_def fine_def ids_ok_def case_prod_beta)

lemma fine_fail_all: "fine [] c (guest_fail_all m c)"
  using fail_all_split [of "gPending c"]
  by (auto simp: guest_fail_all_def fine_def ids_ok_def case_prod_beta)

lemma fine_one_line: "fine [] c (one_line l c)"
  by (auto simp: one_line_def handle_line_def Let_def fine_idle intro: fine_answer split: option.split)

lemma fine_handle_buffer: "fine [] c (snd (handle_buffer b c))"
proof (induction "length b" arbitrary: b c rule: less_induct)
  case less
  show ?case
  proof (cases "newline \<in> set b")
    case True
    let ?l = "takeWhile (\<lambda>x. x \<noteq> newline) b"
    have "length (drop (Suc (length ?l)) b) < length b"
      using True by (auto dest: length_pos_if_in_set)
    from fine_seq [OF fine_one_line less [OF this], of c ?l] True show ?thesis
      by (simp add: handle_buffer.simps [of b] Let_def case_prod_beta)
  qed (simp add: handle_buffer.simps fine_idle)
qed

lemma fine_serve: "fine [] c (snd (snd (serve_connection ts b c)))"
proof (induction ts arbitrary: b c)
  case Nil
  then show ?case by (simp add: fine_idle)
next
  case (Cons t ts)
  obtain now g where t: "t = (now, g)" by (cases t)
  show ?case
    using fine_seq [OF fine_sweep [of c now] Cons [of _ b]] Cons [of c b]
      fine_seq [OF fine_handle_buffer [of c] Cons] fine_handle_buffer [of c]
    by (auto simp: t fine_idle Let_def case_prod_beta split: gturn.split)
qed

lemma fine_disconnect: "fine [] c (disconnect fd c)"
  unfolding disconnect_def Let_def case_prod_beta
  by (rule fine_frame [OF fine_fail_all [of c "''guest agent disconnected''"]])
    (auto simp: guest_fail_all_def case_prod_beta)

lemma fine_accept: "fine [] c (accept_thread as c)"
proof (induction as arbitrary: c)
  case Nil
  then show ?case by (simp add: fine_idle)
next
  case (Cons a as)
  show ?case
  proof (cases a)
    case (Accept_fd fd cloexec handshake turns)
    let ?c1 = "c\<lparr>clientFd := fd\<rparr>"
    let ?s = "serve_connection turns [] ?c1"
    have serve: "fine [] c (fst (snd (snd ?s)), es @ snd (snd (snd ?s)))" if "gcalled es = []" for es
      by (rule fine_frame [OF fine_serve [of ?c1 turns "[]"]]) (simp_all add: that)
    show ?thesis
      using fine_seq [OF fine_seq [OF serve fine_disconnect] Cons]
        fine_frame [OF Cons [of c], of c "fst (accept_thread as c)" "G_closed fd # snd (accept_thread as c)"]
        serve
      by (auto simp: Accept_fd fine_idle Let_def case_prod_beta)
  qed (use Cons in \<open>simp add: fine_idle\<close>)
qed

lemma fine_stop: "fine [] c (guest_stop n env c)"
proof -
  let ?c1 = "c\<lparr>gStopRequested := True, listenFd := -1\<rparr>"
  let ?d = "if acceptThread ?c1 \<and> clientFd ?c1 \<ge> 0 then disconnect (clientFd ?c1) ?c1 else (?c1, [])"
  let ?c3 = "(fst ?d)\<lparr>acceptThread := False, socketPath := []\<rparr>"
  have d: "fine [] c (?c3, snd ?d)"
    by (rule fine_frame [of _ ?c1 ?d]) (simp_all add: fine_disconnect fine_idle)
  have e: "guest_fail_all m (x\<lparr>acceptThread := False\<rparr>) =
      ((fst (guest_fail_all m x))\<lparr>acceptThread := False\<rparr>, snd (guest_fail_all m x))"
    and f: "guest_fail_all m (x\<lparr>socketPath := p\<rparr>) =
      ((fst (guest_fail_all m x))\<lparr>socketPath := p\<rparr>, snd (guest_fail_all m x))" for m x p
    by (simp_all add: guest_fail_all_def case_prod_beta)
  show ?thesis
    unfolding guest_stop_def Let_def case_prod_beta
    by (rule fine_frame [OF fine_seq [OF d fine_fail_all [of _ "''guest control client stopped''"]]])
      (auto simp: e f)
qed

lemma fine_start: "fine [] c (snd (guest_start n env path cb c))"
  by (auto simp: guest_start_def Let_def case_prod_beta
      intro!: fine_frame [OF fine_stop [of c n env]])

lemma answer_false_pair: "(fst (answer i False m c), es @ snd (answer i False m c)) =
    (let (c1, out) = answer i False m c in (c1, es @ out))"
  by (simp add: case_prod_beta)

lemma fine_send_line: "fine [] c (send_line s i l c)"
  by (auto simp: send_line_def case_prod_beta fine_idle
      intro!: fine_answer fine_frame [OF fine_answer [of c i False "''guest control write failed''"]]
      split: sent.split bool.split)

lemma fine_transfer: "fine [] c (transfer_apk apkFd file rs s i n c)"
proof -
  let ?a = "answer i False ''APK transfer failed'' (c\<lparr>fileTransferActive := False\<rparr>)"
  have a: "fine [] c (fst ?a, es @ snd ?a)" if "gcalled es = []" for es
    by (rule fine_frame [OF fine_answer]) (simp_all add: that)
  show ?thesis
    using a [of "[G_closed apkFd]"] a [of "[G_wrote _, G_shutdown _, G_closed apkFd]"]
    by (auto simp: transfer_apk_def Let_def case_prod_beta fine_idle split: copied.split)
qed

section \<open>Lemmas: histories of the client\<close>

text \<open>
  Everything that happens to the client, in any order: requests and transfers (as a whole, or their
  registration and their writing part apart, as other threads may see them), the accept thread,
  single turns of a connection, disconnects, starts and stops.
\<close>

datatype gop =
    GRequest u64 "tx list" string u64 "nat option"
  | GInstall u64 int string "(bool \<times> int) option" bytes "fread list" "tx list" u64 "nat option"
  | GRegister u64 u64 "nat option"
  | GSend "tx list" u64 string
  | GTransfer int bytes "fread list" "tx list" u64 nat
  | GServe "(u64 \<times> gturn) list" string
  | GAccept "incoming_connection list"
  | GDisconnect int
  | GStart nat listener_env string bool
  | GStop nat listener_env

fun gstep :: "gop \<Rightarrow> gclient \<Rightarrow> gclient \<times> gobs list" where
  "gstep (GRequest now s command tmo cbk) c = guest_request now s command tmo cbk c"
| "gstep (GInstall now fd e st file rs s tmo cbk) c = install_apk now fd e st file rs s tmo cbk c"
| "gstep (GRegister now tmo cbk) c = (snd (register now tmo cbk c), [])"
| "gstep (GSend s i l) c = send_line s i l c"
| "gstep (GTransfer fd file rs s i n) c = transfer_apk fd file rs s i n c"
| "gstep (GServe ts b) c = snd (snd (serve_connection ts b c))"
| "gstep (GAccept as) c = accept_thread as c"
| "gstep (GDisconnect fd) c = disconnect fd c"
| "gstep (GStart n env path cb) c = snd (guest_start n env path cb c)"
| "gstep (GStop n env) c = guest_stop n env c"

fun grequested :: "gop \<Rightarrow> nat list" where
  "grequested (GRequest now s command tmo cbk) = nonempty [cbk]"
| "grequested (GInstall now fd e st file rs s tmo cbk) = nonempty [cbk]"
| "grequested (GRegister now tmo cbk) = nonempty [cbk]"
| "grequested x = []"

fun grun :: "gop list \<Rightarrow> gclient \<Rightarrow> gclient \<times> gobs list" where
  "grun [] c = (c, [])"
| "grun (x # xs) c = (let (c1, o1) = gstep x c; (c2, o2) = grun xs c1 in (c2, o1 @ o2))"

text \<open>A step that may give out one id.\<close>

definition good :: "nat list \<Rightarrow> gclient \<Rightarrow> gclient \<times> gobs list \<Rightarrow> bool" where
  "good new c r \<longleftrightarrow>
     (ids_ok c \<and> gNextRequestId c \<noteq> - 1 \<longrightarrow>
        ids_ok (fst r) \<and> gNextRequestId (fst r) \<in> {gNextRequestId c, gNextRequestId c + 1} \<and>
        outstanding (gPending c) + mset new = mset (gcalled (snd r)) + outstanding (gPending (fst r)))"

lemma fine_good: "fine new c r \<Longrightarrow> good new c r"
  by (auto simp: fine_def good_def)

lemma gcalled_call_opt [simp]: "gcalled (call_opt cbk m) = nonempty [cbk]"
  by (cases cbk) (auto simp: call_opt_def)

lemma register_good: "good (nonempty [cbk]) c (snd (register now tmo cbk c), [])"
proof -
  have lt: "k < gNextRequestId c \<Longrightarrow> k < gNextRequestId c + 1" and self: "gNextRequestId c < gNextRequestId c + 1"
    if "gNextRequestId c \<noteq> - 1" for k
  proof -
    have "unat (gNextRequestId c + 1) = unat (gNextRequestId c) + 1"
      using that by (metis Suc_eq_plus1 add.commute add_eq_0_iff unatSuc)
    then show "k < gNextRequestId c \<Longrightarrow> k < gNextRequestId c + 1" "gNextRequestId c < gNextRequestId c + 1"
      by (simp_all add: word_less_nat_alt)
  qed
  show ?thesis
    using lt self
    by (auto simp: good_def register_def ids_ok_def outstanding_add Let_def split: option.split)
qed

lemma good_then_fine:
  "good new c (c1, []) \<Longrightarrow> fine [] c1 r \<Longrightarrow> good new c r"
  by (auto simp: good_def fine_def)

lemma gstep_good: "good (grequested x) c (gstep x c)"
proof (cases x)
  case (GRequest now s command tmo cbk)
  then show ?thesis
    by (auto simp: guest_request_def case_prod_beta
        intro!: fine_good [OF fine_idle] good_then_fine [OF register_good fine_send_line])
next
  case (GInstall now fd e st f rs s tmo cbk)
  have "good (nonempty [cbk]) c (snd (register now tmo cbk (c\<lparr>fileTransferActive := True\<rparr>)), [])"
    using register_good [of cbk "c\<lparr>fileTransferActive := True\<rparr>" now tmo]
    by (simp add: good_def ids_ok_def)
  from good_then_fine [OF this fine_transfer] GInstall show ?thesis
    by (auto simp: install_apk_def case_prod_beta fine_good [OF fine_idle] split: option.split)
next
  case (GRegister now tmo cbk)
  then show ?thesis using register_good by simp
qed (auto intro!: fine_good fine_send_line fine_transfer fine_serve fine_accept fine_disconnect
      fine_start fine_stop)

lemma grun_conserves:
  assumes "ids_ok c" and "unat (gNextRequestId c) + length xs < 2 ^ 64 - 1"
  shows "outstanding (gPending c) + mset (concat (map grequested xs)) =
           mset (gcalled (snd (grun xs c))) + outstanding (gPending (fst (grun xs c)))"
  using assms
proof (induction xs arbitrary: c)
  case Nil
  then show ?case by simp
next
  case (Cons x xs)
  have m: "unat (- 1 :: u64) = 2 ^ 64 - 1" by (simp add: unsigned_minus_1_eq_mask mask_eq_exp_minus_1)
  then have ne: "gNextRequestId c \<noteq> - 1" using Cons.prems(2) by (metis add_lessD1 order_less_irrefl)
  let ?c1 = "fst (gstep x c)"
  from gstep_good [of x c] Cons.prems(1) ne
  have ids: "ids_ok ?c1" and nxt: "gNextRequestId ?c1 \<in> {gNextRequestId c, gNextRequestId c + 1}"
    and bal: "outstanding (gPending c) + mset (grequested x) =
      mset (gcalled (snd (gstep x c))) + outstanding (gPending ?c1)"
    by (simp_all add: good_def)
  have "unat (gNextRequestId ?c1) \<le> unat (gNextRequestId c) + 1"
    using nxt by (auto simp: unat_word_ariths mod_less_eq_dividend)
  with Cons.prems(2) have "unat (gNextRequestId ?c1) + length xs < 2 ^ 64 - 1" by simp
  from Cons.IH [OF ids this] bal show ?case
    by (simp add: case_prod_beta) (metis (no_types, lifting) add.assoc)
qed

section \<open>Lemmas: lines\<close>

lemma line_shorter: "x \<in> set b \<Longrightarrow> length (takeWhile (\<lambda>y. y \<noteq> x) b) < length b"
  by (induction b) auto

lemma handle_buffer_append:
  "handle_buffer (b @ d) c =
     (let (rest, c1, o1) = handle_buffer b c; (r, c2, o2) = handle_buffer (rest @ d) c1 in
      (r, c2, o1 @ o2))"
proof (induction "length b" arbitrary: b c rule: less_induct)
  case less
  show ?case
  proof (cases "newline \<in> set b")
    case True
    let ?l = "takeWhile (\<lambda>x. x \<noteq> newline) b"
    have l: "takeWhile (\<lambda>x. x \<noteq> newline) (b @ d) = ?l"
      using True by (subst takeWhile_append1 [of newline]) auto
    have "length ?l < length b"
      by (rule line_shorter [OF True])
    then have d: "drop (Suc (length ?l)) (b @ d) = drop (Suc (length ?l)) b @ d"
      and lt: "length (drop (Suc (length ?l)) b) < length b" by simp_all
    show ?thesis
      using True less [OF lt, of "fst (one_line ?l c)"]
      by (simp add: handle_buffer.simps [of "b @ d"] handle_buffer.simps [of b] l d Let_def
          case_prod_beta del: drop_append takeWhile_append)
  qed (simp add: handle_buffer.simps [of b] case_prod_beta)
qed

lemma handle_buffer_rest:
  "newline \<notin> set (fst (handle_buffer b c)) \<and> length (fst (handle_buffer b c)) \<le> length b"
proof (induction b c rule: handle_buffer.induct)
  case (1 b c)
  show ?case
  proof (cases "newline \<in> set b")
    case True
    let ?l = "takeWhile (\<lambda>x. x \<noteq> newline) b"
    from "1" [OF _ refl refl prod.collapse] True show ?thesis
      by (subst (1 2) handle_buffer.simps) (auto simp: Let_def case_prod_beta)
  qed (simp add: handle_buffer.simps [of b])
qed

lemma answer_stop [simp]: "gStopRequested (fst (answer i ok m c)) = gStopRequested c"
  by (simp add: answer_def case_prod_beta)

lemma one_line_stop [simp]: "gStopRequested (fst (one_line l c)) = gStopRequested c"
  by (simp add: one_line_def handle_line_def Let_def split: option.split)

lemma handle_buffer_stop [simp]: "gStopRequested (fst (snd (handle_buffer b c))) = gStopRequested c"
proof (induction "length b" arbitrary: b c rule: less_induct)
  case less
  show ?case
  proof (cases "newline \<in> set b")
    case True
    have "length (drop (Suc (length (takeWhile (\<lambda>x. x \<noteq> newline) b))) b) < length b"
      using True by (auto dest: length_pos_if_in_set)
    from less [OF this] True show ?thesis
      by (simp add: handle_buffer.simps [of b] Let_def case_prod_beta)
  qed (simp add: handle_buffer.simps)
qed

text \<open>Turns that only bring bytes or are interrupted, and the bytes they bring.\<close>

fun quiet_turn :: "gturn \<Rightarrow> bool" where
  "quiet_turn (G_chunk d) = True"
| "quiet_turn G_read_interrupted = True"
| "quiet_turn (G_poll_failed interrupted) = interrupted"
| "quiet_turn t = False"

fun chunk_of :: "gturn \<Rightarrow> string" where
  "chunk_of (G_chunk d) = d"
| "chunk_of t = []"

lemma serve_chunks:
  assumes "\<not> gStopRequested c" and "list_all (quiet_turn \<circ> snd) ts" and "newline \<notin> set b"
    and "length b + length (concat (map (chunk_of \<circ> snd) ts)) \<le> kMaximumLine"
  shows "serve_connection ts b c = (False, handle_buffer (b @ concat (map (chunk_of \<circ> snd) ts)) c)"
  using assms
proof (induction ts arbitrary: b c)
  case Nil
  then show ?case by (simp add: handle_buffer.simps)
next
  case (Cons t ts)
  obtain now g where t: "t = (now, g)" by (cases t)
  show ?case
  proof (cases g)
    case (G_chunk d)
    let ?h = "handle_buffer (b @ d) c"
    have rest: "newline \<notin> set (fst ?h)" "length (fst ?h) \<le> length b + length d"
      using handle_buffer_rest [of "b @ d" c] by simp_all
    have "serve_connection ts (fst ?h) (fst (snd ?h)) =
        (False, handle_buffer (fst ?h @ concat (map (chunk_of \<circ> snd) ts)) (fst (snd ?h)))"
      using Cons.prems rest by (intro Cons.IH) (simp_all add: t G_chunk)
    moreover have "\<not> length (fst ?h) > kMaximumLine" using Cons.prems(4) rest by (simp add: t G_chunk)
    ultimately show ?thesis
      using Cons.prems(1) handle_buffer_append [of "b @ d" "concat (map (chunk_of \<circ> snd) ts)" c]
      by (simp add: t G_chunk Let_def case_prod_beta comp_def)
  qed (use Cons t in auto)
qed

text \<open>How the agent writes a response.\<close>

fun reply_text :: "nat \<times> bool \<times> string \<Rightarrow> string" where
  "reply_text (i, ok, text) =
     decimal i @ '' '' @ (if ok then ''ok'' else ''err'') @ (if text = [] then [] else '' '' @ text)"

fun plain_reply :: "nat \<times> bool \<times> string \<Rightarrow> bool" where
  "plain_reply (i, ok, text) \<longleftrightarrow>
     i < 2 ^ 64 \<and> NUL \<notin> set text \<and> newline \<notin> set text \<and> (text = [] \<or> last text \<noteq> CHR 0x0D)"

fun answer_all :: "(nat \<times> bool \<times> string) list \<Rightarrow> gclient \<Rightarrow> gclient \<times> gobs list" where
  "answer_all [] c = (c, [])"
| "answer_all ((i, ok, text) # rs) c =
     (let (c1, o1) = answer (of_nat i) ok text c; (c2, o2) = answer_all rs c1 in (c2, o1 @ o2))"

lemma answer_all_Cons:
  "answer_all (r # rs) c =
     (let (c1, o1) = answer_all [r] c; (c2, o2) = answer_all rs c1 in (c2, o1 @ o2))"
  by (cases r) (simp add: case_prod_beta)

lemma parse_reply:
  assumes "plain_reply (i, ok, text)"
  shows "parse_response (reply_text (i, ok, text)) = Some (of_nat i, ok, text)"
proof -
  have c: "c_str (reply_text (i, ok, text)) = reply_text (i, ok, text)"
    using assms decimal_plain [of i] by (intro c_str_id) (auto simp: NUL_def)
  have "strtoull (reply_text (i, ok, text)) =
      Some (of_nat i, False, '' '' @ (if ok then ''ok'' else ''err'') @ (if text = [] then [] else '' '' @ text))"
    using assms strtoull_decimal [of i] by (simp add: is_digit_def)
  then show ?thesis
    unfolding parse_response_def c
    by (auto simp: word_then_def starts_with_def skip_blank_def)
qed

lemma one_line_reply:
  assumes "plain_reply r"
  shows "one_line (reply_text r) c = answer_all [r] c"
proof -
  obtain i ok msg where r: "r = (i, ok, msg)" by (cases r)
  have "reply_text r \<noteq> []" "last (reply_text r) \<noteq> CHR 0x0D"
    using assms by (auto simp: r)
  then have "strip_cr (reply_text r) = reply_text r" by (simp add: strip_cr_def)
  with parse_reply [of i ok msg] assms show ?thesis
    by (simp add: r one_line_def handle_line_def Let_def case_prod_beta)
qed

lemma handle_buffer_replies:
  "list_all plain_reply rs \<Longrightarrow>
     handle_buffer (concat (map (\<lambda>r. reply_text r @ [newline]) rs)) c = ([], answer_all rs c)"
proof (induction rs arbitrary: c)
  case Nil
  then show ?case by (simp add: handle_buffer.simps)
next
  case (Cons r rs)
  obtain i ok msg where r: "r = (i, ok, msg)" by (cases r)
  let ?more = "concat (map (\<lambda>r. reply_text r @ [newline]) rs)"
  have "newline \<notin> set (reply_text r)"
    using Cons.prems decimal_plain [of i] by (auto simp: r newline_def)
  then have "takeWhile (\<lambda>x. x \<noteq> newline) (reply_text r @ newline # ?more) = reply_text r"
    by (auto simp: takeWhile_tail)
  with Cons one_line_reply [of r c] show ?case
    by (simp add: handle_buffer.simps [of "reply_text r @ newline # ?more"] Let_def case_prod_beta
        answer_all_Cons [of r rs])
qed

section \<open>Lemmas: transfers\<close>

lemma copied_prepend_eq:
  "copied_prepend p r = Copied failed d m \<longleftrightarrow> (\<exists>d'. r = Copied failed d' m \<and> d = p @ d')"
  by (cases r) auto

lemma copy_apk_copied:
  "copy_apk stopped rs s apk n = Copied failed d m \<Longrightarrow>
     (\<exists>rest. take n apk = d @ rest) \<and> (\<not> failed \<and> m = 0 \<longrightarrow> d = take n apk \<and> n \<le> length apk)"
proof (induction stopped rs s apk n arbitrary: d rule: copy_apk.induct)
  case (1 stopped s apk n)
  then show ?case by (auto split: if_splits)
next
  case (2 stopped r rs s apk n)
  show ?case
  proof (cases "n = 0 \<or> stopped")
    case True
    with "2.prems" show ?thesis by auto
  next
    case running: False
    show ?thesis
    proof (cases r)
      case (F_read k)
      define chunk where "chunk = take (min k (min n kApkTransferBufferBytes)) apk"
      have le: "length chunk \<le> n" "length chunk \<le> length apk" by (simp_all add: chunk_def)
      have pre: "chunk = take (length chunk) apk"
        unfolding chunk_def by (metis append_eq_conv_conj append_take_drop_id)
      have split: "take n apk = chunk @ take (n - length chunk) (drop (length chunk) apk)"
        using le(1) pre by (metis le_add_diff_inverse take_add)
      have eq: "(if chunk = [] then Copied True [] n
          else
            case write_all s chunk of
              Tx_blocked d \<Rightarrow> Copy_blocked d
            | Sent True d s' \<Rightarrow>
                copied_prepend d (copy_apk stopped rs s' (drop (length chunk) apk) (n - length chunk))
            | Sent False d s' \<Rightarrow> Copied True d (n - length chunk)) = Copied failed d m"
        using "2.prems" unfolding chunk_def F_read
        by (simp only: copy_apk.simps running if_False fread.case Let_def)
      show ?thesis
      proof (cases "chunk = []")
        case True
        with eq show ?thesis by auto
      next
        case False
        obtain ok d1 s' where w: "write_all s chunk = Sent ok d1 s'"
          using eq False by (cases "write_all s chunk") auto
        show ?thesis
        proof (cases ok)
          case True
          have d1: "d1 = chunk" using write_all_prefix [OF w] True by simp
          from eq False w True obtain d2 where
            rec: "copy_apk stopped rs s' (drop (length chunk) apk) (n - length chunk) = Copied failed d2 m"
            and d: "d = chunk @ d2"
            by (auto simp: d1 copied_prepend_eq)
          from "2.IH"(1) [OF running F_read refl chunk_def False w _ rec] True le
          show ?thesis unfolding split d by auto
        next
          case failed: False
          with write_all_prefix [OF w] obtain rest where "chunk = d1 @ rest" by auto
          with eq False w failed show ?thesis unfolding split by auto
        qed
      qed
    qed (use "2.prems" "2.IH"(2) [OF running] running in auto)
  qed
qed

lemma send_apk_copied:
  assumes "send_apk stopped rs s header apk n = Copied failed d m"
  shows "(\<exists>rest. bytes_of header @ take n apk = d @ rest) \<and>
         (\<not> failed \<and> m = 0 \<longrightarrow> d = bytes_of header @ take n apk \<and> n \<le> length apk)"
proof (cases "write_all s (bytes_of header)")
  case (Sent ok d1 s')
  show ?thesis
  proof (cases ok)
    case True
    with write_all_prefix [OF Sent] have "d1 = bytes_of header" by simp
    with assms Sent True copy_apk_copied [of stopped rs s' apk n failed _ m] show ?thesis
      by (auto simp: send_apk_def copied_prepend_eq)
  next
    case False
    with write_all_prefix [OF Sent] obtain rest where "bytes_of header = d1 @ rest" by auto
    with assms Sent False show ?thesis by (auto simp: send_apk_def)
  qed
qed (use assms in \<open>simp add: send_apk_def\<close>)

lemma register_some:
  assumes "register now tmo (Some n) c = (i, c1)"
  shows "i = gNextRequestId c" and "map_of (gPending c1) i = Some \<lparr>callback = Some n, deadlineMs = now + tmo\<rparr>"
    and "clientFd c1 = clientFd c" and "fileTransferActive c1 = fileTransferActive c"
    and "gStopRequested c1 = gStopRequested c"
  using assms by (auto simp: register_def Let_def add_def)

section \<open>Properties\<close>

text \<open>
  (C7) Every request and every install gets exactly one answer: in any history of the client with
  fewer than 2^64 - 2 steps, the callbacks handed to it are, with multiplicity, those called and
  those still waiting; none is lost and none is called twice. After a final stop none waits.
\<close>

theorem guest_callbacks_conserved:
  assumes "length xs < 2 ^ 64 - 3"
  shows "mset (concat (map grequested xs)) =
           mset (gcalled (snd (grun xs new_gclient))) + outstanding (gPending (fst (grun xs new_gclient))) \<and>
         outstanding (gPending (fst (guest_stop n env c))) = {#}"
proof -
  have "ids_ok new_gclient" by (simp add: ids_ok_def new_gclient_def)
  from grun_conserves [OF this, of xs] assms show ?thesis
    by (simp add: new_gclient_def guest_stop_def guest_fail_all_def fail_all_def Let_def case_prod_beta)
qed

theorem guest_callbacks_conserved_witness:
  "mset (concat (map grequested [GRequest 0 [] ''ping'' 100 (Some 7), GRegister 0 100 (Some 8)])) = {#7, 8#} \<and>
   mset (gcalled (snd (grun [GRequest 0 [] ''ping'' 100 (Some 7), GRegister 0 100 (Some 8)] new_gclient))) +
   outstanding (gPending (fst (grun [GRequest 0 [] ''ping'' 100 (Some 7), GRegister 0 100 (Some 8)] new_gclient)))
     = {#7, 8#}"
  using guest_callbacks_conserved [of "[GRequest 0 [] ''ping'' 100 (Some 7), GRegister 0 100 (Some 8)]"]
  by simp

text \<open>
  (C8) Responses reach their callbacks: when the agent writes a sequence of response lines, then
  however the bytes are cut into reads, the loop answers exactly these requests in this order, each
  with its status and its text, and keeps nothing back.
\<close>

theorem guest_replies_dispatched:
  assumes "\<not> gStopRequested c" and "list_all (quiet_turn \<circ> snd) ts" and "list_all plain_reply rs"
    and "concat (map (chunk_of \<circ> snd) ts) = concat (map (\<lambda>r. reply_text r @ [newline]) rs)"
    and "length (concat (map (chunk_of \<circ> snd) ts)) \<le> kMaximumLine"
  shows "serve_connection ts [] c = (False, [], answer_all rs c)"
  using serve_chunks [OF assms(1,2), of "[]"] handle_buffer_replies [OF assms(3), of c] assms(4,5)
  by simp

theorem guest_replies_dispatched_witness:
  "serve_connection [(0, G_chunk ''1 ok''), (0, G_read_interrupted), (0, G_chunk ('' up'' @ [newline]))] []
     (snd (register 0 100 (Some 5) new_gclient)) =
   (False, [], new_gclient\<lparr>gNextRequestId := 2\<rparr>, [G_called 5 True ''up''])"
proof -
  have "decimal 1 = ''1''" by code_simp
  then show ?thesis
    by (subst guest_replies_dispatched [of _ _ "[(1, True, ''up'')]"])
      (simp_all add: register_def new_gclient_def Let_def answer_def take_pending_def add_def
        kMaximumLine_def NUL_def newline_def)
qed

text \<open>
  (C9) An APK arrives whole or the connection is given up: an install that has started and returned
  has written the header and exactly the announced number of bytes of the file, and its callback
  waits for the response; or it has written only a prefix of that, has shut the connection down so
  that nothing can follow the torn message, and has reported the failure. It always closes the file
  and releases the transfer.
\<close>

theorem apk_whole_or_torn_down:
  assumes "\<not> fileTransferActive c" and "apkFd \<ge> 0" and "0 < sz" and "sz \<le> kMaximumApkBytes"
    and "clientFd c \<ge> 0"
    and "install_apk now apkFd e (Some (True, sz)) apk rs s tmo (Some n) c = (c', out)"
    and "\<not> fileTransferActive c'"
  shows "let i = gNextRequestId c; message = bytes_of (install_header i (nat sz)) @ take (nat sz) apk in
         out = [G_wrote message, G_closed apkFd] \<and> nat sz \<le> length apk \<and>
           map_of (gPending c') i = Some \<lparr>callback = Some n, deadlineMs = now + tmo\<rparr> \<or>
         (\<exists>d rest. message = d @ rest \<and> i \<notin> waiting (gPending c') \<and>
           out = [G_wrote d, G_shutdown (clientFd c), G_closed apkFd, G_called n False ''APK transfer failed''])"
proof -
  obtain i c1 where r: "register now tmo (Some n) (c\<lparr>fileTransferActive := True\<rparr>) = (i, c1)" by fastforce
  note reg = register_some [OF r]
  have t: "transfer_apk apkFd apk rs s i (nat sz) c1 = (c', out)"
    using assms(1-6) r by (simp add: install_apk_def)
  obtain failed d m where k: "send_apk (gStopRequested c1) rs s (install_header i (nat sz)) apk (nat sz) =
      Copied failed d m"
    using t assms(5,7) reg
    by (cases "send_apk (gStopRequested c1) rs s (install_header i (nat sz)) apk (nat sz)")
      (auto simp: transfer_apk_def case_prod_beta)
  have taken: "answer i False msg (c1\<lparr>fileTransferActive := False\<rparr>) =
      (c1\<lparr>fileTransferActive := False, gPending := omap_erase i (gPending c1)\<rparr>, [G_called n False msg])" for msg
    using reg(2) by (simp add: answer_def take_pending_def)
  show ?thesis
  proof (cases "failed \<or> m \<noteq> 0")
    case True
    with t k taken assms(5) reg have "out = [G_wrote d, G_shutdown (clientFd c), G_closed apkFd,
        G_called n False ''APK transfer failed'']" and "i \<notin> waiting (gPending c')"
      by (auto simp: transfer_apk_def waiting_def)
    with send_apk_copied [OF k] reg(1) show ?thesis by (auto simp: Let_def)
  next
    case False
    with t k assms(5) reg have "out = [G_wrote d, G_closed apkFd]" and "gPending c' = gPending c1"
      by (auto simp: transfer_apk_def case_prod_beta)
    with send_apk_copied [OF k] False reg show ?thesis by (auto simp: Let_def)
  qed
qed

theorem apk_whole_or_torn_down_witness:
  "snd (install_apk 0 9 [] (Some (True, 2)) [1, 2, 3] [F_read 2] [Accepted 12, Accepted 5] 100 (Some 4)
     (new_gclient\<lparr>clientFd := 6\<rparr>)) =
    [G_wrote (bytes_of (install_header 1 2) @ [1, 2]), G_closed 9]"
proof -
  have d: "decimal (Suc 0) = ''1''" "decimal 2 = ''2''" by code_simp+
  let ?i = "install_apk 0 9 [] (Some (True, 2)) [1, 2, 3] [F_read 2] [Accepted 12, Accepted 5] 100
     (Some 4) (new_gclient\<lparr>clientFd := 6\<rparr>)"
  have a: "\<not> fileTransferActive (fst ?i)" "length (snd ?i) = 2"
    by (simp_all add: install_apk_def kMaximumApkBytes_def new_gclient_def register_def transfer_apk_def
        send_apk_def install_header_def bytes_of_def newline_def d kApkTransferBufferBytes_def case_prod_beta Let_def)
  from apk_whole_or_torn_down [of "new_gclient\<lparr>clientFd := 6\<rparr>" 9 2 0 "[]" "[1, 2, 3]" "[F_read 2]"
      "[Accepted 12, Accepted 5]" 100 4 "fst ?i" "snd ?i"] a
  show ?thesis by (auto simp: new_gclient_def kMaximumApkBytes_def Let_def)
qed

end
