(* ===== verification/Frame_Consumer.thy ===== *)
theory Frame_Consumer
  imports Input_Sender Text_Util
begin

text \<open>
  \<^verbatim>\<open>shell/core/frame_consumer.{h,cpp}\<close>: the shell's end of the frame channel. A shared memory
  object holds one slot per display, each guarded by its own sequence number, and a datagram socket
  wakes the reader.

  The producer is another process whose code is not part of the sources. What the reader relies on
  is its documented discipline, the predicate \<open>producer_step\<close>: the sequence number is odd while
  the producer writes, and the payload changes only then. Loads are ordered as the acquire fences
  order them; each attempt of a read is given by the values its loads returned.
\<close>

section \<open>Layout\<close>

definition kMacmuFrameSlotCount :: nat where "kMacmuFrameSlotCount = 16"
definition kShmMagic :: u64 where "kShmMagic = 0x4d41434d5546524d"
definition kShmVersion :: u32 where "kShmVersion = 2"
definition shm_header_size :: nat where "shm_header_size = 40"
definition slot_size :: nat where "slot_size = 64"

record ShmHeader =
  shmMagic :: u64
  shmVersion :: u32
  payloadOffset :: u32
  slotCount :: u32
  slotStride :: u32

record ShmDisplaySlot =
  slotSeq :: u64
  slotFrame :: u64
  slotSurface :: u32
  slotWidth :: u32
  slotHeight :: u32
  slotDpi :: u32
  slotPixelFormat :: u32
  slotFlags :: u32
  slotTimestampNs :: u64

definition zero_slot :: ShmDisplaySlot where
  "zero_slot =
     \<lparr>slotSeq = 0, slotFrame = 0, slotSurface = 0, slotWidth = 0, slotHeight = 0, slotDpi = 0,
      slotPixelFormat = 0, slotFlags = 0, slotTimestampNs = 0\<rparr>"

record SurfaceMetadata =
  metaDisplayId :: nat
  metaSurface :: u32
  metaWidth :: u32
  metaHeight :: u32
  metaFrame :: u64

definition frame_channel_name :: "u32 \<Rightarrow> string" where
  "frame_channel_name wrapper_pid = ''macmu.frame.'' @ decimal (unat wrapper_pid)"

definition shm_path :: "string \<Rightarrow> string" where
  "shm_path name = (if CHR ''/'' \<in> set name then name else ''/'' @ name)"

section \<open>State and life cycle\<close>

text \<open>The slot table itself is shared memory and not part of the object.\<close>

record frame_consumer =
  fcName :: string
  shmFd :: int
  mapped :: bool
  doorbellFd :: int
  producerDoorbellFd :: int
  nextScanStart :: nat
  fcValid :: bool

definition new_frame_consumer :: frame_consumer where
  "new_frame_consumer =
     \<lparr>fcName = [], shmFd = -1, mapped = False, doorbellFd = -1, producerDoorbellFd = -1,
      nextScanStart = 0, fcValid = False\<rparr>"

datatype fcall =
    Shm_open string
  | Ftruncate int nat
  | Mmap int nat
  | Fill_zero nat nat
  | Write_header ShmHeader
  | Socketpair
  | Fc_close int
  | Munmap nat
  | Shm_unlink string
  | Drain int

definition total_size :: nat where
  "total_size = shm_header_size + kMacmuFrameSlotCount * slot_size"

definition close_producer_doorbell_fd :: "frame_consumer \<Rightarrow> frame_consumer \<times> fcall list" where
  "close_producer_doorbell_fd c =
     (if producerDoorbellFd c \<ge> 0
      then (c\<lparr>producerDoorbellFd := -1\<rparr>, [Fc_close (producerDoorbellFd c)]) else (c, []))"

definition fc_teardown :: "frame_consumer \<Rightarrow> frame_consumer \<times> fcall list" where
  "fc_teardown c =
     (let (c1, o1) = (if doorbellFd c \<ge> 0 then (c\<lparr>doorbellFd := -1\<rparr>, [Fc_close (doorbellFd c)]) else (c, []));
          (c2, o2) = close_producer_doorbell_fd c1;
          (c3, o3) = (if mapped c2 then (c2\<lparr>mapped := False\<rparr>, [Munmap total_size]) else (c2, []));
          (c4, o4) = (if shmFd c3 \<ge> 0 then (c3\<lparr>shmFd := -1\<rparr>, [Fc_close (shmFd c3)]) else (c3, []));
          o5 = (if fcName c4 \<noteq> [] then [Shm_unlink (shm_path (fcName c4))] else []) in
      (c4\<lparr>fcValid := False\<rparr>, o1 @ o2 @ o3 @ o4 @ o5))"

record fc_env =
  shmOpenResult :: int
  truncateResult :: int
  mmapOk :: bool
  bellPair :: "(int \<times> int) option"
  bellCloexec :: bool
  producerCloexec :: bool

definition shm_header :: ShmHeader where
  "shm_header =
     \<lparr>shmMagic = kShmMagic, shmVersion = kShmVersion, payloadOffset = of_nat shm_header_size,
      slotCount = of_nat kMacmuFrameSlotCount, slotStride = of_nat slot_size\<rparr>"

text \<open>A failing step tears down what was set up.\<close>

definition failed_create :: "frame_consumer \<Rightarrow> fcall list \<Rightarrow> bool \<times> frame_consumer \<times> fcall list" where
  "failed_create c out = (let (c', o') = fc_teardown c in (False, c', out @ o'))"

definition fc_create :: "fc_env \<Rightarrow> u32 \<Rightarrow> frame_consumer \<Rightarrow> bool \<times> frame_consumer \<times> fcall list" where
  "fc_create env wrapper_pid c =
     (let c1 = c\<lparr>fcName := frame_channel_name wrapper_pid, shmFd := shmOpenResult env\<rparr>;
          o1 = [Shm_open (shm_path (fcName c1))] in
      if shmFd c1 < 0 then (False, c1, o1)
      else
        let o2 = o1 @ [Ftruncate (shmFd c1) total_size] in
        if truncateResult env \<noteq> 0 then failed_create c1 o2
        else
          let o3 = o2 @ [Mmap (shmFd c1) total_size] in
          if \<not> mmapOk env then failed_create (c1\<lparr>mapped := False\<rparr>) o3
          else
            let c2 = c1\<lparr>mapped := True\<rparr>;
                o4 = o3 @ [Fill_zero 0 total_size, Write_header shm_header, Socketpair] in
            case bellPair env of
              None \<Rightarrow> failed_create c2 o4
            | Some (a, b) \<Rightarrow>
                let c3 = c2\<lparr>doorbellFd := a, producerDoorbellFd := b\<rparr> in
                if \<not> bellCloexec env \<or> \<not> producerCloexec env then failed_create c3 o4
                else (True, c3\<lparr>fcValid := True\<rparr>, o4))"

definition reset_slots :: "frame_consumer \<Rightarrow> fcall list" where
  "reset_slots c =
     (if \<not> fcValid c \<or> \<not> mapped c then []
      else [Fill_zero shm_header_size (kMacmuFrameSlotCount * slot_size), Drain (doorbellFd c)])"

text \<open>
  Draining the doorbell: receive until nothing waits (\<open>[]\<close>), an empty datagram was taken, or
  a call failed; interrupted calls are repeated.
\<close>

datatype bell = Bell bytes | Bell_interrupted | Bell_failed

fun drain_notifications :: "bell list \<Rightarrow> bell list" where
  "drain_notifications [] = []"
| "drain_notifications (Bell d # bs) = (if d = [] then bs else drain_notifications bs)"
| "drain_notifications (Bell_interrupted # bs) = drain_notifications bs"
| "drain_notifications (Bell_failed # bs) = bs"

section \<open>Reading a slot\<close>

text \<open>The values the six loads of one attempt return.\<close>

record sample =
  load_seq0 :: u64
  load_surface :: u32
  load_width :: u32
  load_height :: u32
  load_frame :: u64
  load_seq1 :: u64

fun read_attempts :: "nat \<Rightarrow> sample list \<Rightarrow> SurfaceMetadata option" where
  "read_attempts display_id [] = None"
| "read_attempts display_id (x # xs) =
     (if odd (load_seq0 x) then read_attempts display_id xs
      else if load_seq0 x = load_seq1 x then
        Some \<lparr>metaDisplayId = display_id, metaSurface = load_surface x, metaWidth = load_width x,
              metaHeight = load_height x, metaFrame = load_frame x\<rparr>
      else read_attempts display_id xs)"

text \<open>The return value, and what was stored through the pointer, if anything.\<close>

definition fc_read :: "sample list \<Rightarrow> nat \<Rightarrow> frame_consumer \<Rightarrow> bool \<times> SurfaceMetadata option" where
  "fc_read samples display_id c =
     (if \<not> fcValid c \<or> display_id \<ge> kMacmuFrameSlotCount then (False, None)
      else
        case read_attempts display_id (take 8 samples) of
          None \<Rightarrow> (False, None)
        | Some m \<Rightarrow> (metaFrame m \<noteq> 0, Some m))"

section \<open>Scanning the table\<close>

text \<open>
  \<open>look\<close> gives, for each display, the loads of the read the scan makes, and
  \<open>last_frames\<close> the cursors of the caller. Indices stay below 32, so the arithmetic of
  \<^verbatim>\<open>uint32_t\<close> does not wrap.
\<close>

type_synonym look = "nat \<Rightarrow> sample list"

definition slot_is_new :: "look \<Rightarrow> (nat \<Rightarrow> u64) \<Rightarrow> frame_consumer \<Rightarrow> nat \<Rightarrow> bool" where
  "slot_is_new look last_frames c i =
     (case fc_read (look i) i c of
        (True, Some m) \<Rightarrow> metaFrame m \<noteq> 0 \<and> metaFrame m \<noteq> last_frames i
      | _ \<Rightarrow> False)"

definition scan_slots :: "look \<Rightarrow> (nat \<Rightarrow> u64) \<Rightarrow> frame_consumer \<Rightarrow> nat option \<times> frame_consumer" where
  "scan_slots look last_frames c =
     (let start = nextScanStart c mod kMacmuFrameSlotCount;
          ids = map (\<lambda>offset. (start + offset) mod kMacmuFrameSlotCount) [0..<kMacmuFrameSlotCount] in
      case find (slot_is_new look last_frames c) ids of
        None \<Rightarrow> (None, c)
      | Some i \<Rightarrow> (Some i, c\<lparr>nextScanStart := (i + 1) mod kMacmuFrameSlotCount\<rparr>))"

section \<open>Waiting\<close>

text \<open>
  One turn of the loop: the clock before \<^verbatim>\<open>poll\<close>, what \<^verbatim>\<open>poll\<close> returned (with the loads of
  the scan that follows a ring of the bell), and the clock of the loop condition. \<open>W_other\<close> is an
  error, or an event other than readable.
\<close>

datatype wpoll = W_bell look | W_timeout | W_interrupted | W_other

text \<open>\<open>None\<close> while the wait has not returned.\<close>

fun wait_loop ::
  "(u64 \<times> wpoll \<times> u64) list \<Rightarrow> u64 \<Rightarrow> look \<Rightarrow> (nat \<Rightarrow> u64) \<Rightarrow> frame_consumer \<Rightarrow>
     (nat option \<times> frame_consumer) option" where
  "wait_loop [] deadline final last_frames c = None"
| "wait_loop ((now, p, now') # ts) deadline final last_frames c =
     (if now \<ge> deadline then Some (scan_slots final last_frames c)
      else
        let again = (\<lambda>c'. if now' < deadline then wait_loop ts deadline final last_frames c'
                         else Some (scan_slots final last_frames c')) in
        case p of
          W_bell look \<Rightarrow>
            (case scan_slots look last_frames c of
               (Some i, c') \<Rightarrow> Some (Some i, c')
             | (None, c') \<Rightarrow> again c')
        | W_timeout \<Rightarrow> Some (scan_slots final last_frames c)
        | W_interrupted \<Rightarrow> again c
        | W_other \<Rightarrow> Some (scan_slots final last_frames c))"

definition wait_for_any_frame ::
  "look \<Rightarrow> u64 \<Rightarrow> (u64 \<times> wpoll \<times> u64) list \<Rightarrow> look \<Rightarrow> (nat \<Rightarrow> u64) \<Rightarrow> u64 \<Rightarrow> frame_consumer \<Rightarrow>
     (nat option \<times> frame_consumer) option" where
  "wait_for_any_frame first now ts final last_frames timeout_ms c =
     (if \<not> fcValid c then Some (None, c)
      else
        case scan_slots first last_frames c of
          (Some i, c') \<Rightarrow> Some (Some i, c')
        | (None, c') \<Rightarrow> wait_loop ts (now + timeout_ms) final last_frames c')"

section \<open>Lemmas: the sequence lock\<close>

definition same_payload :: "ShmDisplaySlot \<Rightarrow> ShmDisplaySlot \<Rightarrow> bool" where
  "same_payload s s' \<longleftrightarrow> s'\<lparr>slotSeq := 0\<rparr> = s\<lparr>slotSeq := 0\<rparr>"

text \<open>
  The producer: nothing, entering a write, changing the payload inside one, leaving it.
\<close>

definition producer_step :: "ShmDisplaySlot \<Rightarrow> ShmDisplaySlot \<Rightarrow> bool" where
  "producer_step s s' \<longleftrightarrow>
     s' = s \<or>
     slotSeq s' = slotSeq s + 1 \<and> same_payload s s' \<or>
     odd (slotSeq s) \<and> slotSeq s' = slotSeq s"

text \<open>The sample an attempt gets from a history of the slot when its loads happen at these times.\<close>

definition sample_at ::
  "(nat \<Rightarrow> ShmDisplaySlot) \<Rightarrow> nat \<Rightarrow> nat \<Rightarrow> nat \<Rightarrow> nat \<Rightarrow> nat \<Rightarrow> nat \<Rightarrow> sample" where
  "sample_at h t0 t1 t2 t3 t4 t5 =
     \<lparr>load_seq0 = slotSeq (h t0), load_surface = slotSurface (h t1), load_width = slotWidth (h t2),
      load_height = slotHeight (h t3), load_frame = slotFrame (h t4), load_seq1 = slotSeq (h t5)\<rparr>"

text \<open>
  The payload loads lie between the two loads of the sequence number; the number does not wrap
  around within one attempt.
\<close>

definition taken_from :: "(nat \<Rightarrow> ShmDisplaySlot) \<Rightarrow> sample \<Rightarrow> bool" where
  "taken_from h x \<longleftrightarrow>
     (\<exists>t0 t1 t2 t3 t4 t5. x = sample_at h t0 t1 t2 t3 t4 t5 \<and> t5 - t0 < 2 ^ 64 \<and>
        list_all (\<lambda>t. t0 \<le> t \<and> t \<le> t5) [t1, t2, t3, t4, t5])"

definition metadata_of :: "nat \<Rightarrow> ShmDisplaySlot \<Rightarrow> SurfaceMetadata" where
  "metadata_of i s =
     \<lparr>metaDisplayId = i, metaSurface = slotSurface s, metaWidth = slotWidth s,
      metaHeight = slotHeight s, metaFrame = slotFrame s\<rparr>"

lemma history_advances:
  assumes "\<And>t. producer_step (h t) (h (Suc t))"
  shows "\<exists>j \<le> k. slotSeq (h (t + k)) = slotSeq (h t) + of_nat j \<and>
           (j = 0 \<and> even (slotSeq (h t)) \<longrightarrow> h (t + k) = h t)"
proof (induction k)
  case 0
  then show ?case by auto
next
  case (Suc k)
  then obtain j where j: "j \<le> k" "slotSeq (h (t + k)) = slotSeq (h t) + of_nat j"
    "j = 0 \<and> even (slotSeq (h t)) \<longrightarrow> h (t + k) = h t" by blast
  have step: "producer_step (h (t + k)) (h (t + Suc k))" using assms [of "t + k"] by simp
  show ?case
  proof (cases "slotSeq (h (t + Suc k)) = slotSeq (h (t + k))")
    case True
    have "j = 0 \<and> even (slotSeq (h t)) \<longrightarrow> h (t + Suc k) = h t"
      using step True j by (auto simp: producer_step_def)
    with True j show ?thesis by (intro exI [of _ j]) auto
  next
    case False
    with step have "slotSeq (h (t + Suc k)) = slotSeq (h (t + k)) + 1"
      by (auto simp: producer_step_def)
    with j show ?thesis by (intro exI [of _ "Suc j"]) auto
  qed
qed

lemma history_window:
  assumes "\<And>t. producer_step (h t) (h (Suc t))" and "even (slotSeq (h t0))"
    and "slotSeq (h t5) = slotSeq (h t0)" and "t0 \<le> t" and "t \<le> t5" and "t5 - t0 < 2 ^ 64"
  shows "h t = h t0"
proof -
  obtain i where i: "i \<le> t - t0" "slotSeq (h t) = slotSeq (h t0) + of_nat i"
      "i = 0 \<and> even (slotSeq (h t0)) \<longrightarrow> h t = h t0"
    using history_advances [of h "t - t0" t0, OF assms(1)] assms(4) by auto
  obtain j where j: "j \<le> t5 - t" "slotSeq (h t5) = slotSeq (h t) + of_nat j"
    using history_advances [of h "t5 - t" t, OF assms(1)] assms(5) by auto
  have z: "of_nat (i + j) = (0 :: u64)" using i(2) j(2) assms(3) by simp
  have "i + j < 2 ^ 64" using i(1) j(1) assms(4,5,6) by linarith
  then have "unat (of_nat (i + j) :: u64) = i + j" by (simp only: unat_of_nat) (simp add: take_bit_nat_eq_self)
  with z have "i + j = 0" by simp
  with i(3) assms(2) show ?thesis by simp
qed

lemma read_attempts_some:
  "read_attempts i xs = Some m \<Longrightarrow>
     \<exists>x \<in> set xs. even (load_seq0 x) \<and> load_seq0 x = load_seq1 x \<and> metaDisplayId m = i \<and>
       metaSurface m = load_surface x \<and> metaWidth m = load_width x \<and> metaHeight m = load_height x \<and>
       metaFrame m = load_frame x"
  by (induction xs) (auto split: if_splits)

lemma attempt_is_snapshot:
  assumes "\<And>t. producer_step (h t) (h (Suc t))" and "taken_from h x" and "even (load_seq0 x)"
    and "load_seq0 x = load_seq1 x"
  shows "\<exists>t. even (slotSeq (h t)) \<and> load_surface x = slotSurface (h t) \<and> load_width x = slotWidth (h t) \<and>
           load_height x = slotHeight (h t) \<and> load_frame x = slotFrame (h t)"
proof -
  from assms(2) obtain t0 t1 t2 t3 t4 t5 where x: "x = sample_at h t0 t1 t2 t3 t4 t5"
    and short: "t5 - t0 < 2 ^ 64" and inside: "list_all (\<lambda>t. t0 \<le> t \<and> t \<le> t5) [t1, t2, t3, t4, t5]"
    unfolding taken_from_def by blast
  from assms(3,4) x have e: "even (slotSeq (h t0))" "slotSeq (h t5) = slotSeq (h t0)"
    by (simp_all add: sample_at_def)
  have "h t1 = h t0" "h t2 = h t0" "h t3 = h t0" "h t4 = h t0"
    using inside by (auto intro!: history_window [OF assms(1) e _ _ short])
  with x e show ?thesis by (intro exI [of _ t0]) (simp add: sample_at_def)
qed

section \<open>Lemmas: scanning\<close>

lemma slot_is_new_start [simp]:
  "slot_is_new look lf (c\<lparr>nextScanStart := n\<rparr>) = slot_is_new look lf c"
  by (simp add: slot_is_new_def fc_read_def fun_eq_iff)

text \<open>\<open>k\<close> is the distance to a display with something new.\<close>

lemma scan_found:
  assumes "slot_is_new look lf c ((nextScanStart c + k) mod 16)" and "k < 16" and "nextScanStart c < 16"
  obtains e where "e \<le> k"
    and "scan_slots look lf c =
           (Some ((nextScanStart c + e) mod 16), c\<lparr>nextScanStart := (nextScanStart c + e + 1) mod 16\<rparr>)"
proof -
  define n where "n = nextScanStart c"
  define ids where "ids = map (\<lambda>offset. (n + offset) mod 16) [0..<16]"
  have len: "length ids = 16" and nth: "\<And>i. i < 16 \<Longrightarrow> ids ! i = (n + i) mod 16"
    by (simp_all add: ids_def)
  have hit: "slot_is_new look lf c (ids ! k)" using assms(1,2) nth by (simp add: n_def)
  moreover have "ids ! k \<in> set ids" using assms(2) len by (intro nth_mem) simp
  ultimately have "find (slot_is_new look lf c) ids \<noteq> None" by (auto simp: find_None_iff)
  then obtain y where y: "find (slot_is_new look lf c) ids = Some y" by blast
  then obtain e where e: "e < length ids" "y = ids ! e" "\<forall>j < e. \<not> slot_is_new look lf c (ids ! j)"
    unfolding find_Some_iff by blast
  have "e \<le> k" using e(3) hit by (meson not_less)
  moreover have "y = (n + e) mod 16" using e len nth by simp
  moreover have "nextScanStart c mod 16 = n" using assms(3) by (simp add: n_def)
  ultimately show ?thesis
    using that [of e] y
    by (simp add: scan_slots_def kMacmuFrameSlotCount_def ids_def n_def mod_simps)
qed

text \<open>The displays a sequence of scans reports.\<close>

fun scans :: "(look \<times> (nat \<Rightarrow> u64)) list \<Rightarrow> frame_consumer \<Rightarrow> nat option list" where
  "scans [] c = []"
| "scans ((look, lf) # xs) c = (let (r, c') = scan_slots look lf c in r # scans xs c')"

lemma scans_reach:
  assumes "nextScanStart c < 16" and "k < 16" and "k < length xs"
    and "\<forall>(look, lf) \<in> set xs. slot_is_new look lf c ((nextScanStart c + k) mod 16)"
  shows "Some ((nextScanStart c + k) mod 16) \<in> set (scans xs c)"
  using assms
proof (induction xs arbitrary: c k)
  case Nil
  then show ?case by simp
next
  case (Cons x xs)
  obtain look lf where x: "x = (look, lf)" by (cases x)
  define n where "n = nextScanStart c"
  from Cons.prems x obtain e where e: "e \<le> k" and s: "scan_slots look lf c =
      (Some ((n + e) mod 16), c\<lparr>nextScanStart := (n + e + 1) mod 16\<rparr>)"
    using scan_found [of look lf c k] unfolding n_def by auto
  show ?case
  proof (cases "e = k")
    case True
    with s show ?thesis by (simp add: x n_def)
  next
    case False
    let ?c' = "c\<lparr>nextScanStart := (n + e + 1) mod 16\<rparr>"
    from e False have k: "n + e + 1 + (k - e - 1) = n + k" "k - e - 1 < length xs"
      using Cons.prems(3) by simp_all
    have d: "((n + e + 1) mod 16 + (k - e - 1)) mod 16 = (n + k) mod 16"
      unfolding mod_add_left_eq k(1) ..
    have "Some ((nextScanStart ?c' + (k - e - 1)) mod 16) \<in> set (scans xs ?c')"
    proof (rule Cons.IH)
      show "\<forall>(look, lf) \<in> set xs.
          slot_is_new look lf ?c' ((nextScanStart ?c' + (k - e - 1)) mod 16)"
        using Cons.prems(4) d by (auto simp: n_def)
    qed (use Cons.prems(2) k(2) in simp_all)
    with s d show ?thesis by (simp add: x n_def)
  qed
qed

section \<open>Properties\<close>

text \<open>
  (C4) A read returns a frame the producer published, never a mixture of two: if the producer keeps
  the discipline of the sequence number, whatever it writes while the read runs and however often
  the read is retried, the metadata a successful read returns is the content of the slot at one
  moment at which no write was in progress, and belongs to a published frame.
\<close>

theorem read_is_snapshot:
  assumes "\<forall>t. producer_step (h t) (h (Suc t))" and "\<forall>x \<in> set xs. taken_from h x"
    and "fc_read xs i c = (True, Some m)"
  shows "\<exists>t. even (slotSeq (h t)) \<and> slotFrame (h t) \<noteq> 0 \<and> m = metadata_of i (h t)"
proof -
  from assms(3) have r: "read_attempts i (take 8 xs) = Some m" and f: "metaFrame m \<noteq> 0"
    by (auto simp: fc_read_def split: if_splits option.splits)
  from read_attempts_some [OF r] obtain x where x: "x \<in> set (take 8 xs)" "even (load_seq0 x)"
      "load_seq0 x = load_seq1 x" and m: "metaDisplayId m = i" "metaSurface m = load_surface x"
      "metaWidth m = load_width x" "metaHeight m = load_height x" "metaFrame m = load_frame x"
    by blast
  have "taken_from h x" using assms(2) in_set_takeD [OF x(1)] by blast
  from attempt_is_snapshot [OF _ this x(2,3)] assms(1) f m show ?thesis
    by (auto simp: metadata_of_def)
qed

theorem read_is_snapshot_witness:
  "\<exists>t. even (slotSeq (zero_slot\<lparr>slotSeq := 2, slotFrame := 5, slotWidth := 7\<rparr>)) \<and>
     \<lparr>metaDisplayId = 3, metaSurface = 0, metaWidth = 7, metaHeight = 0, metaFrame = 5\<rparr> =
     metadata_of 3 ((\<lambda>t :: nat. zero_slot\<lparr>slotSeq := 2, slotFrame := 5, slotWidth := 7\<rparr>) t)"
proof -
  let ?h = "\<lambda>t :: nat. zero_slot\<lparr>slotSeq := 2, slotFrame := 5, slotWidth := 7\<rparr>"
  let ?c = "new_frame_consumer\<lparr>fcValid := True\<rparr>"
  have "taken_from ?h (sample_at ?h 0 0 0 0 0 0)"
    unfolding taken_from_def by (intro exI [of _ 0]) simp
  moreover have "fc_read [sample_at ?h 0 0 0 0 0 0] 3 ?c =
      (True, Some \<lparr>metaDisplayId = 3, metaSurface = 0, metaWidth = 7, metaHeight = 0, metaFrame = 5\<rparr>)"
    by (simp add: fc_read_def kMacmuFrameSlotCount_def sample_at_def zero_slot_def)
  ultimately show ?thesis
    using read_is_snapshot [of ?h "[sample_at ?h 0 0 0 0 0 0]" 3 ?c] by (auto simp: producer_step_def)
qed

text \<open>
  (C25) No display is starved: when a display has a new frame at each of sixteen successive scans,
  one of them reports it, whatever the other displays do.
\<close>

theorem scan_is_fair:
  assumes "nextScanStart c < 16" and "d < 16" and "length xs = 16"
    and "\<forall>(look, lf) \<in> set xs. slot_is_new look lf c d"
  shows "Some d \<in> set (scans xs c)"
proof -
  define k where "k = (d + (16 - nextScanStart c)) mod 16"
  have "(nextScanStart c + k) mod 16 = (nextScanStart c + (d + (16 - nextScanStart c))) mod 16"
    unfolding k_def by (rule mod_add_right_eq)
  also have "nextScanStart c + (d + (16 - nextScanStart c)) = d + 16" using assms(1) by simp
  finally have "(nextScanStart c + k) mod 16 = d" using assms(2) by simp
  with scans_reach [OF assms(1), of k xs] assms(3,4) show ?thesis by (simp add: k_def)
qed

theorem scan_is_fair_witness:
  "Some 9 \<in> set (scans (replicate 16
     (\<lambda>i. [sample_at (\<lambda>t. zero_slot\<lparr>slotSeq := 2, slotFrame := 5\<rparr>) 0 0 0 0 0 0], \<lambda>i. 4))
     (new_frame_consumer\<lparr>fcValid := True\<rparr>))"
  by (rule scan_is_fair)
    (auto simp: new_frame_consumer_def slot_is_new_def fc_read_def kMacmuFrameSlotCount_def
      sample_at_def zero_slot_def)

end
