(* ===== verification/Guest_Input.thy ===== *)
theory Guest_Input
  imports Input_Sender Text_Util Hid_Keyboard
begin

text \<open>
  \<^verbatim>\<open>shell/core/guest_input_sender.{h,cpp}\<close>: input events as text lines to the agent in the
  guest, over a stream socket the agent connects to. The socket does not block, so an event may be
  dropped; a line that cannot be completed closes the connection, because the stream could not be
  resynchronised.

  Results of system calls are arguments. The bytes each connection has carried are recorded. The
  conversion of scroll distances from \<^verbatim>\<open>float\<close> to thousandths (\<^verbatim>\<open>milliscroll\<close>) is not
  modelled: the operations take its results.
\<close>

section \<open>Lines\<close>

definition signed :: "i32 \<Rightarrow> string" where
  "signed w = decimal_int (sint w)"

definition unsigned_text :: "u32 \<Rightarrow> string" where
  "unsigned_text w = decimal (unat w)"

definition spaced :: "string list \<Rightarrow> string" where
  "spaced ws = concat (map (\<lambda>w. CHR '' '' # w) ws)"

text \<open>
  \<^verbatim>\<open>snprintf\<close> into a buffer of the given size: the line, unless it does not fit.
\<close>

definition fits :: "nat \<Rightarrow> string \<Rightarrow> string option" where
  "fits n line = (if line = [] \<or> length line \<ge> n then None else Some line)"

definition hover_line :: "u32 \<Rightarrow> i32 \<Rightarrow> i32 \<Rightarrow> string option" where
  "hover_line display_id x y =
     fits 96 (''h'' @ spaced [unsigned_text display_id, signed x, signed y] @ [newline])"

definition scroll_line :: "u32 \<Rightarrow> i32 \<Rightarrow> i32 \<Rightarrow> i32 \<Rightarrow> i32 \<Rightarrow> string option" where
  "scroll_line display_id x y hscrollMilli vscrollMilli =
     fits 128 (''s'' @ spaced [unsigned_text display_id, signed x, signed y, signed hscrollMilli,
       signed vscrollMilli] @ [newline])"

definition touch_phase :: "InputEventKind \<Rightarrow> char option" where
  "touch_phase kind =
     (case kind of
        kTouchBegin \<Rightarrow> Some (CHR ''b'')
      | kTouchUpdate \<Rightarrow> Some (CHR ''m'')
      | kTouchEnd \<Rightarrow> Some (CHR ''e'')
      | _ \<Rightarrow> None)"

definition touch_line :: "char \<Rightarrow> u32 \<Rightarrow> i32 \<Rightarrow> i32 \<Rightarrow> i32 \<Rightarrow> string option" where
  "touch_line phase display_id pointer_id x y =
     fits 128 (''t'' @ spaced [unsigned_text display_id, signed pointer_id, [phase], signed x, signed y]
       @ [newline])"

definition mouse_line :: "char \<Rightarrow> u32 \<Rightarrow> i32 \<Rightarrow> i32 \<Rightarrow> u32 \<Rightarrow> string option" where
  "mouse_line letter display_id x y buttons =
     fits 128 ([letter] @ spaced [unsigned_text display_id, signed x, signed y, unsigned_text buttons]
       @ [newline])"

definition kHex :: string where "kHex = ''0123456789abcdef''"

definition hex_byte :: "u8 \<Rightarrow> string" where
  "hex_byte b = [kHex ! unat (drop_bit 4 b), kHex ! unat (b AND 0x0f)]"

definition keyboard_line :: "u32 \<Rightarrow> u8 list \<Rightarrow> string option" where
  "keyboard_line display_id rpt =
     (let prefix = ''k'' @ spaced [unsigned_text display_id] @ '' '' in
      if length prefix + length rpt * 2 + 1 \<ge> 64 then None
      else Some (prefix @ concat (map hex_byte rpt) @ [newline]))"

section \<open>The sender\<close>

record guest_input =
  giSocketPath :: string
  giLogPath :: string
  giListenFd :: int
  giWriteFd :: int
  giStopRequested :: bool
  giAcceptThread :: bool

definition new_guest_input :: guest_input where
  "new_guest_input =
     \<lparr>giSocketPath = [], giLogPath = [], giListenFd = -1, giWriteFd = -1, giStopRequested = False,
      giAcceptThread = False\<rparr>"

datatype giobs =
    Gi_wrote int string
  | Gi_closed int
  | Gi_shutdown int
  | Gi_unlink string
  | Gi_listener "lcall list"
  | Gi_directory string

definition close_client_locked :: "guest_input \<Rightarrow> guest_input \<times> giobs list" where
  "close_client_locked g =
     (g\<lparr>giWriteFd := -1\<rparr>, if giWriteFd g \<ge> 0 then [Gi_closed (giWriteFd g)] else [])"

text \<open>A \<^verbatim>\<open>send\<close> of a line took so many bytes, or failed with an error number.\<close>

datatype line_send = Line_took nat | Line_errno int

text \<open>
  The outcome of the writing part: bytes taken by the last \<^verbatim>\<open>send\<close> or the error number after it;
  \<open>None\<close> while \<^verbatim>\<open>poll\<close> has not returned.
\<close>

definition attempt_line :: "line_send \<Rightarrow> poll_out list \<Rightarrow> line_send \<Rightarrow> bool \<Rightarrow> line_send option" where
  "attempt_line first polls second reliable =
     (case first of
        Line_took n \<Rightarrow> Some first
      | Line_errno e \<Rightarrow>
          if reliable \<and> e = EAGAIN then
            (case await_writable polls e of
               None \<Rightarrow> None
             | Some (out, e1) \<Rightarrow> Some (if out then second else Line_errno e1))
          else Some first)"

definition send_input_line ::
  "line_send \<Rightarrow> poll_out list \<Rightarrow> line_send \<Rightarrow> string \<Rightarrow> bool \<Rightarrow> guest_input \<Rightarrow>
     (bool \<times> guest_input \<times> giobs list) option" where
  "send_input_line first polls second line reliable g =
     (let fd = giWriteFd g in
      if fd < 0 then Some (False, g, [])
      else
        case attempt_line first polls second reliable of
          None \<Rightarrow> None
        | Some (Line_took n) \<Rightarrow>
            if n = length line then Some (True, g, [Gi_wrote fd line])
            else
              let (g', out) = close_client_locked g in
              Some (False, g', Gi_wrote fd (take n line) # out)
        | Some (Line_errno e) \<Rightarrow>
            if \<not> reliable \<and> e = EAGAIN then Some (False, g, [])
            else let (g', out) = close_client_locked g in Some (False, g', out))"

text \<open>A formatted line is sent; a line that does not fit its buffer is refused.\<close>

definition send_formatted ::
  "line_send \<Rightarrow> poll_out list \<Rightarrow> line_send \<Rightarrow> string option \<Rightarrow> bool \<Rightarrow> guest_input \<Rightarrow>
     (bool \<times> guest_input \<times> giobs list) option" where
  "send_formatted first polls second line reliable g =
     (case line of
        None \<Rightarrow> Some (False, g, [])
      | Some l \<Rightarrow> send_input_line first polls second l reliable g)"

text \<open>The events; the first three arguments are the results of the system calls.\<close>

definition gi_send_hover where
  "gi_send_hover first polls second display_id x y g =
     send_formatted first polls second (hover_line display_id x y) False g"

definition gi_send_hover_exit where
  "gi_send_hover_exit first polls second g =
     send_input_line first polls second (''e'' @ [newline]) True g"

definition gi_send_scroll where
  "gi_send_scroll first polls second display_id x y hscrollMilli vscrollMilli g =
     (if hscrollMilli = 0 \<and> vscrollMilli = 0 then Some (True, g, [])
      else send_formatted first polls second
             (scroll_line display_id x y hscrollMilli vscrollMilli) False g)"

definition gi_send_touch where
  "gi_send_touch first polls second kind display_id pointer_id x y g =
     (case touch_phase kind of
        None \<Rightarrow> Some (False, g, [])
      | Some phase \<Rightarrow>
          send_formatted first polls second (touch_line phase display_id pointer_id x y)
            (phase \<noteq> CHR ''m'') g)"

definition gi_send_mouse_move where
  "gi_send_mouse_move first polls second display_id x y buttons g =
     send_formatted first polls second (mouse_line (CHR ''m'') display_id x y buttons) False g"

definition gi_send_mouse_button where
  "gi_send_mouse_button first polls second display_id x y buttons g =
     send_formatted first polls second (mouse_line (CHR ''b'') display_id x y buttons) True g"

definition gi_send_keyboard_report where
  "gi_send_keyboard_report first polls second display_id rpt g =
     send_formatted first polls second (keyboard_line display_id rpt) True g"

section \<open>Connections and life cycle\<close>

text \<open>Publishing a connection, the last step of the accept loop.\<close>

definition gi_publish :: "int \<Rightarrow> guest_input \<Rightarrow> guest_input \<times> giobs list" where
  "gi_publish fd g = (let (g1, out) = close_client_locked g in (g1\<lparr>giWriteFd := fd\<rparr>, out))"

text \<open>
  What \<^verbatim>\<open>accept\<close> returned: an error, or a descriptor with the results of the close-on-exec call
  and the handshake.
\<close>

datatype gi_accept = Gi_accept_failed | Gi_accept int bool bool

fun gi_accept_thread :: "gi_accept list \<Rightarrow> guest_input \<Rightarrow> guest_input \<times> giobs list" where
  "gi_accept_thread [] g = (g, [])"
| "gi_accept_thread (a # rest) g =
     (if giStopRequested g \<or> giListenFd g < 0 then (g, [])
      else
        case a of
          Gi_accept_failed \<Rightarrow> gi_accept_thread rest g
        | Gi_accept fd cloexec handshake \<Rightarrow>
            let (g1, o1) = (if \<not> cloexec \<or> \<not> handshake then (g, [Gi_closed fd]) else gi_publish fd g);
                (g2, o2) = gi_accept_thread rest g1 in
            (g2, o1 @ o2))"

text \<open>
  \<open>stop\<close> closes the client and then joins the accept thread. \<open>inflight\<close> is the
  descriptor of a connection whose handshake is under way in that thread, if there is one: it is
  published before the thread sees the flag and ends.
\<close>

definition gi_stop :: "nat \<Rightarrow> listener_env \<Rightarrow> int option \<Rightarrow> guest_input \<Rightarrow> guest_input \<times> giobs list" where
  "gi_stop sun_path_size env inflight g =
     (let g1 = g\<lparr>giStopRequested := True, giListenFd := -1\<rparr>;
          o1 = (if giListenFd g \<ge> 0 then [Gi_shutdown (giListenFd g), Gi_closed (giListenFd g)] else []);
          o2 = [Gi_listener (wake_unix_listener sun_path_size env (giSocketPath g))];
          (g2, o3) = close_client_locked g1;
          (g3, o4) = (case inflight of None \<Rightarrow> (g2, []) | Some fd \<Rightarrow> gi_publish fd g2);
          g4 = g3\<lparr>giAcceptThread := False\<rparr> in
      if giSocketPath g4 \<noteq> []
      then (g4\<lparr>giSocketPath := []\<rparr>, o1 @ o2 @ o3 @ o4 @ [Gi_unlink (giSocketPath g4)])
      else (g4, o1 @ o2 @ o3 @ o4))"

definition log_path_for :: "nat \<Rightarrow> string \<Rightarrow> string" where
  "log_path_for pid app_data_dir =
     path_join (path_join app_data_dir ''logs'')
       (''macmu-rpc-agent-host.'' @ decimal pid @ ''.log'')"

definition gi_start ::
  "nat \<Rightarrow> listener_env \<Rightarrow> int option \<Rightarrow> nat \<Rightarrow> string \<Rightarrow> string \<Rightarrow> guest_input \<Rightarrow>
     bool \<times> guest_input \<times> giobs list" where
  "gi_start sun_path_size env inflight pid path app_data_dir g =
     (let (g1, o1) = gi_stop sun_path_size env inflight g;
          g2 = g1\<lparr>giLogPath := log_path_for pid app_data_dir\<rparr>;
          o2 = [Gi_directory (path_join app_data_dir ''logs'')];
          (fd, calls) = create_unix_listener sun_path_size env path in
      if fd < 0 then (False, g2, o1 @ o2 @ [Gi_listener calls])
      else
        (True, g2\<lparr>giStopRequested := False, giSocketPath := path, giListenFd := fd, giAcceptThread := True\<rparr>,
         o1 @ o2 @ [Gi_listener calls]))"

section \<open>Lemmas: lines\<close>

lemma length_decimal: "n < 10 ^ k \<Longrightarrow> 0 < k \<Longrightarrow> length (decimal n) \<le> k"
proof (induction n arbitrary: k rule: decimal.induct)
  case (1 n)
  show ?case
  proof (cases "n < 10")
    case True
    with "1.prems" show ?thesis by (simp add: decimal.simps [of n])
  next
    case False
    with "1.prems" obtain j where k: "k = Suc j" "0 < j" by (cases k; cases "k - 1") auto
    with "1.prems" have "n div 10 < 10 ^ j" by (simp add: less_mult_imp_div_less mult.commute)
    with "1.IH" [OF False] k have "length (decimal (n div 10)) \<le> j" by blast
    with False k show ?thesis by (subst decimal.simps) simp
  qed
qed

lemma length_unsigned_text: "length (unsigned_text w) \<le> 10"
proof -
  have "unat w < 10 ^ 10" using unsigned_less [of w, where 'a = nat] by simp
  then show ?thesis unfolding unsigned_text_def by (rule length_decimal) simp
qed

lemma length_signed: "length (signed w) \<le> 11"
proof -
  have "\<bar>sint w\<bar> \<le> 2 ^ 31" using sint_range_size [of w] by (auto simp: word_size)
  then have "nat \<bar>sint w\<bar> < 10 ^ 10" by simp
  then have "length (decimal (nat \<bar>sint w\<bar>)) \<le> 10" by (rule length_decimal) simp
  then show ?thesis by (auto simp: signed_def decimal_int_def abs_if)
qed

lemma hex_byte_length [simp]: "length (hex_byte b) = 2"
  by (simp add: hex_byte_def)

lemma lines_fit:
  "hover_line d x y \<noteq> None" "scroll_line d x y hs vs \<noteq> None" "touch_line p d i x y \<noteq> None"
  "mouse_line c d x y b \<noteq> None" "length rpt = 8 \<Longrightarrow> keyboard_line d rpt \<noteq> None"
proof -
  note l = length_unsigned_text [of d] length_unsigned_text [of b] length_signed [of x]
    length_signed [of y] length_signed [of i] length_signed [of hs] length_signed [of vs]
  show "hover_line d x y \<noteq> None" "scroll_line d x y hs vs \<noteq> None" "touch_line p d i x y \<noteq> None"
    "mouse_line c d x y b \<noteq> None"
    using l by (auto simp: hover_line_def scroll_line_def touch_line_def mouse_line_def fits_def spaced_def)
  show "length rpt = 8 \<Longrightarrow> keyboard_line d rpt \<noteq> None"
    using l by (auto simp: keyboard_line_def spaced_def Let_def)
qed

lemma formatted_end:
  "hover_line d x y = Some l \<Longrightarrow> last l = newline" "scroll_line d x y hs vs = Some l \<Longrightarrow> last l = newline"
  "touch_line p d i x y = Some l \<Longrightarrow> last l = newline" "mouse_line c d x y b = Some l \<Longrightarrow> last l = newline"
  "keyboard_line d rpt = Some l \<Longrightarrow> last l = newline"
  by (auto simp: hover_line_def scroll_line_def touch_line_def mouse_line_def keyboard_line_def fits_def
      Let_def split: if_splits)

section \<open>Lemmas: histories\<close>

datatype gi_op =
    GI_hover line_send "poll_out list" line_send u32 i32 i32
  | GI_hover_exit line_send "poll_out list" line_send
  | GI_scroll line_send "poll_out list" line_send u32 i32 i32 i32 i32
  | GI_touch line_send "poll_out list" line_send InputEventKind u32 i32 i32 i32
  | GI_mouse_move line_send "poll_out list" line_send u32 i32 i32 u32
  | GI_mouse_button line_send "poll_out list" line_send u32 i32 i32 u32
  | GI_keyboard line_send "poll_out list" line_send u32 "u8 list"
  | GI_accept "gi_accept list"
  | GI_stop nat listener_env "int option"
  | GI_start nat listener_env "int option" nat string string

definition result_of :: "(bool \<times> guest_input \<times> giobs list) option \<Rightarrow> guest_input \<Rightarrow> guest_input \<times> giobs list" where
  "result_of r g = (case r of None \<Rightarrow> (g, []) | Some (ok, g', out) \<Rightarrow> (g', out))"

fun gi_step :: "gi_op \<Rightarrow> guest_input \<Rightarrow> guest_input \<times> giobs list" where
  "gi_step (GI_hover f ps s d x y) g = result_of (gi_send_hover f ps s d x y g) g"
| "gi_step (GI_hover_exit f ps s) g = result_of (gi_send_hover_exit f ps s g) g"
| "gi_step (GI_scroll f ps s d x y hs vs) g = result_of (gi_send_scroll f ps s d x y hs vs g) g"
| "gi_step (GI_touch f ps s k d i x y) g = result_of (gi_send_touch f ps s k d i x y g) g"
| "gi_step (GI_mouse_move f ps s d x y b) g = result_of (gi_send_mouse_move f ps s d x y b g) g"
| "gi_step (GI_mouse_button f ps s d x y b) g = result_of (gi_send_mouse_button f ps s d x y b g) g"
| "gi_step (GI_keyboard f ps s d rpt) g = result_of (gi_send_keyboard_report f ps s d rpt g) g"
| "gi_step (GI_accept as) g = gi_accept_thread as g"
| "gi_step (GI_stop n env fl) g = gi_stop n env fl g"
| "gi_step (GI_start n env fl pid path dir) g = snd (gi_start n env fl pid path dir g)"

fun gi_run :: "gi_op list \<Rightarrow> guest_input \<Rightarrow> guest_input \<times> giobs list" where
  "gi_run [] g = (g, [])"
| "gi_run (x # xs) g = (let (g1, o1) = gi_step x g; (g2, o2) = gi_run xs g1 in (g2, o1 @ o2))"

text \<open>What a descriptor has carried since it was last closed.\<close>

definition carry :: "int \<Rightarrow> giobs \<Rightarrow> string \<Rightarrow> string" where
  "carry fd e s =
     (case e of
        Gi_wrote i l \<Rightarrow> if i = fd then s @ l else s
      | Gi_closed i \<Rightarrow> if i = fd then [] else s
      | _ \<Rightarrow> s)"

definition carried :: "int \<Rightarrow> giobs list \<Rightarrow> string \<Rightarrow> string" where
  "carried fd es s = fold (carry fd) es s"

lemma carried_simps [simp]:
  "carried fd [] s = s" "carried fd (e # es) s = carried fd es (carry fd e s)"
  "carried fd (es @ es') s = carried fd es' (carried fd es s)"
  by (simp_all add: carried_def)

definition whole_lines :: "string \<Rightarrow> bool" where
  "whole_lines s \<longleftrightarrow> s = [] \<or> last s = newline"

text \<open>
  The open connection is at the end of a line, and no other descriptor holds part of one. A step
  keeps this.
\<close>

definition in_sync :: "guest_input \<Rightarrow> (int \<Rightarrow> string) \<Rightarrow> bool" where
  "in_sync g h \<longleftrightarrow> (\<forall>fd. if fd = giWriteFd g \<and> fd \<ge> 0 then whole_lines (h fd) else fd \<ge> 0 \<longrightarrow> h fd = [])"

definition keeps_sync :: "guest_input \<Rightarrow> guest_input \<times> giobs list \<Rightarrow> bool" where
  "keeps_sync g r \<longleftrightarrow> (\<forall>h. in_sync g h \<longrightarrow> in_sync (fst r) (\<lambda>fd. carried fd (snd r) (h fd)))"

lemma keeps_sync_idle:
  "giWriteFd g' = giWriteFd g \<Longrightarrow> \<forall>e \<in> set es. \<forall>fd s. carry fd e s \<in> {s, []} \<Longrightarrow> keeps_sync g (g', es)"
proof -
  assume w: "giWriteFd g' = giWriteFd g" and c: "\<forall>e \<in> set es. \<forall>fd s. carry fd e s \<in> {s, []}"
  from c have "carried fd es s \<in> {s, []}" for fd s
    by (induction es arbitrary: s) (auto, metis insert_iff singletonD)
  then have "carried fd es s = s \<or> carried fd es s = []" for fd s by blast
  with w show ?thesis
    unfolding keeps_sync_def in_sync_def whole_lines_def by (metis fst_conv snd_conv)
qed

lemma keeps_sync_seq:
  "keeps_sync g r \<Longrightarrow> keeps_sync (fst r) r' \<Longrightarrow> keeps_sync g (fst r', snd r @ snd r')"
  by (auto simp: keeps_sync_def)

lemma keeps_sync_then:
  "keeps_sync g (g1, o1) \<Longrightarrow> keeps_sync g1 r \<Longrightarrow> keeps_sync g (fst r, o1 @ snd r)"
  by (auto simp: keeps_sync_def)

lemma keeps_sync_close: "keeps_sync g (close_client_locked g)"
  by (auto simp: keeps_sync_def in_sync_def close_client_locked_def carry_def split: if_splits)

lemma keeps_sync_publish: "keeps_sync g (gi_publish fd g)"
  using keeps_sync_close [of g]
  by (auto simp: keeps_sync_def in_sync_def gi_publish_def close_client_locked_def whole_lines_def
      carry_def split: if_splits)

lemma keeps_sync_send:
  assumes "last l = newline"
  shows "keeps_sync g (result_of (send_input_line f ps s l rel g) g)"
  using assms
  by (auto simp: send_input_line_def result_of_def close_client_locked_def keeps_sync_def in_sync_def
      whole_lines_def carry_def last_append Let_def split: option.split line_send.split)

lemma keeps_sync_formatted:
  assumes "\<And>l. line = Some l \<Longrightarrow> last l = newline"
  shows "keeps_sync g (result_of (send_formatted f ps s line rel g) g)"
  using keeps_sync_send [of _ g f ps s rel] assms
  by (cases line) (auto simp: send_formatted_def result_of_def [of "Some _"] keeps_sync_idle)

lemma keeps_sync_accept: "keeps_sync g (gi_accept_thread as g)"
proof (induction as arbitrary: g)
  case Nil
  then show ?case by (simp add: keeps_sync_idle)
next
  case (Cons a as)
  have c: "keeps_sync g (g, [Gi_closed fd])" for fd
    by (rule keeps_sync_idle) (auto simp: carry_def)
  show ?case
    using keeps_sync_seq [OF keeps_sync_publish Cons, of g] keeps_sync_seq [OF c Cons] Cons [of g]
    by (cases a) (auto simp: keeps_sync_idle case_prod_beta)
qed

lemma keeps_sync_stop: "keeps_sync g (gi_stop n env fl g)"
proof -
  let ?g1 = "g\<lparr>giStopRequested := True, giListenFd := -1\<rparr>"
  let ?o1 = "if giListenFd g \<ge> 0 then [Gi_shutdown (giListenFd g), Gi_closed (giListenFd g)] else []"
  let ?o2 = "[Gi_listener (wake_unix_listener n env (giSocketPath g))]"
  let ?c = "close_client_locked ?g1"
  let ?p = "case fl of None \<Rightarrow> (fst ?c, []) | Some fd \<Rightarrow> gi_publish fd (fst ?c)"
  have first: "keeps_sync g (?g1, ?o1 @ ?o2)"
    by (rule keeps_sync_idle) (auto simp: carry_def)
  have p: "keeps_sync (fst ?c) ?p"
    by (auto simp: keeps_sync_publish keeps_sync_idle split: option.split)
  have tail: "keeps_sync x (x\<lparr>giAcceptThread := False\<rparr>, [])"
    "keeps_sync x (x\<lparr>giAcceptThread := False, giSocketPath := []\<rparr>, [Gi_unlink u])" for x u
    by (rule keeps_sync_idle; auto simp: carry_def)+
  note seq = keeps_sync_then [OF keeps_sync_then [OF keeps_sync_then [OF first keeps_sync_close] p]]
  show ?thesis
    using seq [OF tail(1), simplified] seq [OF tail(2), simplified]
    by (simp add: gi_stop_def Let_def case_prod_beta)
qed

lemma keeps_sync_start: "keeps_sync g (snd (gi_start n env fl pid path dir g))"
proof -
  have tail: "keeps_sync x (x\<lparr>giLogPath := l\<rparr>, [Gi_directory d, Gi_listener calls])"
    "keeps_sync x (x\<lparr>giLogPath := l, giStopRequested := False, giSocketPath := p, giListenFd := fd,
       giAcceptThread := True\<rparr>, [Gi_directory d, Gi_listener calls])" for x l d calls p fd
    by (rule keeps_sync_idle; auto simp: carry_def)+
  show ?thesis
    using keeps_sync_seq [OF keeps_sync_stop [of g n env fl] tail(1), simplified]
      keeps_sync_seq [OF keeps_sync_stop [of g n env fl] tail(2), simplified]
    by (simp add: gi_start_def Let_def case_prod_beta)
qed

lemma keeps_sync_step: "keeps_sync g (gi_step x g)"
proof (cases x)
  case (GI_scroll f ps s d x y hs vs)
  then show ?thesis
    by (cases "hs = 0 \<and> vs = 0")
      (auto simp: gi_send_scroll_def result_of_def [of "Some _"] keeps_sync_idle
        intro!: keeps_sync_formatted dest: formatted_end)
next
  case (GI_touch f ps s k d i x y)
  then show ?thesis
    by (cases "touch_phase k")
      (auto simp: gi_send_touch_def result_of_def [of "Some _"] keeps_sync_idle
        intro!: keeps_sync_formatted dest: formatted_end)
qed (auto simp: gi_send_hover_def gi_send_hover_exit_def gi_send_mouse_move_def gi_send_mouse_button_def
    gi_send_keyboard_report_def
    intro!: keeps_sync_formatted keeps_sync_send keeps_sync_accept keeps_sync_stop keeps_sync_start
    dest: formatted_end)

lemma keeps_sync_run: "keeps_sync g (gi_run xs g)"
proof (induction xs arbitrary: g)
  case Nil
  then show ?case by (simp add: keeps_sync_idle)
next
  case (Cons x xs)
  from keeps_sync_seq [OF keeps_sync_step Cons] show ?case by (simp add: case_prod_beta)
qed

section \<open>Properties\<close>




end
