(* ===== verification/Shell_Options.thy ===== *)
theory Shell_Options
  imports Posix_Util Text_Util
begin

text \<open>
  \<^verbatim>\<open>shell/core/shell_options.cpp\<close>, \<^verbatim>\<open>shell/core/shell_options.h\<close> and
  \<^verbatim>\<open>shell/protocol/shell_constants.h\<close>: the options of the shell, from environment variables, from
  the command line, and from defaults relative to the executable. The operating system is a record
  of what its calls answer. Proved: what the options are, independently of the order of the flags.
\<close>

section \<open>Constants and data\<close>

definition kQemuHeadlessRelativePath :: string where
  "kQemuHeadlessRelativePath = ''qemu/darwin-aarch64/qemu-system-aarch64-headless''"

definition kDefaultAvdName :: string where "kDefaultAvdName = ''macmu_aosp16_arm64''"

definition kInputSocketEnv :: string where "kInputSocketEnv = ''MACMU_INPUT_SOCKET_PATH''"

record ShellOptions =
  appDataDir :: string
  avdHome :: string
  launcherDir :: string
  qemuPath :: string
  dyldLibraryPath :: string
  inputSocketPath :: string
  systemPath :: string
  imageImportSource :: string
  autoImportDefaultImage :: bool
  guestRpcSocketPath :: string
  guestCtrlSocketPath :: string
  guestAgentImagePath :: string
  guestRamdiskOverlayPath :: string
  guestRamdiskPath :: string
  avdName :: string
  wipeData :: bool

text \<open>
  \<open>getenv\<close> is the environment, \<open>accessible\<close> whether \<^verbatim>\<open>access(path, F_OK)\<close> succeeds,
  \<open>getcwd\<close> and \<open>executablePath\<close> the answers of \<^verbatim>\<open>getcwd\<close> and
  \<^verbatim>\<open>_NSGetExecutablePath\<close> (\<open>None\<close> where they fail), \<open>realpath\<close> that of
  \<^verbatim>\<open>realpath\<close> and \<open>getpid\<close> the process id.
\<close>

record shell_host =
  getenv :: "string \<Rightarrow> string option"
  accessible :: "string \<Rightarrow> bool"
  getcwd :: "string option"
  executablePath :: "string option"
  realpath :: "string \<Rightarrow> string option"
  getpid :: nat

section \<open>Environment variables\<close>

definition env_or_default :: "shell_host \<Rightarrow> string \<Rightarrow> string \<Rightarrow> string" where
  "env_or_default h name fallback =
     (case getenv h name of
        Some value \<Rightarrow> if value \<noteq> [] then value else fallback
      | None \<Rightarrow> fallback)"

definition env_or_legacy :: "shell_host \<Rightarrow> string \<Rightarrow> string \<Rightarrow> string \<Rightarrow> string" where
  "env_or_legacy h name legacy_name fallback =
     env_or_default h name (env_or_default h legacy_name fallback)"

definition tolower :: "char \<Rightarrow> char" where
  "tolower c = (if 65 \<le> (of_char c :: nat) \<and> (of_char c :: nat) \<le> 90 then char_of (of_char c + 32 :: nat) else c)"

definition env_bool_or_default :: "shell_host \<Rightarrow> string \<Rightarrow> string \<Rightarrow> bool \<Rightarrow> bool" where
  "env_bool_or_default h name legacy_name fallback =
     (let value = map tolower (env_or_legacy h name legacy_name (if fallback then ''1'' else ''0'')) in
      value \<noteq> ''0'' \<and> value \<noteq> ''false'' \<and> value \<noteq> ''no'' \<and> value \<noteq> ''off'')"

section \<open>Paths\<close>

definition rfind_slash :: "string \<Rightarrow> nat option" where
  "rfind_slash path =
     (let r = dropWhile (\<lambda>c. c \<noteq> CHR ''/'') (rev path) in if r = [] then None else Some (length r - 1))"

definition directory_name :: "string \<Rightarrow> string" where
  "directory_name path =
     (case rfind_slash path of
        None \<Rightarrow> ''.''
      | Some slash \<Rightarrow> if slash = 0 then ''/'' else take slash path)"

definition base_name :: "string \<Rightarrow> string" where
  "base_name path =
     (case rfind_slash path of
        None \<Rightarrow> path
      | Some slash \<Rightarrow> drop (slash + 1) path)"

definition current_working_directory :: "shell_host \<Rightarrow> string" where
  "current_working_directory h = (case getcwd h of None \<Rightarrow> [] | Some path \<Rightarrow> path)"

definition default_app_data_dir :: "shell_host \<Rightarrow> string" where
  "default_app_data_dir h =
     (case getenv h ''HOME'' of
        Some home \<Rightarrow> if home \<noteq> [] then path_join (path_join home ''Library'') ''MacMu'' else ''MacMuData''
      | None \<Rightarrow> ''MacMuData'')"

definition default_avd_home :: "string \<Rightarrow> string" where
  "default_avd_home app_data_dir = path_join app_data_dir ''avd''"

definition default_system_path :: "string \<Rightarrow> string" where
  "default_system_path app_data_dir = path_join app_data_dir ''images/aosp16-arm64''"

definition executable_directory :: "shell_host \<Rightarrow> string" where
  "executable_directory h =
     (case executablePath h of
        None \<Rightarrow> []
      | Some path \<Rightarrow>
          directory_name (case realpath h path of Some resolved \<Rightarrow> resolved | None \<Rightarrow> path))"

definition has_qemu :: "shell_host \<Rightarrow> string \<Rightarrow> bool" where
  "has_qemu h dir \<longleftrightarrow> accessible h (path_join dir kQemuHeadlessRelativePath)"

definition default_launcher_dir :: "shell_host \<Rightarrow> string" where
  "default_launcher_dir h =
     (let executable_dir = executable_directory h;
          contents_dir = directory_name executable_dir;
          bundled_dist = path_join contents_dir ''Resources/emulator'';
          sibling_dist = path_join (directory_name executable_dir) ''distribution/emulator'';
          cwd = current_working_directory h;
          repo_dist = path_join cwd ''build/cmake/distribution/emulator'' in
      if executable_dir \<noteq> [] \<and> has_qemu h executable_dir then executable_dir
      else if base_name executable_dir = ''MacOS'' \<and> base_name contents_dir = ''Contents'' \<and>
        has_qemu h bundled_dist then bundled_dist
      else if executable_dir \<noteq> [] \<and> has_qemu h sibling_dist then sibling_dist
      else if cwd \<noteq> [] \<and> has_qemu h repo_dist then repo_dist
      else if executable_dir = [] then ''.'' else executable_dir)"

definition default_qemu_path :: "string \<Rightarrow> string" where
  "default_qemu_path launcher_dir = path_join launcher_dir kQemuHeadlessRelativePath"

definition default_dyld_library_path :: "string \<Rightarrow> string" where
  "default_dyld_library_path launcher_dir =
     (let lib64 = path_join launcher_dir ''lib64'' in
      lib64 @ '':'' @ path_join lib64 ''gles_angle'' @ '':'' @ path_join lib64 ''vulkan'')"

definition default_guest_ramdisk_overlay_path :: "shell_host \<Rightarrow> string \<Rightarrow> string" where
  "default_guest_ramdisk_overlay_path h launcher_dir =
     (let path = path_join launcher_dir ''lib/macmu-guest-overlay.img'' in
      if accessible h path then path else [])"

definition default_guest_ramdisk_path :: "string \<Rightarrow> string" where
  "default_guest_ramdisk_path launcher_dir = []"

definition default_guest_agent_image_path :: "shell_host \<Rightarrow> string \<Rightarrow> string" where
  "default_guest_agent_image_path h launcher_dir =
     (let path = path_join launcher_dir ''lib/macmu-agent.img'' in
      if accessible h path then path else [])"

definition default_guest_rpc_socket_path :: "shell_host \<Rightarrow> string" where
  "default_guest_rpc_socket_path h = ''/tmp/macmu.rpc.'' @ decimal (getpid h) @ ''.sock''"

definition default_guest_ctrl_socket_path :: "shell_host \<Rightarrow> string" where
  "default_guest_ctrl_socket_path h = ''/tmp/macmu.ctrl.'' @ decimal (getpid h) @ ''.sock''"

section \<open>The options from the environment\<close>

definition environment_options :: "shell_host \<Rightarrow> ShellOptions" where
  "environment_options h =
     (let app = env_or_legacy h ''MACMU_APP_DATA_DIR'' ''AEMU_SHELL_APP_DATA_DIR'' (default_app_data_dir h);
          launcher = env_or_legacy h ''MACMU_LAUNCHER_DIR'' ''AEMU_SHELL_LAUNCHER_DIR'' (default_launcher_dir h) in
      \<lparr>appDataDir = app,
       avdHome = env_or_legacy h ''MACMU_AVD_HOME'' ''AEMU_SHELL_AVD_HOME''
         (env_or_default h ''ANDROID_AVD_HOME'' (default_avd_home app)),
       launcherDir = launcher,
       qemuPath = env_or_legacy h ''MACMU_QEMU_PATH'' ''AEMU_SHELL_QEMU_PATH'' (default_qemu_path launcher),
       dyldLibraryPath = env_or_legacy h ''MACMU_DYLD_LIBRARY_PATH'' ''AEMU_SHELL_DYLD_LIBRARY_PATH''
         (default_dyld_library_path launcher),
       inputSocketPath = env_or_default h kInputSocketEnv [],
       systemPath = env_or_legacy h ''MACMU_SYSTEM_PATH'' ''AEMU_SHELL_SYSTEM_PATH'' (default_system_path app),
       imageImportSource = env_or_legacy h ''MACMU_IMPORT_IMAGE'' ''AEMU_SHELL_IMPORT_IMAGE'' [],
       autoImportDefaultImage =
         env_bool_or_default h ''MACMU_AUTO_IMPORT_IMAGE'' ''AEMU_SHELL_AUTO_IMPORT_IMAGE'' False,
       guestRpcSocketPath = env_or_legacy h ''MACMU_GUEST_RPC_SOCKET'' ''AEMU_SHELL_GUEST_RPC_SOCKET''
         (default_guest_rpc_socket_path h),
       guestCtrlSocketPath = env_or_legacy h ''MACMU_GUEST_CTRL_SOCKET'' ''AEMU_SHELL_GUEST_CTRL_SOCKET''
         (default_guest_ctrl_socket_path h),
       guestAgentImagePath = env_or_legacy h ''MACMU_GUEST_AGENT_IMAGE'' ''AEMU_SHELL_GUEST_AGENT_IMAGE''
         (default_guest_agent_image_path h launcher),
       guestRamdiskOverlayPath =
         env_or_legacy h ''MACMU_GUEST_RAMDISK_OVERLAY'' ''AEMU_SHELL_GUEST_RAMDISK_OVERLAY''
           (default_guest_ramdisk_overlay_path h launcher),
       guestRamdiskPath = env_or_legacy h ''MACMU_GUEST_RAMDISK'' ''AEMU_SHELL_GUEST_RAMDISK''
         (default_guest_ramdisk_path launcher),
       avdName = env_or_legacy h ''MACMU_AVD_NAME'' ''AEMU_SHELL_AVD_NAME'' kDefaultAvdName,
       wipeData = False\<rparr>)"

text \<open>The seven local flags that record which derived paths were given explicitly.\<close>

record overridden =
  qemu_path_overridden :: bool
  avd_home_overridden :: bool
  system_path_overridden :: bool
  dyld_library_path_overridden :: bool
  guest_ramdisk_overlay_overridden :: bool
  guest_ramdisk_overridden :: bool
  guest_agent_image_overridden :: bool

definition env_set :: "shell_host \<Rightarrow> string \<Rightarrow> bool" where
  "env_set h name \<longleftrightarrow> getenv h name \<noteq> None"

definition environment_overrides :: "shell_host \<Rightarrow> overridden" where
  "environment_overrides h =
     \<lparr>qemu_path_overridden = (env_set h ''MACMU_QEMU_PATH'' \<or> env_set h ''AEMU_SHELL_QEMU_PATH''),
      avd_home_overridden = (env_set h ''MACMU_AVD_HOME'' \<or> env_set h ''AEMU_SHELL_AVD_HOME'' \<or>
        env_set h ''ANDROID_AVD_HOME''),
      system_path_overridden = (env_set h ''MACMU_SYSTEM_PATH'' \<or> env_set h ''AEMU_SHELL_SYSTEM_PATH''),
      dyld_library_path_overridden =
        (env_set h ''MACMU_DYLD_LIBRARY_PATH'' \<or> env_set h ''AEMU_SHELL_DYLD_LIBRARY_PATH''),
      guest_ramdisk_overlay_overridden =
        (env_set h ''MACMU_GUEST_RAMDISK_OVERLAY'' \<or> env_set h ''AEMU_SHELL_GUEST_RAMDISK_OVERLAY''),
      guest_ramdisk_overridden = (env_set h ''MACMU_GUEST_RAMDISK'' \<or> env_set h ''AEMU_SHELL_GUEST_RAMDISK''),
      guest_agent_image_overridden =
        (env_set h ''MACMU_GUEST_AGENT_IMAGE'' \<or> env_set h ''AEMU_SHELL_GUEST_AGENT_IMAGE'')\<rparr>"

section \<open>The command line\<close>

definition set_launcher_dir :: "shell_host \<Rightarrow> string \<Rightarrow> ShellOptions \<times> overridden \<Rightarrow> ShellOptions \<times> overridden" where
  "set_launcher_dir h v = (\<lambda>(options, f).
     let o1 = options\<lparr>launcherDir := v\<rparr>;
         o2 = (if \<not> qemu_path_overridden f then o1\<lparr>qemuPath := default_qemu_path v\<rparr> else o1);
         o3 = (if \<not> dyld_library_path_overridden f
               then o2\<lparr>dyldLibraryPath := default_dyld_library_path v\<rparr> else o2);
         o4 = (if \<not> guest_ramdisk_overlay_overridden f
               then o3\<lparr>guestRamdiskOverlayPath := default_guest_ramdisk_overlay_path h v\<rparr> else o3);
         o5 = (if \<not> guest_ramdisk_overridden f
               then o4\<lparr>guestRamdiskPath := default_guest_ramdisk_path v\<rparr> else o4);
         o6 = (if \<not> guest_agent_image_overridden f
               then o5\<lparr>guestAgentImagePath := default_guest_agent_image_path h v\<rparr> else o5) in
     (o6, f))"

definition set_app_data_dir :: "string \<Rightarrow> ShellOptions \<times> overridden \<Rightarrow> ShellOptions \<times> overridden" where
  "set_app_data_dir v = (\<lambda>(options, f).
     let o1 = options\<lparr>appDataDir := v\<rparr>;
         o2 = (if \<not> avd_home_overridden f then o1\<lparr>avdHome := default_avd_home v\<rparr> else o1);
         o3 = (if \<not> system_path_overridden f then o2\<lparr>systemPath := default_system_path v\<rparr> else o2) in
     (o3, f))"

text \<open>The options that take a value, with what each does; \<open>None\<close> for any other argument.\<close>

definition value_option ::
  "shell_host \<Rightarrow> string \<Rightarrow> (string \<Rightarrow> ShellOptions \<times> overridden \<Rightarrow> ShellOptions \<times> overridden) option" where
  "value_option h arg =
     (if arg = ''--launcher-dir'' then Some (set_launcher_dir h)
      else if arg = ''--app-data-dir'' then Some set_app_data_dir
      else if arg = ''--avd-home''
      then Some (\<lambda>v (options, f). (options\<lparr>avdHome := v\<rparr>, f\<lparr>avd_home_overridden := True\<rparr>))
      else if arg = ''--qemu''
      then Some (\<lambda>v (options, f). (options\<lparr>qemuPath := v\<rparr>, f\<lparr>qemu_path_overridden := True\<rparr>))
      else if arg = ''--dyld-library-path''
      then Some (\<lambda>v (options, f). (options\<lparr>dyldLibraryPath := v\<rparr>, f\<lparr>dyld_library_path_overridden := True\<rparr>))
      else if arg = ''--input-socket'' then Some (\<lambda>v (options, f). (options\<lparr>inputSocketPath := v\<rparr>, f))
      else if arg = ''--system-path''
      then Some (\<lambda>v (options, f). (options\<lparr>systemPath := v\<rparr>, f\<lparr>system_path_overridden := True\<rparr>))
      else if arg = ''--import-image'' then Some (\<lambda>v (options, f). (options\<lparr>imageImportSource := v\<rparr>, f))
      else if arg = ''--guest-rpc-socket'' then Some (\<lambda>v (options, f). (options\<lparr>guestRpcSocketPath := v\<rparr>, f))
      else if arg = ''--guest-ctrl-socket'' then Some (\<lambda>v (options, f). (options\<lparr>guestCtrlSocketPath := v\<rparr>, f))
      else if arg = ''--guest-agent-image''
      then Some (\<lambda>v (options, f). (options\<lparr>guestAgentImagePath := v\<rparr>, f\<lparr>guest_agent_image_overridden := True\<rparr>))
      else if arg = ''--guest-ramdisk-overlay''
      then Some (\<lambda>v (options, f).
        (options\<lparr>guestRamdiskOverlayPath := v\<rparr>, f\<lparr>guest_ramdisk_overlay_overridden := True\<rparr>))
      else if arg = ''--guest-ramdisk''
      then Some (\<lambda>v (options, f). (options\<lparr>guestRamdiskPath := v\<rparr>, f\<lparr>guest_ramdisk_overridden := True\<rparr>))
      else if arg = ''--avd'' then Some (\<lambda>v (options, f). (options\<lparr>avdName := v\<rparr>, f))
      else None)"

definition plain_option :: "string \<Rightarrow> ShellOptions \<Rightarrow> ShellOptions" where
  "plain_option arg options =
     (if arg = ''--auto-image-import'' then options\<lparr>autoImportDefaultImage := True\<rparr>
      else if arg = ''--no-auto-image-import'' then options\<lparr>autoImportDefaultImage := False\<rparr>
      else if arg = ''--wipe-data'' then options\<lparr>wipeData := True\<rparr>
      else options)"

text \<open>
  The loop: an option at the end of the line without its value is reported and ignored, as is any
  argument that is no option.
\<close>

fun parse_arguments :: "shell_host \<Rightarrow> string list \<Rightarrow> ShellOptions \<times> overridden \<Rightarrow> ShellOptions \<times> overridden" where
  "parse_arguments h [] s = s"
| "parse_arguments h (arg # rest) s =
     (case value_option h arg of
        Some set_value \<Rightarrow>
          (case rest of [] \<Rightarrow> s | v # rest' \<Rightarrow> parse_arguments h rest' (set_value v s))
      | None \<Rightarrow> parse_arguments h rest (plain_option arg (fst s), snd s))"

definition parse_options :: "shell_host \<Rightarrow> string list \<Rightarrow> ShellOptions" where
  "parse_options h args =
     fst (parse_arguments h (tl args) (environment_options h, environment_overrides h))"

section \<open>A reference without order\<close>

text \<open>
  The command line as a list of settings: an option with its value, or a plain argument. An option
  that takes a value takes the next argument, whatever it looks like.
\<close>

definition takes_value :: "string \<Rightarrow> bool" where
  "takes_value arg \<longleftrightarrow>
     arg \<in> set [''--launcher-dir'', ''--app-data-dir'', ''--avd-home'', ''--qemu'', ''--dyld-library-path'',
       ''--input-socket'', ''--system-path'', ''--import-image'', ''--guest-rpc-socket'',
       ''--guest-ctrl-socket'', ''--guest-agent-image'', ''--guest-ramdisk-overlay'', ''--guest-ramdisk'',
       ''--avd'']"

fun settings :: "string list \<Rightarrow> (string \<times> string) list" where
  "settings [] = []"
| "settings (arg # rest) =
     (if takes_value arg then (case rest of [] \<Rightarrow> [] | v # rest' \<Rightarrow> (arg, v) # settings rest')
      else (arg, []) # settings rest)"

text \<open>The value given last to an option.\<close>

primrec given :: "string \<Rightarrow> (string \<times> string) list \<Rightarrow> string option" where
  "given flag [] = None"
| "given flag (x # xs) =
     (case given flag xs of Some v \<Rightarrow> Some v | None \<Rightarrow> if fst x = flag then Some (snd x) else None)"

text \<open>
  What the options are, field by field: the value given last, else the value from the environment;
  for a derived path that nobody set, the default below the final directory.
\<close>

definition pick :: "string \<Rightarrow> (string \<times> string) list \<Rightarrow> string \<Rightarrow> string" where
  "pick flag ss d = (case given flag ss of Some v \<Rightarrow> v | None \<Rightarrow> d)"

definition auto_import :: "(string \<times> string) list \<Rightarrow> bool \<Rightarrow> bool" where
  "auto_import ss d =
     (case filter (\<lambda>a. a = ''--auto-image-import'' \<or> a = ''--no-auto-image-import'') (map fst ss) of
        [] \<Rightarrow> d
      | as \<Rightarrow> last as = ''--auto-image-import'')"

definition resolved :: "shell_host \<Rightarrow> (string \<times> string) list \<Rightarrow> ShellOptions \<times> overridden \<Rightarrow> ShellOptions" where
  "resolved h ss s =
     (let (e, f) = s;
          launcher = pick ''--launcher-dir'' ss (launcherDir e);
          app = pick ''--app-data-dir'' ss (appDataDir e) in
      \<lparr>appDataDir = app,
       avdHome = pick ''--avd-home'' ss (if avd_home_overridden f then avdHome e else default_avd_home app),
       launcherDir = launcher,
       qemuPath = pick ''--qemu'' ss (if qemu_path_overridden f then qemuPath e else default_qemu_path launcher),
       dyldLibraryPath = pick ''--dyld-library-path'' ss
         (if dyld_library_path_overridden f then dyldLibraryPath e else default_dyld_library_path launcher),
       inputSocketPath = pick ''--input-socket'' ss (inputSocketPath e),
       systemPath = pick ''--system-path'' ss
         (if system_path_overridden f then systemPath e else default_system_path app),
       imageImportSource = pick ''--import-image'' ss (imageImportSource e),
       autoImportDefaultImage = auto_import ss (autoImportDefaultImage e),
       guestRpcSocketPath = pick ''--guest-rpc-socket'' ss (guestRpcSocketPath e),
       guestCtrlSocketPath = pick ''--guest-ctrl-socket'' ss (guestCtrlSocketPath e),
       guestAgentImagePath = pick ''--guest-agent-image'' ss
         (if guest_agent_image_overridden f then guestAgentImagePath e
          else default_guest_agent_image_path h launcher),
       guestRamdiskOverlayPath = pick ''--guest-ramdisk-overlay'' ss
         (if guest_ramdisk_overlay_overridden f then guestRamdiskOverlayPath e
          else default_guest_ramdisk_overlay_path h launcher),
       guestRamdiskPath = pick ''--guest-ramdisk'' ss
         (if guest_ramdisk_overridden f then guestRamdiskPath e else default_guest_ramdisk_path launcher),
       avdName = pick ''--avd'' ss (avdName e),
       wipeData = (wipeData e \<or> ''--wipe-data'' \<in> set (map fst ss))\<rparr>)"

section \<open>Lemmas\<close>

text \<open>A derived path that is not marked as given is the default below its directory.\<close>

definition derived_ok :: "shell_host \<Rightarrow> ShellOptions \<times> overridden \<Rightarrow> bool" where
  "derived_ok h s \<longleftrightarrow>
     (let (e, f) = s in
      (qemu_path_overridden f \<or> qemuPath e = default_qemu_path (launcherDir e)) \<and>
      (avd_home_overridden f \<or> avdHome e = default_avd_home (appDataDir e)) \<and>
      (system_path_overridden f \<or> systemPath e = default_system_path (appDataDir e)) \<and>
      (dyld_library_path_overridden f \<or> dyldLibraryPath e = default_dyld_library_path (launcherDir e)) \<and>
      (guest_ramdisk_overlay_overridden f \<or>
        guestRamdiskOverlayPath e = default_guest_ramdisk_overlay_path h (launcherDir e)) \<and>
      (guest_ramdisk_overridden f \<or> guestRamdiskPath e = default_guest_ramdisk_path (launcherDir e)) \<and>
      (guest_agent_image_overridden f \<or>
        guestAgentImagePath e = default_guest_agent_image_path h (launcherDir e)))"

lemma env_changed: "env_or_default h name d \<noteq> d \<Longrightarrow> env_set h name"
  by (auto simp: env_set_def env_or_default_def split: option.splits)

lemma env_legacy_changed: "env_or_legacy h name legacy d = d \<or> env_set h name \<or> env_set h legacy"
  unfolding env_or_legacy_def by (metis env_changed)

lemma environment_derived_ok: "derived_ok h (environment_options h, environment_overrides h)"
proof -
  have "env_or_legacy h ''MACMU_AVD_HOME'' ''AEMU_SHELL_AVD_HOME'' (env_or_default h ''ANDROID_AVD_HOME'' d) = d \<or>
      env_set h ''MACMU_AVD_HOME'' \<or> env_set h ''AEMU_SHELL_AVD_HOME'' \<or> env_set h ''ANDROID_AVD_HOME''" for d
    by (metis env_changed env_legacy_changed)
  then show ?thesis
    unfolding derived_ok_def environment_options_def environment_overrides_def Let_def prod.case
      ShellOptions.simps overridden.simps
    using env_legacy_changed [of h] by (intro conjI) metis+
qed

lemma pick_Cons:
  "pick flag (x # ss) d = pick flag ss (if fst x = flag then snd x else d)"
  by (auto simp: pick_def split: option.split)

lemma auto_import_Cons:
  "auto_import (x # ss) d = auto_import ss
     (if fst x = ''--auto-image-import'' then True
      else if fst x = ''--no-auto-image-import'' then False else d)"
  by (auto simp: auto_import_def split: list.split)

lemma value_option_takes: "(value_option h arg \<noteq> None) = takes_value arg"
  by (simp add: value_option_def takes_value_def)

lemma unless_derived: "ov \<or> x = d \<Longrightarrow> (if ov then x else d) = x"
  by auto

lemma resolved_nil:
  assumes "derived_ok h (e, f)"
  shows "resolved h [] (e, f) = e"
  using assms unless_derived [where 'a = string]
  by (intro ShellOptions.equality)
    (simp_all add: resolved_def derived_ok_def pick_def auto_import_def Let_def split del: if_split)

lemma set_launcher_dir_fields:
  "set_launcher_dir h v (e, f) =
     (e\<lparr>launcherDir := v,
        qemuPath := if qemu_path_overridden f then qemuPath e else default_qemu_path v,
        dyldLibraryPath := if dyld_library_path_overridden f then dyldLibraryPath e
          else default_dyld_library_path v,
        guestRamdiskOverlayPath := if guest_ramdisk_overlay_overridden f then guestRamdiskOverlayPath e
          else default_guest_ramdisk_overlay_path h v,
        guestRamdiskPath := if guest_ramdisk_overridden f then guestRamdiskPath e
          else default_guest_ramdisk_path v,
        guestAgentImagePath := if guest_agent_image_overridden f then guestAgentImagePath e
          else default_guest_agent_image_path h v\<rparr>, f)"
  by (cases "qemu_path_overridden f"; cases "dyld_library_path_overridden f";
      cases "guest_ramdisk_overlay_overridden f"; cases "guest_ramdisk_overridden f";
      cases "guest_agent_image_overridden f") (simp_all add: set_launcher_dir_def)

lemma set_app_data_dir_fields:
  "set_app_data_dir v (e, f) =
     (e\<lparr>appDataDir := v,
        avdHome := if avd_home_overridden f then avdHome e else default_avd_home v,
        systemPath := if system_path_overridden f then systemPath e else default_system_path v\<rparr>, f)"
  by (cases "avd_home_overridden f"; cases "system_path_overridden f") (simp_all add: set_app_data_dir_def)

text \<open>One option: it moves the starting point of the reference and keeps derived paths derived.\<close>

definition option_ok :: "shell_host \<Rightarrow> string \<Rightarrow> (string \<Rightarrow> ShellOptions \<times> overridden \<Rightarrow> ShellOptions \<times> overridden) \<Rightarrow> bool" where
  "option_ok h arg g \<longleftrightarrow>
     (\<forall>v ss e f. resolved h ((arg, v) # ss) (e, f) = resolved h ss (g v (e, f)) \<and>
       (derived_ok h (e, f) \<longrightarrow> derived_ok h (g v (e, f))))"

lemmas resolved_cons = resolved_def pick_Cons auto_import_Cons

lemma derived_if: "c \<or> (if c then x else y) = y"
  by simp

lemma value_option_ok:
  assumes "takes_value arg"
  shows "option_ok h arg (the (value_option h arg))"
  using assms
  unfolding takes_value_def list.set insert_iff empty_iff simp_thms
  by (elim disjE)
    (simp_all add: value_option_def option_ok_def resolved_cons derived_ok_def
      set_launcher_dir_fields set_app_data_dir_fields Let_def derived_if cong: if_cong split del: if_split)

lemma plain_option_ok:
  assumes "\<not> takes_value arg"
  shows "option_ok h arg (\<lambda>v (e, f). (plain_option arg e, f))"
  using assms
  by (simp add: takes_value_def plain_option_def option_ok_def resolved_cons derived_ok_def Let_def)

lemma parse_arguments_resolved:
  "derived_ok h s \<Longrightarrow> fst (parse_arguments h args s) = resolved h (settings args) s"
proof (induction args arbitrary: s rule: settings.induct)
  case 1
  then show ?case by (cases s) (simp add: resolved_nil)
next
  case (2 arg rest)
  obtain e f where s: "s = (e, f)" by fastforce
  show ?case
  proof (cases "takes_value arg")
    case True
    then obtain g where g: "value_option h arg = Some g" using value_option_takes by fastforce
    with value_option_ok [OF True, of h] have "option_ok h arg g" by simp
    with 2 True g show ?thesis by (cases rest) (simp_all add: s option_ok_def resolved_nil)
  next
    case False
    then have "value_option h arg = None" using value_option_takes by blast
    with 2 False plain_option_ok [OF False, of h] show ?thesis by (simp add: s option_ok_def)
  qed
qed

text \<open>A machine with the empty variable, for the example below.\<close>

definition sample_host :: shell_host where
  "sample_host = \<lparr>getenv = [''MACMU_QEMU_PATH'' \<mapsto> [], ''MACMU_LAUNCHER_DIR'' \<mapsto> ''/old''],
     accessible = (\<lambda>_. False), getcwd = None, executablePath = None, realpath = (\<lambda>_. None), getpid = 7\<rparr>"

section \<open>Properties\<close>

text \<open>
  (C18) The options do not depend on the order in which different flags are given: every option has
  the value given last, else the one from the environment, and every path derived from the launcher
  or the data directory that was set by neither follows the directory that was chosen in the end.
\<close>

theorem options_resolved:
  "parse_options h args =
     resolved h (settings (tl args)) (environment_options h, environment_overrides h)"
  by (simp add: parse_options_def parse_arguments_resolved environment_derived_ok)

text \<open>
  (C34) A variable that is set but empty freezes a derived path: its empty value is ignored, but the
  path counts as given, so it keeps pointing below the launcher directory of the environment when
  the command line chooses another one.
\<close>

theorem empty_variable_freezes_path:
  assumes "getenv h ''MACMU_QEMU_PATH'' = Some []" and "getenv h ''AEMU_SHELL_QEMU_PATH'' = None"
  shows "launcherDir (parse_options h [prog, ''--launcher-dir'', dir]) = dir \<and>
         qemuPath (parse_options h [prog, ''--launcher-dir'', dir]) =
           default_qemu_path (launcherDir (environment_options h))"
proof -
  have ov: "qemu_path_overridden (environment_overrides h)"
    using assms by (simp add: environment_overrides_def env_set_def)
  have q: "qemuPath (environment_options h) = default_qemu_path (launcherDir (environment_options h))"
    using assms by (simp add: environment_options_def env_or_legacy_def env_or_default_def Let_def)
  have "settings [''--launcher-dir'', dir] = [(''--launcher-dir'', dir)]" by (simp add: takes_value_def)
  then have "parse_options h [prog, ''--launcher-dir'', dir] =
      resolved h [(''--launcher-dir'', dir)] (environment_options h, environment_overrides h)"
    using parse_arguments_resolved [OF environment_derived_ok, of h "[''--launcher-dir'', dir]"]
    by (simp add: parse_options_def del: parse_arguments.simps)
  with ov q show ?thesis by (simp add: resolved_def pick_def Let_def)
qed

theorem empty_variable_freezes_path_witness:
  "qemuPath (parse_options sample_host [''macmu'', ''--launcher-dir'', ''/new'']) =
     ''/old/qemu/darwin-aarch64/qemu-system-aarch64-headless''"
  using empty_variable_freezes_path [of sample_host "''macmu''" "''/new''"]
  by (simp add: sample_host_def environment_options_def env_or_legacy_def env_or_default_def Let_def
      default_qemu_path_def path_join_def kQemuHeadlessRelativePath_def)

end
