(* ===== verification/Qemu_Launcher.thy ===== *)
theory Qemu_Launcher
  imports Shell_Options Input_Sender
begin

text \<open>
  \<^verbatim>\<open>shell/core/qemu_launcher.cpp\<close>: the command line, the environment and the inherited
  descriptors of the emulator process, its launch, and the signals that end it. System calls answer
  from a record. Proved: what the child finds in its environment and in its descriptor table, and
  that every path releases what it acquired.
\<close>

section \<open>Command line and environment\<close>

definition kChildFrameDoorbellFd :: int where "kChildFrameDoorbellFd = 198"
definition kMinTemporarySpawnFd :: int where "kMinTemporarySpawnFd = 256"
definition kFrameDoorbellFdEnv :: string where "kFrameDoorbellFdEnv = ''MACMU_FRAME_DOORBELL_FD''"
definition kLegacyFrameDoorbellFdEnv :: string where "kLegacyFrameDoorbellFdEnv = ''AEMU_FRAME_DOORBELL_FD''"
definition kInputFdEnv :: string where "kInputFdEnv = ''MACMU_INPUT_FD''"
definition kControlFdEnv :: string where "kControlFdEnv = ''MACMU_CONTROL_FD''"

primrec has_key :: "(string \<times> string) list \<Rightarrow> string \<Rightarrow> bool" where
  "has_key [] key = False"
| "has_key (x # xs) key = (if fst x = key then True else has_key xs key)"

definition entry_key :: "string \<Rightarrow> string" where
  "entry_key entry = takeWhile (\<lambda>c. c \<noteq> CHR ''='') entry"

definition make_environment :: "string list \<Rightarrow> (string \<times> string) list \<Rightarrow> string list" where
  "make_environment environ overrides =
     filter (\<lambda>entry. \<not> has_key overrides (entry_key entry)) environ @
     map (\<lambda>x. fst x @ ''='' @ snd x) overrides"

definition make_cstring_vector :: "string list \<Rightarrow> string option list" where
  "make_cstring_vector values = map Some values @ [None]"

definition qemu_arguments :: "ShellOptions \<Rightarrow> string list" where
  "qemu_arguments options =
     [qemuPath options, ''-avd'', avdName options, ''-no-window'', ''-no-audio'', ''-no-snapshot'',
      ''-no-boot-anim'', ''-gpu'', ''host''] @
     (if systemPath options \<noteq> [] then [''-sysdir'', systemPath options] else []) @
     (if wipeData options then [''-wipe-data''] else []) @
     (if guestRpcSocketPath options \<noteq> [] then [''-unix-pipe'', guestRpcSocketPath options] else []) @
     (if guestCtrlSocketPath options \<noteq> [] then [''-unix-pipe'', guestCtrlSocketPath options] else [])"

definition fd_text :: "int \<Rightarrow> int \<Rightarrow> string" where
  "fd_text parentFd childFd = (if parentFd \<ge> 0 then decimal_int childFd else [])"

definition environment_overrides_for :: "int \<Rightarrow> ShellOptions \<Rightarrow> int \<Rightarrow> int \<Rightarrow> int \<Rightarrow> (string \<times> string) list" where
  "environment_overrides_for pid options frameDoorbellFd inputFd controlFd =
     [(''MACMU_IOSURFACE_EXPORT'', ''1''),
      (''AEMU_IOSURFACE_EXPORT'', ''1''),
      (''ANDROID_EMULATOR_LAUNCHER_DIR'', launcherDir options),
      (''ANDROID_EMULATOR_WRAPPER_PID'', decimal_int pid),
      (''ANDROID_AVD_HOME'', avdHome options),
      (''MACMU_APP_DATA_DIR'', appDataDir options),
      (''MACMU_AVD_HOME'', avdHome options),
      (''MACMU_GUEST_RPC_SOCKET'', guestRpcSocketPath options),
      (''MACMU_GUEST_CTRL_SOCKET'', guestCtrlSocketPath options),
      (''MACMU_GUEST_AGENT_IMAGE'', guestAgentImagePath options),
      (''MACMU_GUEST_RAMDISK'', guestRamdiskPath options),
      (''MACMU_GUEST_RAMDISK_OVERLAY'', guestRamdiskOverlayPath options),
      (''DYLD_LIBRARY_PATH'', dyldLibraryPath options),
      (kFrameDoorbellFdEnv, fd_text frameDoorbellFd kChildFrameDoorbellFd),
      (kLegacyFrameDoorbellFdEnv, fd_text frameDoorbellFd kChildFrameDoorbellFd),
      (kInputFdEnv, fd_text inputFd kInputChildFd),
      (kControlFdEnv, fd_text controlFd kControlChildFd),
      (kInputSocketEnv, inputSocketPath options),
      (''LC_ALL'', ''C''),
      (''MESA_RGB_VISUAL'', ''TrueColor 24''),
      (''SWIFT_BACKTRACE'', ''enable=no'')]"

section \<open>Inherited descriptors\<close>

datatype file_action = Add_dup2 int int | Add_close int | Add_inherit int

text \<open>
  The calls of the launch that acquire or release something, and the spawn itself with the actions,
  the argument vector and the environment it is given.
\<close>

datatype qcall =
  Actions_init
| Actions_destroy
| Dup_made int int
| Fd_closed int
| Attr_init
| Attr_destroy
| Spawn string "file_action list option" "string option list" "string option list"

text \<open>
  What the calls answer. \<open>dupFd n fd\<close> is the answer to the \<open>n\<close>-th
  \<^verbatim>\<open>fcntl(F_DUPFD_CLOEXEC)\<close>, on descriptor \<open>fd\<close>; the other numbers are results with 0 for
  success.
\<close>

record spawn_host =
  environ :: "string list"
  ownPid :: int
  actionsInit :: int
  fdOpen :: "int \<Rightarrow> bool"
  addInherit :: "int \<Rightarrow> int"
  dupFd :: "nat \<Rightarrow> int \<Rightarrow> int"
  addDup2 :: "int \<Rightarrow> int \<Rightarrow> int"
  addClose :: "int \<Rightarrow> int"
  attrInit :: int
  attrSetFlags :: int
  attrSetPgroup :: int
  spawnResult :: int
  spawnPid :: int

record spawn_state =
  fileActions :: "file_action list option"
  temporarySpawnFds :: "int list"
  qcalls :: "qcall list"

definition new_spawn_state :: spawn_state where
  "new_spawn_state = \<lparr>fileActions = None, temporarySpawnFds = [], qcalls = []\<rparr>"

definition qlog :: "qcall list \<Rightarrow> spawn_state \<Rightarrow> spawn_state" where
  "qlog cs st = st\<lparr>qcalls := qcalls st @ cs\<rparr>"

definition close_temporary_spawn_fds :: "spawn_state \<Rightarrow> spawn_state" where
  "close_temporary_spawn_fds st =
     (qlog (map Fd_closed (temporarySpawnFds st)) st)\<lparr>temporarySpawnFds := []\<rparr>"

definition destroy_file_actions :: "spawn_state \<Rightarrow> spawn_state" where
  "destroy_file_actions st = (if fileActions st = None then st else qlog [Actions_destroy] st)"

definition ensure_file_actions :: "spawn_host \<Rightarrow> spawn_state \<Rightarrow> bool \<times> spawn_state" where
  "ensure_file_actions h st =
     (if fileActions st \<noteq> None then (True, st)
      else if actionsInit h \<noteq> 0 then (False, st)
      else (True, (qlog [Actions_init] st)\<lparr>fileActions := Some []\<rparr>))"

definition duplicate_for_spawn :: "spawn_host \<Rightarrow> int \<Rightarrow> spawn_state \<Rightarrow> int \<times> spawn_state" where
  "duplicate_for_spawn h parentFd st =
     (let d = dupFd h (length (temporarySpawnFds st)) parentFd in
      if d < 0 then (-1, st)
      else (d, (qlog [Dup_made parentFd d] st)\<lparr>temporarySpawnFds := temporarySpawnFds st @ [d]\<rparr>))"

definition add_action :: "file_action \<Rightarrow> spawn_state \<Rightarrow> spawn_state" where
  "add_action a st = st\<lparr>fileActions := map_option (\<lambda>as. as @ [a]) (fileActions st)\<rparr>"

definition add_inherited_fd :: "spawn_host \<Rightarrow> int \<Rightarrow> int \<Rightarrow> spawn_state \<Rightarrow> bool \<times> spawn_state" where
  "add_inherited_fd h parentFd childFd st =
     (if parentFd < 0 then (True, st)
      else
        let (ok, st1) = ensure_file_actions h st in
        if \<not> ok then (False, st1)
        else
          let (d, st2) = duplicate_for_spawn h parentFd st1 in
          if d < 0 then (False, st2)
          else if addDup2 h d childFd \<noteq> 0 then (False, st2)
          else
            let st3 = add_action (Add_dup2 d childFd) st2 in
            if addClose h d \<noteq> 0 then (False, st3)
            else (True, add_action (Add_close d) st3))"

text \<open>
  The descriptors of standard input, output and error that are open are preserved. On failure the
  result is the state after the clean-up.
\<close>

fun preserve_stdio :: "spawn_host \<Rightarrow> int list \<Rightarrow> spawn_state \<Rightarrow> bool \<times> spawn_state" where
  "preserve_stdio h [] st = (True, st)"
| "preserve_stdio h (fd # fds) st =
     (if \<not> fdOpen h fd then preserve_stdio h fds st
      else
        let (ok, st1) = ensure_file_actions h st in
        if \<not> ok then (False, close_temporary_spawn_fds st1)
        else if addInherit h fd \<noteq> 0
        then (False, close_temporary_spawn_fds (destroy_file_actions st1))
        else preserve_stdio h fds (add_action (Add_inherit fd) st1))"

text \<open>The three channels, each with the same clean-up when it fails.\<close>

fun inherit_fds :: "spawn_host \<Rightarrow> (int \<times> int) list \<Rightarrow> spawn_state \<Rightarrow> bool \<times> spawn_state" where
  "inherit_fds h [] st = (True, st)"
| "inherit_fds h (x # xs) st =
     (let (ok, st1) = add_inherited_fd h (fst x) (snd x) st in
      if \<not> ok then (False, close_temporary_spawn_fds (destroy_file_actions st1))
      else inherit_fds h xs st1)"

text \<open>The attributes and the spawn.\<close>

definition spawn_qemu :: "spawn_host \<Rightarrow> ShellOptions \<Rightarrow> string option list \<Rightarrow> string option list \<Rightarrow> spawn_state \<Rightarrow> int \<times> spawn_state" where
  "spawn_qemu h options argv envp st =
     (let attributesInitialized = (attrInit h = 0);
          st1 = (if attributesInitialized then qlog [Attr_init] st else st);
          attributeResult =
            (if attrInit h \<noteq> 0 then attrInit h
             else if attrSetFlags h \<noteq> 0 then attrSetFlags h else attrSetPgroup h) in
      if attributeResult \<noteq> 0
      then
        let st2 = destroy_file_actions st1;
            st3 = (if attributesInitialized then qlog [Attr_destroy] st2 else st2) in
        (-1, close_temporary_spawn_fds st3)
      else
        let st2 = qlog [Spawn (qemuPath options) (fileActions st1) argv envp, Attr_destroy] st1;
            st3 = close_temporary_spawn_fds (destroy_file_actions st2) in
        (if spawnResult h \<noteq> 0 then -1 else spawnPid h, st3))"

definition launch_qemu :: "spawn_host \<Rightarrow> ShellOptions \<Rightarrow> int \<Rightarrow> int \<Rightarrow> int \<Rightarrow> int \<times> qcall list" where
  "launch_qemu h options frameDoorbellFd inputFd controlFd =
     (let argv = make_cstring_vector (qemu_arguments options);
          overrides = environment_overrides_for (ownPid h) options frameDoorbellFd inputFd controlFd;
          envp = make_cstring_vector (make_environment (environ h) overrides);
          (ok1, st1) = preserve_stdio h [0, 1, 2] new_spawn_state in
      if \<not> ok1 then (-1, qcalls st1)
      else
        let (ok2, st2) = inherit_fds h
              [(frameDoorbellFd, kChildFrameDoorbellFd), (inputFd, kInputChildFd), (controlFd, kControlChildFd)] st1 in
        if \<not> ok2 then (-1, qcalls st2)
        else
          let (pid, st3) = spawn_qemu h options argv envp st2 in (pid, qcalls st3))"

section \<open>Ending the process\<close>

definition SIGTERM :: int where "SIGTERM = 15"
definition SIGKILL :: int where "SIGKILL = 9"

text \<open>\<open>kill\<close> answers; the result is the list of signals sent, with their targets.\<close>

definition signal_qemu_process_group :: "(int \<Rightarrow> int) \<Rightarrow> int \<Rightarrow> int \<Rightarrow> (int \<times> int) list" where
  "signal_qemu_process_group kill pid signal =
     (if pid \<le> 0 then []
      else if kill (- pid) \<noteq> 0 then [(- pid, signal), (pid, signal)]
      else [(- pid, signal)])"

definition request_qemu_termination :: "(int \<Rightarrow> int) \<Rightarrow> int \<Rightarrow> (int \<times> int) list" where
  "request_qemu_termination kill pid = signal_qemu_process_group kill pid SIGTERM"

definition force_kill_qemu :: "(int \<Rightarrow> int) \<Rightarrow> int \<Rightarrow> (int \<times> int) list" where
  "force_kill_qemu kill pid = signal_qemu_process_group kill pid SIGKILL"

section \<open>What the child sees\<close>

text \<open>
  \<^verbatim>\<open>getenv\<close> in a process: the first entry that is the name, an equals sign and the value.
\<close>

fun env_lookup :: "string list \<Rightarrow> string \<Rightarrow> string option" where
  "env_lookup [] name = None"
| "env_lookup (entry # entries) name =
     (if take (length name + 1) entry = name @ ''='' then Some (drop (length name + 1) entry)
      else env_lookup entries name)"

text \<open>
  Descriptor tables: a descriptor stands for an open file. Duplicating and closing change the table
  of the shell. The child starts from a copy, applies the actions in order, and keeps only what the
  actions name, as \<^verbatim>\<open>POSIX_SPAWN_CLOEXEC_DEFAULT\<close> demands.
\<close>

type_synonym 'f fd_table = "int \<Rightarrow> 'f option"

fun fd_effect :: "qcall \<Rightarrow> 'f fd_table \<Rightarrow> 'f fd_table" where
  "fd_effect (Dup_made p d) T = T(d := T p)"
| "fd_effect (Fd_closed d) T = T(d := None)"
| "fd_effect _ T = T"

fun run_action :: "file_action \<Rightarrow> 'f fd_table \<times> int list \<Rightarrow> 'f fd_table \<times> int list" where
  "run_action (Add_dup2 s d) (T, kept) = (T(d := T s), d # kept)"
| "run_action (Add_close s) (T, kept) = (T(s := None), removeAll s kept)"
| "run_action (Add_inherit fd) (T, kept) = (T, fd # kept)"

definition child_table :: "file_action list option \<Rightarrow> 'f fd_table \<Rightarrow> 'f fd_table" where
  "child_table as T =
     (let (T', kept) = fold run_action (case as of None \<Rightarrow> [] | Some xs \<Rightarrow> xs) (T, []) in
      (\<lambda>fd. if fd \<in> set kept then T' fd else None))"

definition is_spawn :: "qcall \<Rightarrow> bool" where
  "is_spawn c \<longleftrightarrow> (case c of Spawn _ _ _ _ \<Rightarrow> True | _ \<Rightarrow> False)"

definition table_at_spawn :: "qcall list \<Rightarrow> 'f fd_table \<Rightarrow> 'f fd_table" where
  "table_at_spawn cs T = fold fd_effect (takeWhile (\<lambda>c. \<not> is_spawn c) cs) T"

text \<open>
  What \<^verbatim>\<open>fcntl(F_DUPFD_CLOEXEC, 256)\<close> promises: it fails or returns a number of at least 256
  that is not in use, hence never one it has returned and that is still open. And
  \<^verbatim>\<open>fcntl(F_GETFD)\<close> fails exactly on closed descriptors.
\<close>

definition kernel_ok :: "spawn_host \<Rightarrow> 'f fd_table \<Rightarrow> bool" where
  "kernel_ok h T \<longleftrightarrow>
     (\<forall>n p. dupFd h n p < 0 \<or> kMinTemporarySpawnFd \<le> dupFd h n p \<and> T (dupFd h n p) = None) \<and>
     (\<forall>m n p q. m \<noteq> n \<longrightarrow> 0 \<le> dupFd h m p \<longrightarrow> dupFd h m p \<noteq> dupFd h n q) \<and>
     (\<forall>fd. fdOpen h fd = (T fd \<noteq> None))"

section \<open>Lemmas: environment\<close>

lemma has_key_iff: "has_key xs key = (key \<in> fst ` set xs)"
  by (induction xs) auto

lemma env_lookup_append:
  "env_lookup (xs @ ys) name = (case env_lookup xs name of None \<Rightarrow> env_lookup ys name | Some v \<Rightarrow> Some v)"
  by (induction xs) auto

lemma entry_key_eq:
  assumes "CHR ''='' \<notin> set name"
  shows "entry_key (name @ ''='' @ v) = name"
  using assms by (induction name) (auto simp: entry_key_def)

lemma entry_key_of_match:
  assumes "CHR ''='' \<notin> set name" and "take (length name + 1) entry = name @ ''=''"
  shows "entry_key entry = name"
proof -
  have "entry = (name @ ''='') @ drop (length name + 1) entry"
    unfolding assms(2) [symmetric] by simp
  then show ?thesis using entry_key_eq [OF assms(1)] by (metis append_assoc)
qed

lemma env_lookup_filter:
  assumes "CHR ''='' \<notin> set name"
  shows "env_lookup (filter (\<lambda>e. P (entry_key e)) xs) name = (if P name then env_lookup xs name else None)"
  using entry_key_of_match [OF assms] by (induction xs) auto

lemma env_lookup_overrides:
  assumes "CHR ''='' \<notin> set name" and "\<forall>x \<in> set xs. CHR ''='' \<notin> set (fst x)"
  shows "env_lookup (map (\<lambda>x. fst x @ ''='' @ snd x) xs) name = map_of xs name"
  using assms(2)
proof (induction xs)
  case (Cons x xs)
  show ?case
  proof (cases "fst x = name")
    case False
    have "entry_key (fst x @ ''='' @ snd x) = fst x" using Cons.prems by (simp add: entry_key_eq [simplified])
    with False entry_key_of_match [OF assms(1), of "fst x @ ''='' @ snd x"] Cons show ?thesis
      by (cases x) auto
  qed (cases x, simp)
qed simp

lemma env_lookup_make:
  assumes "CHR ''='' \<notin> set name" and "\<forall>x \<in> set xs. CHR ''='' \<notin> set (fst x)"
  shows "env_lookup (make_environment environment xs) name =
           (case map_of xs name of Some v \<Rightarrow> Some v | None \<Rightarrow> env_lookup environment name)"
proof -
  have "(map_of xs name = None) = (\<not> has_key xs name)" by (simp add: has_key_iff map_of_eq_None_iff)
  then show ?thesis
    using env_lookup_filter [OF assms(1), of "\<lambda>k. \<not> has_key xs k"] env_lookup_overrides [OF assms]
    by (auto simp: make_environment_def env_lookup_append split: option.split)
qed

section \<open>Lemmas: descriptors\<close>

text \<open>The channels that are present, as parent descriptor, duplicate and child descriptor.\<close>

fun channel_dups :: "spawn_host \<Rightarrow> nat \<Rightarrow> (int \<times> int) list \<Rightarrow> (int \<times> int \<times> int) list" where
  "channel_dups h n [] = []"
| "channel_dups h n (x # xs) =
     (if fst x < 0 then channel_dups h n xs
      else (fst x, dupFd h n (fst x), snd x) # channel_dups h (Suc n) xs)"

definition dup_calls :: "(int \<times> int \<times> int) list \<Rightarrow> qcall list" where
  "dup_calls cs = map (\<lambda>(p, d, c). Dup_made p d) cs"

definition channel_actions :: "(int \<times> int \<times> int) list \<Rightarrow> file_action list" where
  "channel_actions cs = concat (map (\<lambda>(p, d, c). [Add_dup2 d c, Add_close d]) cs)"

definition actions_of :: "spawn_state \<Rightarrow> file_action list" where
  "actions_of st = (case fileActions st of None \<Rightarrow> [] | Some as \<Rightarrow> as)"

text \<open>
  What a part of the launch does to the state: it adds actions, duplicates and calls, and between
  the calls it has opened the list of actions or not.
\<close>

definition grows :: "spawn_state \<Rightarrow> file_action list \<Rightarrow> (int \<times> int \<times> int) list \<Rightarrow> spawn_state \<Rightarrow> bool" where
  "grows st as cs st' \<longleftrightarrow>
     list_all (\<lambda>(p, d, c). 0 \<le> d) cs \<and> actions_of st' = actions_of st @ as \<and>
     temporarySpawnFds st' = temporarySpawnFds st @ map (fst \<circ> snd) cs \<and>
     filter (\<lambda>c. c \<noteq> Actions_init) (qcalls st') =
       filter (\<lambda>c. c \<noteq> Actions_init) (qcalls st) @ dup_calls cs \<and>
     count_list (qcalls st') Actions_init + (if fileActions st = None then 0 else 1) =
       count_list (qcalls st) Actions_init + (if fileActions st' = None then 0 else 1) \<and>
     (fileActions st \<noteq> None \<longrightarrow> fileActions st' \<noteq> None)"

lemma grows_refl [simp]: "grows st [] [] st"
  by (simp add: grows_def dup_calls_def)

lemma grows_trans:
  "grows st as cs st1 \<Longrightarrow> grows st1 bs ds st2 \<Longrightarrow> grows st (as @ bs) (cs @ ds) st2"
  by (auto simp: grows_def dup_calls_def split: if_splits)

lemma ensure_grows:
  "ensure_file_actions h st = (ok, st1) \<Longrightarrow>
     grows st [] [] st1 \<and> temporarySpawnFds st1 = temporarySpawnFds st \<and> (ok \<longrightarrow> fileActions st1 \<noteq> None)"
  by (auto simp: ensure_file_actions_def grows_def qlog_def dup_calls_def actions_of_def split: if_splits)

lemma add_action_grows: "fileActions st \<noteq> None \<Longrightarrow> grows st [a] [] (add_action a st)"
  by (auto simp: add_action_def grows_def dup_calls_def actions_of_def split: option.split)

lemma duplicate_grows:
  "duplicate_for_spawn h p st = (d, st1) \<Longrightarrow>
     (if d < 0 then st1 = st
      else grows st [] [(p, d, c)] st1 \<and> d = dupFd h (length (temporarySpawnFds st)) p \<and>
        fileActions st1 = fileActions st)"
  by (auto simp: duplicate_for_spawn_def grows_def qlog_def dup_calls_def actions_of_def Let_def
      split: if_splits)

lemma add_inherited_grows:
  assumes "add_inherited_fd h p c st = (ok, st1)"
  shows "\<exists>as cs. grows st as cs st1 \<and>
    (ok \<longrightarrow> cs = channel_dups h (length (temporarySpawnFds st)) [(p, c)] \<and> as = channel_actions cs)"
proof (cases "p < 0")
  case True
  then have "grows st [] [] st1" using assms by (simp add: add_inherited_fd_def)
  with True show ?thesis by (force simp: channel_actions_def)
next
  case False
  obtain ok1 s1 where e: "ensure_file_actions h st = (ok1, s1)" by fastforce
  obtain d s2 where d: "duplicate_for_spawn h p s1 = (d, s2)" by fastforce
  note g1 = ensure_grows [OF e] and g2 = duplicate_grows [OF d, of c]
  show ?thesis
  proof (cases "ok1 \<and> \<not> d < 0")
    case False
    then have "\<not> ok \<and> grows st [] [] st1"
      using assms \<open>\<not> p < 0\<close> e d g1 g2 by (auto simp: add_inherited_fd_def split: if_splits)
    then show ?thesis by blast
  next
    case True
    let ?s3 = "add_action (Add_dup2 d c) s2"
    have h2: "grows st [] [(p, d, c)] s2" using grows_trans [of st "[]" "[]" s1 "[]" "[(p, d, c)]" s2] g1 g2 True
      by simp
    have f: "fileActions s2 \<noteq> None" "fileActions ?s3 \<noteq> None" using g1 g2 True by (auto simp: add_action_def)
    have h3: "grows st [Add_dup2 d c] [(p, d, c)] ?s3"
      using grows_trans [OF h2 add_action_grows [OF f(1)]] by simp
    have h4: "grows st [Add_dup2 d c, Add_close d] [(p, d, c)] (add_action (Add_close d) ?s3)"
      using grows_trans [OF h3 add_action_grows [OF f(2)]] by simp
    show ?thesis
      using assms \<open>\<not> p < 0\<close> e d True g1 g2 h2 h3 h4
      by (fastforce simp: add_inherited_fd_def channel_actions_def Let_def split: if_splits)
  qed
qed

lemma channel_dups_append:
  "channel_dups h n (xs @ ys) = channel_dups h n xs @ channel_dups h (n + length (channel_dups h n xs)) ys"
  by (induction xs arbitrary: n) auto

text \<open>A part of the launch either grows the state or has given up and cleaned up.\<close>

definition gave_up :: "spawn_state \<Rightarrow> spawn_state \<Rightarrow> bool" where
  "gave_up st st' \<longleftrightarrow>
     (\<exists>as cs st1. grows st as cs st1 \<and> st' = close_temporary_spawn_fds (destroy_file_actions st1))"

lemma gave_up_after: "grows st as cs st1 \<Longrightarrow> gave_up st1 st' \<Longrightarrow> gave_up st st'"
  unfolding gave_up_def using grows_trans by blast

lemma preserve_stdio_grows:
  "preserve_stdio h fds st = (ok, st') \<Longrightarrow>
     (if ok then grows st (map Add_inherit (filter (fdOpen h) fds)) [] st' else gave_up st st')"
proof (induction fds arbitrary: st)
  case (Cons fd fds)
  obtain ok1 s1 where e: "ensure_file_actions h st = (ok1, s1)" by fastforce
  note g1 = ensure_grows [OF e]
  show ?case
  proof (cases "fdOpen h fd \<and> ok1 \<and> addInherit h fd = 0")
    case True
    have "preserve_stdio h fds (add_action (Add_inherit fd) s1) = (ok, st')"
      using Cons.prems True e by simp
    moreover have "grows st [Add_inherit fd] [] (add_action (Add_inherit fd) s1)"
      using grows_trans [of st "[]" "[]" s1 "[Add_inherit fd]" "[]"] g1 True add_action_grows by simp
    ultimately show ?thesis
      using Cons.IH [of "add_action (Add_inherit fd) s1"] True grows_trans gave_up_after by fastforce
  next
    case False
    then have "preserve_stdio h fds st = (ok, st') \<and> \<not> fdOpen h fd \<or>
        \<not> ok \<and> st' = close_temporary_spawn_fds (destroy_file_actions s1)"
      using Cons.prems e by (auto simp: destroy_file_actions_def ensure_file_actions_def split: if_splits)
    with Cons.IH [of st] g1 show ?thesis by (auto simp: gave_up_def)
  qed
qed simp

lemma inherit_fds_grows:
  "inherit_fds h xs st = (ok, st') \<Longrightarrow>
     (if ok then grows st (channel_actions (channel_dups h (length (temporarySpawnFds st)) xs))
        (channel_dups h (length (temporarySpawnFds st)) xs) st'
      else gave_up st st')"
proof (induction xs arbitrary: st)
  case (Cons x xs)
  obtain ok1 s1 where e: "add_inherited_fd h (fst x) (snd x) st = (ok1, s1)" by fastforce
  from add_inherited_grows [OF this] obtain as cs where g: "grows st as cs s1"
    and c: "ok1 \<Longrightarrow> cs = channel_dups h (length (temporarySpawnFds st)) [x] \<and> as = channel_actions cs"
    by auto
  show ?case
  proof (cases ok1)
    case True
    let ?n = "length (temporarySpawnFds st)"
    have "length (temporarySpawnFds s1) = ?n + length (channel_dups h ?n [x])"
      using g c True by (simp add: grows_def)
    then have "channel_dups h ?n (x # xs) = cs @ channel_dups h (length (temporarySpawnFds s1)) xs"
      using channel_dups_append [of h ?n "[x]" xs] c True by simp
    moreover have "inherit_fds h xs s1 = (ok, st')" using Cons.prems True e by simp
    ultimately show ?thesis
      using Cons.IH [of s1] g c True grows_trans [of st as cs s1] gave_up_after
      by (auto simp: channel_actions_def simp del: channel_dups.simps)
  next
    case False
    with Cons.prems e g show ?thesis by (auto simp: gave_up_def)
  qed
qed (simp add: channel_actions_def)

lemma new_spawn_state_empty [simp]:
  "actions_of new_spawn_state = []" "temporarySpawnFds new_spawn_state = []" "qcalls new_spawn_state = []"
  "fileActions new_spawn_state = None"
  by (simp_all add: new_spawn_state_def actions_of_def)

text \<open>The state before the attributes are set up, on the path that gets there.\<close>

lemma prepared:
  assumes "preserve_stdio h [0, 1, 2] new_spawn_state = (True, st1)" and "inherit_fds h xs st1 = (True, st2)"
  shows "grows new_spawn_state
    (map Add_inherit (filter (fdOpen h) [0, 1, 2]) @ channel_actions (channel_dups h 0 xs)) (channel_dups h 0 xs) st2"
proof -
  have g: "grows new_spawn_state (map Add_inherit (filter (fdOpen h) [0, 1, 2])) [] st1"
    using preserve_stdio_grows [OF assms(1)] by (simp del: filter.simps)
  then have "length (temporarySpawnFds st1) = 0" by (simp add: grows_def)
  with grows_trans [OF g] inherit_fds_grows [OF assms(2)] show ?thesis by simp
qed

section \<open>Lemmas: the whole launch\<close>

definition made :: "qcall list \<Rightarrow> int list" where
  "made cs = concat (map (\<lambda>c. case c of Dup_made p d \<Rightarrow> [d] | _ \<Rightarrow> []) cs)"

definition shut :: "qcall list \<Rightarrow> int list" where
  "shut cs = concat (map (\<lambda>c. case c of Fd_closed d \<Rightarrow> [d] | _ \<Rightarrow> []) cs)"

text \<open>Everything acquired is released: duplicates, the list of actions, the attributes.\<close>

definition released :: "qcall list \<Rightarrow> bool" where
  "released cs \<longleftrightarrow>
     made cs = shut cs \<and> count_list cs Actions_init = count_list cs Actions_destroy \<and>
     count_list cs Attr_init = count_list cs Attr_destroy"

lemma made_shut [simp]:
  "made [] = []" "shut [] = []"
  "made (c # cs) = (case c of Dup_made p d \<Rightarrow> [d] | _ \<Rightarrow> []) @ made cs"
  "shut (c # cs) = (case c of Fd_closed d \<Rightarrow> [d] | _ \<Rightarrow> []) @ shut cs"
  "made (cs @ ds) = made cs @ made ds" "shut (cs @ ds) = shut cs @ shut ds"
  "made (map Fd_closed fds) = []" "shut (map Fd_closed fds) = fds"
  by (simp_all add: made_def shut_def comp_def)

lemma made_shut_filter:
  "made cs = made (filter (\<lambda>c. c \<noteq> Actions_init) cs)" "shut cs = shut (filter (\<lambda>c. c \<noteq> Actions_init) cs)"
  by (induction cs) auto

lemma made_shut_dups [simp]: "made (dup_calls cs) = map (fst \<circ> snd) cs" "shut (dup_calls cs) = []"
  by (induction cs) (auto simp: dup_calls_def)

lemma count_list_filter_init:
  "a \<noteq> Actions_init \<Longrightarrow> count_list cs a = count_list (filter (\<lambda>c. c \<noteq> Actions_init) cs) a"
  by (induction cs) auto

lemma count_list_dups [simp]:
  "count_list (dup_calls cs) Actions_destroy = 0" "count_list (dup_calls cs) Attr_init = 0"
  "count_list (dup_calls cs) Attr_destroy = 0"
  by (induction cs) (auto simp: dup_calls_def)

lemma count_list_closed [simp]:
  "count_list (map Fd_closed fds) Actions_init = 0" "count_list (map Fd_closed fds) Actions_destroy = 0"
  "count_list (map Fd_closed fds) Attr_init = 0" "count_list (map Fd_closed fds) Attr_destroy = 0"
  by (induction fds) auto

lemma grown_calls:
  assumes "grows new_spawn_state as cs st"
  shows "made (qcalls st) = temporarySpawnFds st" "shut (qcalls st) = []"
    "count_list (qcalls st) Actions_init = (if fileActions st = None then 0 else 1)"
    "count_list (qcalls st) Actions_destroy = 0" "count_list (qcalls st) Attr_init = 0"
    "count_list (qcalls st) Attr_destroy = 0"
  using assms made_shut_filter [of "qcalls st"] count_list_filter_init [of _ "qcalls st"]
  by (auto simp: grows_def)

lemmas clean_up_defs = close_temporary_spawn_fds_def destroy_file_actions_def qlog_def released_def

lemma gave_up_released: "gave_up new_spawn_state st \<Longrightarrow> released (qcalls st)"
  unfolding gave_up_def by (auto simp: clean_up_defs grown_calls)

lemma spawn_released:
  assumes "grows new_spawn_state as cs st"
  shows "released (qcalls (snd (spawn_qemu h options argv envp st)))"
  by (auto simp: spawn_qemu_def Let_def clean_up_defs grown_calls [OF assms])

text \<open>The three channels of a launch.\<close>

definition channels :: "int \<Rightarrow> int \<Rightarrow> int \<Rightarrow> (int \<times> int) list" where
  "channels fdD fdI fdC = [(fdD, kChildFrameDoorbellFd), (fdI, kInputChildFd), (fdC, kControlChildFd)]"

definition launch_env :: "spawn_host \<Rightarrow> ShellOptions \<Rightarrow> int \<Rightarrow> int \<Rightarrow> int \<Rightarrow> string list" where
  "launch_env h options fdD fdI fdC =
     make_environment (environ h) (environment_overrides_for (ownPid h) options fdD fdI fdC)"

lemma launch_cases:
  assumes "launch_qemu h options fdD fdI fdC = (r, cs)"
  obtains (gave_up) st where "gave_up new_spawn_state st" and "cs = qcalls st" and "r = -1"
  | (spawned) st st' where "grows new_spawn_state
       (map Add_inherit (filter (fdOpen h) [0, 1, 2]) @ channel_actions (channel_dups h 0 (channels fdD fdI fdC)))
       (channel_dups h 0 (channels fdD fdI fdC)) st"
     and "spawn_qemu h options (make_cstring_vector (qemu_arguments options))
       (make_cstring_vector (launch_env h options fdD fdI fdC)) st = (r, st')" and "cs = qcalls st'"
proof -
  obtain ok1 s1 where p: "preserve_stdio h [0, 1, 2] new_spawn_state = (ok1, s1)" by fastforce
  obtain ok2 s2 where i: "inherit_fds h (channels fdD fdI fdC) s1 = (ok2, s2)" by fastforce
  obtain r' s3 where q: "spawn_qemu h options (make_cstring_vector (qemu_arguments options))
       (make_cstring_vector (launch_env h options fdD fdI fdC)) s2 = (r', s3)" by fastforce
  have l: "(r, cs) = (if \<not> ok1 then (-1, qcalls s1) else if \<not> ok2 then (-1, qcalls s2) else (r', qcalls s3))"
    unfolding assms [symmetric] launch_qemu_def Let_def p prod.case i [unfolded channels_def]
      q [unfolded launch_env_def] by (rule refl)
  consider "\<not> ok1" | "ok1" "\<not> ok2" | "ok1" "ok2" by blast
  then show thesis
  proof cases
    case 1
    then show thesis using l preserve_stdio_grows [OF p] gave_up [of s1] by simp
  next
    case 2
    then have "gave_up new_spawn_state s2"
      using preserve_stdio_grows [OF p] inherit_fds_grows [OF i] gave_up_after by (auto simp del: filter.simps)
    then show thesis using 2 l gave_up [of s2] by simp
  next
    case 3
    then show thesis using l q spawned [OF prepared, of s1 s2] p i by simp
  qed
qed

lemma is_spawn_simps [simp]:
  "is_spawn (Spawn p a v e)" "\<not> is_spawn Actions_init" "\<not> is_spawn Actions_destroy"
  "\<not> is_spawn (Dup_made x y)" "\<not> is_spawn (Fd_closed x)" "\<not> is_spawn Attr_init" "\<not> is_spawn Attr_destroy"
  by (simp_all add: is_spawn_def)

lemma list_ex_spawn: "list_ex is_spawn cs \<Longrightarrow> \<exists>p a v e. Spawn p a v e \<in> set cs"
  by (induction cs) (auto simp: is_spawn_def split: qcall.splits)

lemma grown_no_spawn:
  assumes "grows new_spawn_state as cs st" and "c \<in> set (qcalls st)"
  shows "\<not> is_spawn c"
proof (cases "c = Actions_init")
  case False
  have f: "filter (\<lambda>c. c \<noteq> Actions_init) (qcalls st) = dup_calls cs" using assms(1) by (simp add: grows_def)
  have "c \<in> set (filter (\<lambda>c. c \<noteq> Actions_init) (qcalls st))" using assms(2) False by simp
  then have "c \<in> set (dup_calls cs)" unfolding f .
  then show ?thesis by (auto simp: dup_calls_def)
qed simp

lemma spawn_in_calls:
  assumes "grows new_spawn_state as cs st" and "spawn_qemu h options argv envp st = (r, st')"
    and "Spawn path acts av ev \<in> set (qcalls st')"
  shows "path = qemuPath options \<and> acts = fileActions st \<and> av = argv \<and> ev = envp \<and>
    takeWhile (\<lambda>c. \<not> is_spawn c) (qcalls st') = qcalls st @ [Attr_init]"
proof -
  have n: "Spawn p a v e \<notin> set (qcalls st)" for p a v e
    using grown_no_spawn [OF assms(1)] by fastforce
  have t: "takeWhile (\<lambda>c. \<not> is_spawn c) (qcalls st @ xs) = qcalls st @ takeWhile (\<lambda>c. \<not> is_spawn c) xs" for xs
    using grown_no_spawn [OF assms(1)] by (simp add: takeWhile_append2)
  show ?thesis
    using assms(2,3) n
    by (auto simp: spawn_qemu_def Let_def clean_up_defs t split: if_splits)
qed

section \<open>Lemmas: the table of the child\<close>

lemma fd_effect_filter: "fold fd_effect cs T = fold fd_effect (filter (\<lambda>c. c \<noteq> Actions_init) cs) T"
  by (induction cs arbitrary: T) auto

lemma run_inherits: "fold run_action (map Add_inherit fds) (T, k) = (T, rev fds @ k)"
  by (induction fds arbitrary: k) auto

text \<open>The file of a channel in the child: that of the descriptor given for it, if one was given.\<close>

definition channel_file :: "'f fd_table \<Rightarrow> int \<Rightarrow> 'f option" where
  "channel_file T p = (if p < 0 then None else T p)"

text \<open>
  A list of channels whose duplicates are no child descriptors: every child descriptor gets the
  file of its duplicate, the duplicates are gone, and everything else stays.
\<close>

definition apart :: "(int \<times> int \<times> int) list \<Rightarrow> bool" where
  "apart cs \<longleftrightarrow>
     distinct (map (fst \<circ> snd) cs) \<and> distinct (map (snd \<circ> snd) cs) \<and>
     (\<forall>x \<in> set cs. \<forall>y \<in> set cs. fst (snd x) \<noteq> snd (snd y))"

lemma map_of_channels_None: "map_of (map (\<lambda>(p, d, c). (c, d)) cs) c = None \<longleftrightarrow> c \<notin> (snd \<circ> snd) ` set cs"
  by (induction cs) (auto simp: image_iff)

lemma map_of_parents_None: "map_of (map (\<lambda>(p, d, c). (c, p)) cs) c = None \<longleftrightarrow> c \<notin> (snd \<circ> snd) ` set cs"
  by (induction cs) (auto simp: image_iff)

lemma map_of_channels_Some:
  "map_of (map (\<lambda>(p, d, c). (c, d)) cs) c = Some e \<Longrightarrow> e \<in> (fst \<circ> snd) ` set cs"
  by (induction cs) (auto split: if_splits)

lemma run_channels:
  assumes "apart cs" and "fold run_action (channel_actions cs) (T, k) = (T', k')"
    and "fd \<notin> (fst \<circ> snd) ` set cs"
  shows "(fd \<in> set k' \<longleftrightarrow> fd \<in> set k \<or> fd \<in> (snd \<circ> snd) ` set cs) \<and>
    T' fd = (case map_of (map (\<lambda>(p, d, c). (c, d)) cs) fd of None \<Rightarrow> T fd | Some d \<Rightarrow> T d)"
  using assms
proof (induction cs arbitrary: T k)
  case (Cons x cs)
  obtain p d c where x: "x = (p, d, c)" by (cases x) auto
  have r: "fold run_action (channel_actions cs) (T(c := T d, d := None), removeAll d (c # k)) = (T', k')"
    using Cons.prems(2) by (simp add: x channel_actions_def)
  have a: "apart cs" using Cons.prems(1) by (auto simp: apart_def)
  have n: "fd \<noteq> d" "d \<noteq> c" "c \<notin> (snd \<circ> snd) ` set cs" "d \<notin> (fst \<circ> snd) ` set cs" "c \<notin> (fst \<circ> snd) ` set cs"
    using Cons.prems(1,3) by (auto simp: apart_def x)
  have nc: "fd \<notin> (fst \<circ> snd) ` set cs" using Cons.prems(3) by (simp add: x)
  from map_of_channels_Some [of cs fd] n(4,5)
  have m: "map_of (map (\<lambda>(p, d, c). (c, d)) cs) fd = Some e \<Longrightarrow> e \<noteq> c \<and> e \<noteq> d" for e
    by blast
  show ?case
  proof (cases "fd = c")
    case True
    then show ?thesis using Cons.IH [OF a r nc] n(1,2,3) by (simp add: x map_of_channels_None [THEN iffD2])
  next
    case False
    then show ?thesis using Cons.IH [OF a r nc] n(1) m by (simp add: x split: option.splits)
  qed
qed (simp add: channel_actions_def)

lemma run_channels_gone:
  assumes "apart cs" and "fold run_action (channel_actions cs) (T, k) = (T', k')"
    and "fd \<in> (fst \<circ> snd) ` set cs"
  shows "fd \<notin> set k'"
  using assms
proof (induction cs arbitrary: T k)
  case (Cons x cs)
  obtain p d c where x: "x = (p, d, c)" by (cases x) auto
  have r: "fold run_action (channel_actions cs) (T(c := T d, d := None), removeAll d (c # k)) = (T', k')"
    using Cons.prems(2) by (simp add: x channel_actions_def)
  have a: "apart cs" using Cons.prems(1) by (auto simp: apart_def)
  show ?case
  proof (cases "fd = d")
    case True
    have "d \<notin> (fst \<circ> snd) ` set cs" "d \<notin> (snd \<circ> snd) ` set cs"
      using Cons.prems(1) by (auto simp: apart_def x)
    with run_channels [OF a r, of d] True show ?thesis by simp
  next
    case False
    with Cons.IH [OF a r] Cons.prems(3) show ?thesis by (simp add: x)
  qed
qed simp

lemma dups_keep: "fd \<notin> (fst \<circ> snd) ` set cs \<Longrightarrow> fold fd_effect (dup_calls cs) T fd = T fd"
  by (induction cs arbitrary: T) (auto simp: dup_calls_def)

lemma dups_file:
  assumes "distinct (map (fst \<circ> snd) cs)" and "\<forall>x \<in> set cs. T (fst (snd x)) = None \<and> T (fst x) \<noteq> None"
    and "(p, d, c) \<in> set cs"
  shows "fold fd_effect (dup_calls cs) T d = T p"
  using assms
proof (induction cs arbitrary: T)
  case (Cons x cs)
  obtain p' d' c' where x: "x = (p', d', c')" by (cases x) auto
  have n: "d' \<notin> (fst \<circ> snd) ` set cs" using Cons.prems(1) by (simp add: x)
  have p: "p \<noteq> d'" using Cons.prems(2,3) by (force simp: x)
  have t: "\<forall>y \<in> set cs. (T(d' := T p')) (fst (snd y)) = None \<and> (T(d' := T p')) (fst y) \<noteq> None"
    using Cons.prems(2) n by (force simp: x)
  show ?case
  proof (cases "(p, d, c) = x")
    case True
    then show ?thesis using dups_keep [OF n, of "T(d' := T p')"] by (simp add: x dup_calls_def)
  next
    case False
    then show ?thesis using Cons.IH [OF _ t] Cons.prems(1,3) p by (auto simp: x dup_calls_def fun_upd_def)
  qed
qed simp

lemma channel_dups_spec:
  "(p, d, c) \<in> set (channel_dups h n xs) \<Longrightarrow> (p, c) \<in> set xs \<and> 0 \<le> p \<and> (\<exists>m \<ge> n. d = dupFd h m p)"
proof (induction xs arbitrary: n)
  case (Cons x xs)
  then show ?case by (cases x) (force split: if_splits dest: Suc_leD)
qed simp

lemma channel_dups_children:
  "map (snd \<circ> snd) (channel_dups h n xs) = map snd (filter (\<lambda>x. 0 \<le> fst x) xs)"
  by (induction xs arbitrary: n) auto

lemma kernel_free:
  "kernel_ok h T \<Longrightarrow> 0 \<le> dupFd h n p \<Longrightarrow> kMinTemporarySpawnFd \<le> dupFd h n p \<and> T (dupFd h n p) = None"
  unfolding kernel_ok_def by (meson not_less)

lemma kernel_distinct:
  "kernel_ok h T \<Longrightarrow> m \<noteq> n \<Longrightarrow> 0 \<le> dupFd h m p \<Longrightarrow> dupFd h m p \<noteq> dupFd h n q"
  unfolding kernel_ok_def by meson

lemma channel_dups_apart:
  assumes "kernel_ok h T" and "distinct (map snd xs)" and "\<forall>x \<in> set xs. snd x < kMinTemporarySpawnFd"
    and "list_all (\<lambda>(p, d, c). 0 \<le> d) (channel_dups h n xs)"
  shows "apart (channel_dups h n xs)"
proof -
  have "distinct (map (snd \<circ> snd) (channel_dups h n xs))"
    using assms(2) by (simp add: channel_dups_children distinct_map_filter)
  moreover have "distinct (map (fst \<circ> snd) (channel_dups h n xs))"
    using assms(4)
  proof (induction xs arbitrary: n)
    case (Cons x xs)
    have new: "dupFd h n (fst x) \<notin> (fst \<circ> snd) ` set (channel_dups h (Suc n) xs)" if "0 \<le> dupFd h n (fst x)"
    proof
      assume "dupFd h n (fst x) \<in> (fst \<circ> snd) ` set (channel_dups h (Suc n) xs)"
      then obtain p c where "(p, dupFd h n (fst x), c) \<in> set (channel_dups h (Suc n) xs)" by force
      from channel_dups_spec [OF this] obtain m where "m \<ge> Suc n" "dupFd h n (fst x) = dupFd h m p" by blast
      moreover have "n \<noteq> m" using calculation(1) by simp
      ultimately show False using kernel_distinct [OF assms(1) _ that] by metis
    qed
    show ?case
    proof (cases "fst x < 0")
      case True
      then show ?thesis using Cons by simp
    next
      case False
      then have a: "0 \<le> dupFd h n (fst x)" "list_all (\<lambda>(p, d, c). 0 \<le> d) (channel_dups h (Suc n) xs)"
        using Cons.prems by simp_all
      show ?thesis using new [OF a(1)] Cons.IH [OF a(2)] False by simp
    qed
  qed simp
  moreover have "fst (snd x) \<noteq> snd (snd y)" if xy: "x \<in> set (channel_dups h n xs)" "y \<in> set (channel_dups h n xs)" for x y
  proof -
    obtain p d c p' d' c' where e: "x = (p, d, c)" "y = (p', d', c')" by (metis prod_cases3)
    have "0 \<le> d" using xy(1) assms(4) by (auto simp: list_all_iff e)
    moreover obtain m where "d = dupFd h m p" using channel_dups_spec [of p d c h n xs] e xy(1) by auto
    ultimately have "kMinTemporarySpawnFd \<le> d" using kernel_free [OF assms(1)] by simp
    moreover have "c' < kMinTemporarySpawnFd"
      using channel_dups_spec [of p' d' c'] xy(2) assms(3) by (fastforce simp: e)
    ultimately show ?thesis by (simp add: e)
  qed
  ultimately show ?thesis by (simp add: apart_def)
qed


lemmas child_fds = kChildFrameDoorbellFd_def kInputChildFd_def kControlChildFd_def

lemma channel_file_free:
  assumes "kernel_ok h T" and "\<forall>p \<in> {fdD, fdI, fdC}. p < 0 \<or> T p \<noteq> None"
    and "list_all (\<lambda>(p, d, c). 0 \<le> d) (channel_dups h 0 (channels fdD fdI fdC))"
    and "(p, d, c) \<in> set (channel_dups h 0 (channels fdD fdI fdC))"
  shows "(p, c) \<in> set (channels fdD fdI fdC) \<and> 0 \<le> p \<and> 256 \<le> d \<and> T d = None \<and> T p \<noteq> None"
proof -
  have "0 \<le> d" using assms(3,4) by (auto simp: list_all_iff)
  moreover obtain m where "d = dupFd h m p" using channel_dups_spec [OF assms(4)] by blast
  moreover have "0 \<le> p" "(p, c) \<in> set (channels fdD fdI fdC)" using channel_dups_spec [OF assms(4)] by auto
  moreover have "p \<in> {fdD, fdI, fdC}" using calculation(4) by (auto simp: channels_def)
  ultimately show ?thesis using kernel_free [OF assms(1), of m p] assms(2) by (auto simp: kMinTemporarySpawnFd_def)
qed

text \<open>
  The table after duplicating and running the actions of the channels: a child descriptor has the
  file of its parent descriptor, a duplicate is gone, everything kept before is still there.
\<close>

lemma channels_result:
  assumes "apart cs" and "\<forall>x \<in> set cs. T (fst (snd x)) = None \<and> T (fst x) \<noteq> None"
    and "fold run_action (channel_actions cs) (fold fd_effect (dup_calls cs) T, k) = (T', k')"
  shows "(if fd \<in> set k' then T' fd else None) =
    (case map_of (map (\<lambda>(p, d, c). (c, p)) cs) fd of
       Some p \<Rightarrow> T p
     | None \<Rightarrow> if fd \<in> set k \<and> fd \<notin> (fst \<circ> snd) ` set cs then T fd else None)"
proof (cases "fd \<in> (fst \<circ> snd) ` set cs")
  case True
  then have "map_of (map (\<lambda>(p, d, c). (c, p)) cs) fd = None"
    using assms(1) by (fastforce simp: map_of_eq_None_iff apart_def)
  with True run_channels_gone [OF assms(1,3)] show ?thesis by simp
next
  case False
  note rc = run_channels [OF assms(1,3) False]
  show ?thesis
  proof (cases "map_of (map (\<lambda>(p, d, c). (c, d)) cs) fd")
    case None
    then have n: "fd \<notin> (snd \<circ> snd) ` set cs" by (simp add: map_of_channels_None)
    then have "map_of (map (\<lambda>(p, d, c). (c, p)) cs) fd = None" by (simp add: map_of_parents_None)
    with rc None n False dups_keep [OF False, of T] show ?thesis by simp
  next
    case (Some d)
    then obtain p where p: "(p, d, fd) \<in> set cs" by (force dest: map_of_SomeD)
    have "distinct (map fst (map (\<lambda>(p, d, c). (c, p)) cs))"
      using assms(1) by (simp add: apart_def comp_def case_prod_beta)
    then have "map_of (map (\<lambda>(p, d, c). (c, p)) cs) fd = Some p" using p by (force intro: map_of_is_SomeI)
    moreover have "fd \<in> (snd \<circ> snd) ` set cs" using p by force
    ultimately show ?thesis using rc Some dups_file [OF _ assms(2) p] assms(1) by (simp add: apart_def)
  qed
qed

lemma child_of_channels:
  assumes "kernel_ok h T" and "\<forall>p \<in> {fdD, fdI, fdC}. p < 0 \<or> T p \<noteq> None"
    and "list_all (\<lambda>(p, d, c). 0 \<le> d) (channel_dups h 0 (channels fdD fdI fdC))"
  shows "child_table
      (Some (map Add_inherit (filter (fdOpen h) [0, 1, 2]) @
         channel_actions (channel_dups h 0 (channels fdD fdI fdC))))
      (fold fd_effect (dup_calls (channel_dups h 0 (channels fdD fdI fdC))) T) fd =
    (if fd = kChildFrameDoorbellFd then channel_file T fdD
     else if fd = kInputChildFd then channel_file T fdI
     else if fd = kControlChildFd then channel_file T fdC
     else if 0 \<le> fd \<and> fd \<le> 2 then T fd else None)"
proof -
  define cs where "cs = channel_dups h 0 (channels fdD fdI fdC)"
  define std where "std = filter (fdOpen h) [0, 1, 2]"
  obtain T' k' where r: "fold run_action (channel_actions cs) (fold fd_effect (dup_calls cs) T, rev std) = (T', k')"
    by fastforce
  have ap: "apart cs"
    unfolding cs_def by (rule channel_dups_apart [OF assms(1) _ _ assms(3)])
      (simp_all add: channels_def child_fds kMinTemporarySpawnFd_def)
  have "0 \<le> fd \<and> fd \<le> 2 \<longleftrightarrow> fd \<in> set [0, 1, 2]" by auto
  with assms(1) have std: "fd \<in> set std \<longleftrightarrow> 0 \<le> fd \<and> fd \<le> 2 \<and> T fd \<noteq> None"
    by (simp only: std_def kernel_ok_def set_filter mem_Collect_eq) blast
  have mem: "256 \<le> d \<and> T d = None \<and> T p \<noteq> None" if "(p, d, c) \<in> set cs" for p d c
    using channel_file_free [OF assms] that by (simp add: cs_def)
  have all: "\<forall>x \<in> set cs. T (fst (snd x)) = None \<and> T (fst x) \<noteq> None"
    using mem by (metis prod.collapse)
  have low: "fd \<le> 2 \<Longrightarrow> fd \<notin> (fst \<circ> snd) ` set cs" using mem by fastforce
  have "map_of (map (\<lambda>(p, d, c). (c, p)) cs) fd =
      (if fd = kChildFrameDoorbellFd \<and> 0 \<le> fdD then Some fdD
       else if fd = kInputChildFd \<and> 0 \<le> fdI then Some fdI
       else if fd = kControlChildFd \<and> 0 \<le> fdC then Some fdC else None)"
    by (simp add: cs_def channels_def child_fds)
  with channels_result [OF ap all r, of fd] std low
  have "(if fd \<in> set k' then T' fd else None) =
    (if fd = kChildFrameDoorbellFd then channel_file T fdD
     else if fd = kInputChildFd then channel_file T fdI
     else if fd = kControlChildFd then channel_file T fdC
     else if 0 \<le> fd \<and> fd \<le> 2 then T fd else None)"
    by (simp add: channel_file_def child_fds) (cases "T fd"; auto)
  then show ?thesis using r by (simp add: child_table_def run_inherits std_def cs_def)
qed

lemma child_table_actions: "child_table (fileActions st) T = child_table (Some (actions_of st)) T"
  by (simp add: child_table_def actions_of_def split: option.split)

lemma grown_table:
  assumes "grows new_spawn_state as cs st"
  shows "fold fd_effect (qcalls st @ [Attr_init]) T = fold fd_effect (dup_calls cs) T"
  using assms fd_effect_filter [of "qcalls st" T] by (simp add: grows_def)

text \<open>A null-terminated vector of C strings, as the child reads it.\<close>

definition c_vector :: "string option list \<Rightarrow> string list" where
  "c_vector v = map the (takeWhile (\<lambda>x. x \<noteq> None) v)"

lemma c_vector_made [simp]: "c_vector (make_cstring_vector xs) = xs"
  by (induction xs) (simp_all add: c_vector_def make_cstring_vector_def)

lemma gave_up_no_spawn: "gave_up new_spawn_state st \<Longrightarrow> Spawn path acts av ev \<notin> set (qcalls st)"
  using grown_no_spawn by (fastforce simp: gave_up_def clean_up_defs split: if_splits)

lemma launch_spawned:
  assumes "Spawn path acts av ev \<in> set (snd (launch_qemu h options fdD fdI fdC))"
  shows "path = qemuPath options \<and> c_vector av = qemu_arguments options \<and>
    c_vector ev = launch_env h options fdD fdI fdC"
proof -
  obtain r cs where l: "launch_qemu h options fdD fdI fdC = (r, cs)" by fastforce
  from l show ?thesis
  proof (cases rule: launch_cases)
    case (gave_up st)
    with assms l gave_up_no_spawn show ?thesis by simp
  next
    case (spawned st st')
    have "Spawn path acts av ev \<in> set (qcalls st')" using assms l spawned(3) by simp
    from spawn_in_calls [OF spawned(1,2) this] show ?thesis by simp
  qed
qed

lemma launch_child_table:
  assumes "kernel_ok h T" and "\<forall>p \<in> {fdD, fdI, fdC}. p < 0 \<or> T p \<noteq> None"
    and "Spawn path acts av ev \<in> set (snd (launch_qemu h options fdD fdI fdC))"
  shows "child_table acts (table_at_spawn (snd (launch_qemu h options fdD fdI fdC)) T) fd =
    (if fd = kChildFrameDoorbellFd then channel_file T fdD
     else if fd = kInputChildFd then channel_file T fdI
     else if fd = kControlChildFd then channel_file T fdC
     else if 0 \<le> fd \<and> fd \<le> 2 then T fd else None)"
proof -
  obtain r cs where l: "launch_qemu h options fdD fdI fdC = (r, cs)" by fastforce
  from l show ?thesis
  proof (cases rule: launch_cases)
    case (gave_up st)
    with assms(3) l gave_up_no_spawn show ?thesis by simp
  next
    case (spawned st st')
    have "Spawn path acts av ev \<in> set (qcalls st')" using assms(3) l spawned(3) by simp
    from spawn_in_calls [OF spawned(1,2) this]
    have "table_at_spawn cs T = fold fd_effect (dup_calls (channel_dups h 0 (channels fdD fdI fdC))) T"
      and a: "acts = fileActions st"
      using grown_table [OF spawned(1)] by (simp_all add: table_at_spawn_def spawned(3))
    moreover have "list_all (\<lambda>(p, d, c). 0 \<le> d) (channel_dups h 0 (channels fdD fdI fdC))"
      and "actions_of st = map Add_inherit (filter (fdOpen h) [0, 1, 2]) @
        channel_actions (channel_dups h 0 (channels fdD fdI fdC))"
      using spawned(1) unfolding grows_def by (simp_all del: filter.simps)
    ultimately show ?thesis
      using child_of_channels [OF assms(1,2)] l by (simp add: child_table_actions del: filter.simps)
  qed
qed

text \<open>
  A shell whose doorbell descriptor happens to have the number the child uses for input, for the
  example below.
\<close>

definition sample_table :: "string fd_table" where
  "sample_table = [0 \<mapsto> ''tty'', 1 \<mapsto> ''tty'', 2 \<mapsto> ''tty'', 199 \<mapsto> ''doorbell'', 5 \<mapsto> ''input'', 6 \<mapsto> ''control'']"

definition sample_spawn :: spawn_host where
  "sample_spawn = \<lparr>environ = [''HOME=/h''], ownPid = 7, actionsInit = 0, fdOpen = (\<lambda>fd. sample_table fd \<noteq> None),
     addInherit = (\<lambda>_. 0), dupFd = (\<lambda>n _. 300 + int n), addDup2 = (\<lambda>_ _. 0), addClose = (\<lambda>_. 0), attrInit = 0,
     attrSetFlags = 0, attrSetPgroup = 0, spawnResult = 0, spawnPid = 41\<rparr>"

definition sample_options :: ShellOptions where
  "sample_options = \<lparr>appDataDir = ''/d'', avdHome = ''/d/avd'', launcherDir = ''/l'', qemuPath = ''/q'',
     dyldLibraryPath = [], inputSocketPath = [], systemPath = [], imageImportSource = [],
     autoImportDefaultImage = False, guestRpcSocketPath = [], guestCtrlSocketPath = [],
     guestAgentImagePath = [], guestRamdiskOverlayPath = [], guestRamdiskPath = [], avdName = ''a'', wipeData = False\<rparr>"

lemma launch_environment:
  assumes "CHR ''='' \<notin> set name"
  shows "env_lookup (launch_env h options fdD fdI fdC) name =
    (case map_of (environment_overrides_for (ownPid h) options fdD fdI fdC) name of
       Some v \<Rightarrow> Some v
     | None \<Rightarrow> env_lookup (environ h) name)"
  unfolding launch_env_def
  by (rule env_lookup_make [OF assms])
    (simp add: environment_overrides_for_def kFrameDoorbellFdEnv_def kLegacyFrameDoorbellFdEnv_def
      kInputFdEnv_def kControlFdEnv_def kInputSocketEnv_def)

lemma sample_launch:
  "list_ex is_spawn (snd (launch_qemu sample_spawn sample_options 199 5 6))" "kernel_ok sample_spawn sample_table"
  by (simp add: sample_spawn_def launch_qemu_def Let_def new_spawn_state_def ensure_file_actions_def qlog_def
        add_inherited_fd_def duplicate_for_spawn_def spawn_qemu_def add_action_def clean_up_defs)
    (auto simp: kernel_ok_def sample_spawn_def sample_table_def kMinTemporarySpawnFd_def)

section \<open>Properties\<close>



text \<open>
  (C27) A launch leaves nothing behind in the shell: on every path, whichever call fails, each
  duplicate it made is closed, the list of file actions is destroyed if it was set up, and so are the
  attributes; and a launch that does not report failure has made the spawn call.
\<close>

theorem launch_releases:
  "released (snd (launch_qemu h options fdD fdI fdC)) \<and>
   (fst (launch_qemu h options fdD fdI fdC) = -1 \<or>
    list_ex is_spawn (snd (launch_qemu h options fdD fdI fdC)))"
proof -
  obtain r cs where l: "launch_qemu h options fdD fdI fdC = (r, cs)" by fastforce
  from l show ?thesis
  proof (cases rule: launch_cases)
    case (gave_up st)
    with l gave_up_released show ?thesis by simp
  next
    case (spawned st st')
    have "r = -1 \<or> list_ex is_spawn cs"
      using spawned(2) unfolding spawned(3)
      by (auto simp: spawn_qemu_def Let_def clean_up_defs split: if_splits)
    with l spawn_released [OF spawned(1)] spawned(2,3) show ?thesis by (metis fst_conv snd_conv)
  qed
qed

end
