(* ===== verification/Display_Export.thy ===== *)
theory Display_Export
  imports Control_Receiver
begin

text \<open>
  The display export hooks of \<^verbatim>\<open>external/qemu/android/android-emu/android/opengles.cpp\<close>: the set
  of subscribed displays as a bit mask, forwarded to the renderer while there is one and replayed to
  a renderer that comes later. The renderer itself is a parameter: the calls it receives, and a
  function that says what they do to the displays it exports. Proved: the renderer always exports
  the subscribed displays, and the control receiver subscribes exactly the displays it streams.
\<close>

section \<open>The hooks\<close>

datatype rcall = Set_enabled u32 bool | Export_now u32 | Clear_export u32 | Reset_exports

record hooks =
  sMacMuRenderer :: bool
  sSubscriptions :: u32

definition new_hooks :: hooks where
  "new_hooks = \<lparr>sMacMuRenderer = False, sSubscriptions = 0\<rparr>"

definition display_mask :: "u32 \<Rightarrow> u32" where
  "display_mask displayId = push_bit (unat displayId) 1"

definition applyMacMuDisplayExportSubscriptions :: "hooks \<Rightarrow> rcall list" where
  "applyMacMuDisplayExportSubscriptions k =
     (if \<not> sMacMuRenderer k then []
      else map (\<lambda>i. Set_enabled (of_nat i) (sSubscriptions k AND display_mask (of_nat i) \<noteq> 0)) [0..<16])"

definition set_renderer :: "hooks \<Rightarrow> hooks \<times> rcall list" where
  "set_renderer k =
     (let k' = k\<lparr>sMacMuRenderer := True\<rparr> in (k', applyMacMuDisplayExportSubscriptions k'))"

definition stop_renderer :: "hooks \<Rightarrow> hooks" where
  "stop_renderer k = k\<lparr>sMacMuRenderer := False\<rparr>"

definition to_renderer :: "rcall \<Rightarrow> hooks \<Rightarrow> hooks \<times> rcall list" where
  "to_renderer c k = (k, if sMacMuRenderer k then [c] else [])"

definition android_exportDisplayFrame :: "u32 \<Rightarrow> hooks \<Rightarrow> hooks \<times> rcall list" where
  "android_exportDisplayFrame displayId k = to_renderer (Export_now displayId) k"

definition android_setDisplayExportEnabled :: "u32 \<Rightarrow> bool \<Rightarrow> hooks \<Rightarrow> hooks \<times> rcall list" where
  "android_setDisplayExportEnabled displayId on k =
     (if displayId \<ge> 16 then (k, [])
      else
        let mask = display_mask displayId;
            subscriptions = (if on then sSubscriptions k OR mask else sSubscriptions k AND NOT mask) in
        to_renderer (Set_enabled displayId on) (k\<lparr>sSubscriptions := subscriptions\<rparr>))"

definition android_clearDisplayExportFrame :: "u32 \<Rightarrow> hooks \<Rightarrow> hooks \<times> rcall list" where
  "android_clearDisplayExportFrame displayId k =
     (if displayId \<ge> 16 then (k, [])
      else to_renderer (Clear_export displayId)
        (k\<lparr>sSubscriptions := sSubscriptions k AND NOT (display_mask displayId)\<rparr>))"

definition android_resetDisplayExportSubscriptions :: "hooks \<Rightarrow> hooks \<times> rcall list" where
  "android_resetDisplayExportSubscriptions k = to_renderer Reset_exports (k\<lparr>sSubscriptions := 0\<rparr>)"

text \<open>The calls the control receiver makes on the hooks.\<close>

fun run_act :: "act \<Rightarrow> hooks \<Rightarrow> hooks \<times> rcall list" where
  "run_act (Export_enabled i on) k = android_setDisplayExportEnabled i on k"
| "run_act (Export_frame i) k = android_exportDisplayFrame i k"
| "run_act (Clear_frame i) k = android_clearDisplayExportFrame i k"
| "run_act Reset_subscriptions k = android_resetDisplayExportSubscriptions k"
| "run_act _ k = (k, [])"

definition run_acts :: "act list \<Rightarrow> hooks \<Rightarrow> hooks" where
  "run_acts acts k = fold (\<lambda>a k. fst (run_act a k)) acts k"

section \<open>The renderer\<close>

text \<open>
  What a renderer does with the calls: \<open>tell c e\<close> is the set of displays it exports after call
  \<open>c\<close>, as a predicate. It follows the names of its interface.
\<close>

definition renderer_ok :: "(rcall \<Rightarrow> (u32 \<Rightarrow> bool) \<Rightarrow> u32 \<Rightarrow> bool) \<Rightarrow> bool" where
  "renderer_ok tell \<longleftrightarrow>
     (\<forall>e i on. tell (Set_enabled i on) e = e(i := on)) \<and> (\<forall>e i. tell (Export_now i) e = e) \<and>
     (\<forall>e i. tell (Clear_export i) e = e(i := False)) \<and> (\<forall>e. tell Reset_exports e = (\<lambda>_. False))"

text \<open>
  A history: calls of the hooks, a renderer that starts in any state, and its end. The second
  component is the state of the current renderer.
\<close>

datatype hook_op = Hook act | Attach "u32 \<Rightarrow> bool" | Detach

fun hook_step :: "(rcall \<Rightarrow> (u32 \<Rightarrow> bool) \<Rightarrow> u32 \<Rightarrow> bool) \<Rightarrow> hook_op \<Rightarrow> hooks \<times> (u32 \<Rightarrow> bool) \<Rightarrow> hooks \<times> (u32 \<Rightarrow> bool)" where
  "hook_step tell (Hook a) (k, e) = (let (k', cs) = run_act a k in (k', fold tell cs e))"
| "hook_step tell (Attach e0) (k, e) = (let (k', cs) = set_renderer k in (k', fold tell cs e0))"
| "hook_step tell Detach (k, e) = (stop_renderer k, e)"

definition subscribed :: "hooks \<Rightarrow> u32 \<Rightarrow> bool" where
  "subscribed k i \<longleftrightarrow> bit (sSubscriptions k) (unat i)"

section \<open>Lemmas\<close>

lemma display_mask_test: "(m AND display_mask i \<noteq> 0) = (unat i < 32 \<and> bit m (unat i))"
proof -
  have "m AND display_mask i = (if bit m (unat i) \<and> unat i < 32 then display_mask i else 0)"
    unfolding display_mask_def
    by (rule bit_word_eqI) (auto simp: bit_simps)
  moreover have "unat i < 32 \<Longrightarrow> display_mask i \<noteq> 0"
    unfolding display_mask_def by (auto simp: bit_eq_iff bit_simps)
  ultimately show ?thesis by auto
qed

lemma small_display: "i < 16 \<Longrightarrow> unat i < 16" for i :: u32
  by (simp add: word_less_nat_alt)

lemma subscribed_update [simp]:
  assumes "i < 16"
  shows "subscribed (k\<lparr>sSubscriptions := sSubscriptions k OR display_mask i\<rparr>) j = (j = i \<or> subscribed k j)"
    and "subscribed (k\<lparr>sSubscriptions := sSubscriptions k AND NOT (display_mask i)\<rparr>) j = (j \<noteq> i \<and> subscribed k j)"
  using small_display [OF assms]
  by (auto simp: subscribed_def display_mask_def bit_simps word_unat_eq_iff dest: bit_imp_le_length)

lemma subscribed_none [simp]: "\<not> subscribed (k\<lparr>sSubscriptions := 0\<rparr>) j" "\<not> subscribed new_hooks j"
  by (simp_all add: subscribed_def new_hooks_def)

lemma run_act_subscribed:
  assumes "j < 16"
  shows "subscribed (fst (run_act a k)) j =
    (case a of
       Export_enabled i on \<Rightarrow> if i = j then on else subscribed k j
     | Clear_frame i \<Rightarrow> i \<noteq> j \<and> subscribed k j
     | Reset_subscriptions \<Rightarrow> False
     | _ \<Rightarrow> subscribed k j)"
  using assms
  by (cases a) (auto simp: android_setDisplayExportEnabled_def android_exportDisplayFrame_def
      android_clearDisplayExportFrame_def android_resetDisplayExportSubscriptions_def to_renderer_def
      Let_def not_le)

lemma run_act_renderer [simp]: "sMacMuRenderer (fst (run_act a k)) = sMacMuRenderer k"
  by (cases a) (auto simp: android_setDisplayExportEnabled_def android_exportDisplayFrame_def
      android_clearDisplayExportFrame_def android_resetDisplayExportSubscriptions_def to_renderer_def Let_def)

text \<open>A renderer that is attached exports the subscribed displays.\<close>

definition in_step :: "hooks \<times> (u32 \<Rightarrow> bool) \<Rightarrow> bool" where
  "in_step = (\<lambda>(k, e). \<forall>j < 16. sMacMuRenderer k \<longrightarrow> e j = subscribed k j)"

lemma replayed:
  assumes "renderer_ok tell"
  shows "unat j < n \<Longrightarrow> n \<le> 16 \<Longrightarrow>
    fold tell (map (\<lambda>i. Set_enabled (of_nat i) (P i)) [0..<n]) e j = P (unat j)"
proof (induction n)
  case (Suc n)
  have t: "tell (Set_enabled i on) e = e(i := on)" for i on e using assms by (simp add: renderer_ok_def)
  show ?case
  proof (cases "unat j = n")
    case True
    then have "j = of_nat n" by auto
    with True show ?thesis by (simp add: t)
  next
    case False
    then have "j \<noteq> of_nat n" using Suc.prems(2) by (auto simp: unat_of_nat)
    with Suc False show ?thesis by (simp add: t)
  qed
qed simp

lemma hook_step_in_step:
  assumes "renderer_ok tell" and "in_step s"
  shows "in_step (hook_step tell x s)"
proof -
  obtain k e where s: "s = (k, e)" by fastforce
  show ?thesis
  proof (cases x)
    case (Hook a)
    show ?thesis
      using assms run_act_subscribed [of _ a k]
      by (cases a) (auto simp: s Hook in_step_def Let_def case_prod_beta renderer_ok_def
          android_setDisplayExportEnabled_def android_exportDisplayFrame_def
          android_clearDisplayExportFrame_def android_resetDisplayExportSubscriptions_def to_renderer_def)
  next
    case (Attach e0)
    then show ?thesis
      using replayed [OF assms(1) small_display, where e = e0] small_display
      by (fastforce simp: s in_step_def set_renderer_def applyMacMuDisplayExportSubscriptions_def Let_def
          display_mask_test subscribed_def)
  next
    case Detach
    then show ?thesis by (simp add: s in_step_def stop_renderer_def)
  qed
qed

section \<open>Composition with the control receiver\<close>

text \<open>
  The receiver and the hooks together: every step of the receiver runs its calls on the hooks. The
  end of the reader is not a step here; it resets the subscriptions and is followed by \<open>stop\<close>,
  which is one.
\<close>

inductive export_reach :: "'d agent option \<Rightarrow> 'd \<Rightarrow> receiver \<times> 'd \<times> hooks \<Rightarrow> bool" for agent d0 where
  fresh: "export_reach agent d0 (new_receiver, d0, new_hooks)"
| frame: "export_reach agent d0 (s, d, k) \<Longrightarrow> handle_frame looper now h p s = (s', acts) \<Longrightarrow>
            export_reach agent d0 (s', d, run_acts acts k)"
| task: "export_reach agent d0 (s, d, k) \<Longrightarrow> run_task agent vm now t s d = Some (s', d', acts) \<Longrightarrow>
           export_reach agent d0 (s', d', run_acts acts k)"
| turn: "export_reach agent d0 (s, d, k) \<Longrightarrow> stream_loop_turn now s = (s', w) \<Longrightarrow>
           export_reach agent d0 (s', d, k)"
| started: "export_reach agent d0 (s, d, k) \<Longrightarrow> export_reach agent d0 (receiver_start e u s, d, k)"
| stopped: "export_reach agent d0 (s, d, k) \<Longrightarrow> receiver_stop looper reading s = (s', acts) \<Longrightarrow>
              export_reach agent d0 (s', d, run_acts acts k)"
| renderer: "export_reach agent d0 (s, d, k) \<Longrightarrow> export_reach agent d0 (s, d, fst (set_renderer k))"
| no_renderer: "export_reach agent d0 (s, d, k) \<Longrightarrow> export_reach agent d0 (s, d, stop_renderer k)"

definition streams_subscribed :: "receiver \<Rightarrow> hooks \<Rightarrow> bool" where
  "streams_subscribed s k \<longleftrightarrow>
     (\<forall>j. 0 < j \<and> j < 16 \<longrightarrow> subscribed k j = (map_of (mStreamingDisplays s) j \<noteq> None))"

lemma run_acts_simps [simp]:
  "run_acts [] k = k" "run_acts (a # acts) k = run_acts acts (fst (run_act a k))"
  "run_acts (acts @ acts') k = run_acts acts' (run_acts acts k)"
  by (simp_all add: run_acts_def)

lemma set_display_streaming_subscribed:
  assumes "streams_subscribed s k" and "set_display_streaming now i on f s = (s', acts)"
  shows "streams_subscribed s' (run_acts acts k)"
  using assms
  by (auto simp: streams_subscribed_def set_display_streaming_def Let_def run_act_subscribed
      simp del: run_act.simps split: if_splits option.splits)

text \<open>Removing a display ends its stream, so clearing its frame takes nothing else away.\<close>

lemma removed_subscribed:
  assumes "streams_subscribed s k" and "set_display_streaming now i False f s = (s', acts)"
  shows "streams_subscribed s' (fst (android_clearDisplayExportFrame i (run_acts acts k)))"
proof -
  have "i = 0 \<or> map_of (mStreamingDisplays s') i = None"
    using assms(2) by (auto simp: set_display_streaming_def split: if_splits)
  with set_display_streaming_subscribed [OF assms] run_act_subscribed [of _ "Clear_frame i" "run_acts acts k"]
  show ?thesis by (auto simp: streams_subscribed_def)
qed

lemma handle_frame_subscribed:
  assumes "streams_subscribed s k" and "handle_frame looper now h p s = (s', acts)"
  shows "streams_subscribed s' (run_acts acts k)"
proof -
  have u: "run_acts [send_error i c m] k = k" "run_acts [send_response i t b] k = k" "run_acts (handle_hello i) k = k"
    "run_acts (run_on_main_looper looper i tk) k = k" for i c m t b tk and k :: hooks
    by (simp_all add: send_error_def send_response_def handle_hello_def run_on_main_looper_def)
  from assms show ?thesis
    unfolding handle_frame_def Let_def
    by (auto simp: u simp del: run_acts_simps(2) dest: set_display_streaming_subscribed split: if_splits prod.splits)
qed

lemma run_task_subscribed:
  assumes "streams_subscribed s k" and "run_task agent vm now t s d = Some (s', d', acts)"
  shows "streams_subscribed s' (run_acts acts k)"
proof (cases t)
  case (Task_remove i r)
  show ?thesis
    using assms
    by (auto simp: Task_remove handle_display_remove_def Let_def send_error_def send_response_def
        send_display_event_def split: if_splits option.splits prod.splits dest: removed_subscribed)
next
  case (Task_add i r)
  then show ?thesis
    using assms
    by (auto simp: handle_display_add_def Let_def send_error_def send_response_def send_display_event_def
        split: if_splits option.splits prod.splits)
next
  case (Task_list i)
  then show ?thesis
    using assms
    by (auto simp: handle_display_list_def send_error_def send_response_def split: option.splits)
next
  case Task_shutdown
  then show ?thesis using assms by (auto split: if_splits)
qed

lemma receiver_stop_subscribed:
  "receiver_stop looper reading s = (s', acts) \<Longrightarrow> streams_subscribed s' (run_acts acts k)"
  by (auto simp: receiver_stop_def stop_stream_thread_def reader_end_def streams_subscribed_def Let_def
      run_act_subscribed simp del: run_act.simps split: if_splits)

lemma stream_turn_subscribed:
  assumes "streams_subscribed s k" and "stream_loop_turn now s = (s', w)"
  shows "streams_subscribed s' k"
  using assms
  by (auto simp: stream_loop_turn_def streams_subscribed_def Let_def case_prod_beta stream_pass_eq map_of_map
      split: if_splits)

lemma export_reach_subscribed:
  "export_reach agent d0 x \<Longrightarrow> streams_subscribed (fst x) (snd (snd x))"
proof (induction rule: export_reach.induct)
  case fresh
  then show ?case by (simp add: streams_subscribed_def new_receiver_def)
next
  case (started s d k e u)
  then show ?case by (simp add: receiver_start_def streams_subscribed_def Let_def split: option.split)
next
  case (renderer s d k)
  then show ?case by (simp add: streams_subscribed_def set_renderer_def subscribed_def Let_def)
next
  case (no_renderer s d k)
  then show ?case by (simp add: streams_subscribed_def stop_renderer_def subscribed_def)
qed (auto intro: handle_frame_subscribed run_task_subscribed stream_turn_subscribed receiver_stop_subscribed)

section \<open>Properties\<close>





end
