(* ===== verification/Device_Tree.thy ===== *)
theory Device_Tree
  imports Text_Util
begin

text \<open>
  \<^verbatim>\<open>external/qemu/android/third_party/libdtb/src/libdtb.c\<close>: a device tree is written as a flat
  blob, a header, a structure block of tokens and a table of property names that share storage. The
  growing buffers are byte lists; that they are large enough is proved apart. Proved: reading a blob
  back, as the format is specified, gives the tree that was written.
\<close>

section \<open>Data\<close>

datatype dt_property = Property (pdeleted: bool) (pname: string) (pval: bytes)

datatype dt_node = Node (ndeleted: bool) (nname: string) (proplist: "dt_property list")
  (nchildren: "dt_node list") (basenamelen: nat)

definition FTF_VARALIGN :: u32 where "FTF_VARALIGN = 0x2"
definition FTF_NAMEPROPS :: u32 where "FTF_NAMEPROPS = 0x4"
definition FTF_BOOTCPUID :: u32 where "FTF_BOOTCPUID = 0x8"
definition FTF_STRTABSIZE :: u32 where "FTF_STRTABSIZE = 0x10"
definition FTF_STRUCTSIZE :: u32 where "FTF_STRUCTSIZE = 0x20"
definition FTF_NOPS :: u32 where "FTF_NOPS = 0x40"

definition FDT_MAGIC :: u32 where "FDT_MAGIC = 0xd00dfeed"
definition FDT_BEGIN_NODE :: u32 where "FDT_BEGIN_NODE = 0x1"
definition FDT_END_NODE :: u32 where "FDT_END_NODE = 0x2"
definition FDT_PROP :: u32 where "FDT_PROP = 0x3"
definition FDT_END :: u32 where "FDT_END = 0x9"

definition FDT_V17_SIZE :: nat where "FDT_V17_SIZE = 7 * 4 + 4 + 4 + 4"

record version_info =
  viVersion :: nat
  viLastCompVersion :: nat
  viHdrSize :: nat
  viFlags :: u32

definition version_table :: "version_info list" where
  "version_table =
     [\<lparr>viVersion = 17, viLastCompVersion = 16, viHdrSize = FDT_V17_SIZE,
       viFlags = FTF_BOOTCPUID OR FTF_STRTABSIZE OR FTF_STRUCTSIZE OR FTF_NOPS\<rparr>]"

definition has_flag :: "version_info \<Rightarrow> u32 \<Rightarrow> bool" where
  "has_flag vi flag \<longleftrightarrow> viFlags vi AND flag \<noteq> 0"

section \<open>Buffers\<close>

text \<open>
  The size to which \<^verbatim>\<open>data_grow_for\<close> reallocates a buffer that holds \<open>len\<close> bytes and
  is to take \<open>xlen\<close> more; \<open>None\<close> when it leaves the buffer alone.
\<close>

function grow_loop :: "nat \<Rightarrow> nat \<Rightarrow> nat" where
  "grow_loop need newsize = (if newsize > 0 \<and> need > newsize then grow_loop need (newsize * 2) else newsize)"
  by pat_completeness auto

termination grow_loop
  by (relation "measure (\<lambda>(need, newsize). need - newsize)") auto

declare grow_loop.simps [simp del]

definition data_grow_for :: "nat \<Rightarrow> nat \<Rightarrow> nat option" where
  "data_grow_for len xlen = (if xlen = 0 then None else Some (grow_loop (len + xlen) xlen))"

definition data_append_data :: "bytes \<Rightarrow> bytes \<Rightarrow> bytes" where
  "data_append_data d p = d @ p"

definition data_merge :: "bytes \<Rightarrow> bytes \<Rightarrow> bytes" where
  "data_merge d1 d2 = data_append_data d1 d2"

definition data_append_byte :: "bytes \<Rightarrow> u8 \<Rightarrow> bytes" where
  "data_append_byte d b = data_append_data d [b]"

definition cpu_to_fdt32 :: "u32 \<Rightarrow> bytes" where
  "cpu_to_fdt32 x = rev (le_bytes 4 x)"

definition data_append_cell :: "bytes \<Rightarrow> u32 \<Rightarrow> bytes" where
  "data_append_cell d w = data_append_data d (cpu_to_fdt32 w)"

definition data_append_zeroes :: "bytes \<Rightarrow> nat \<Rightarrow> bytes" where
  "data_append_zeroes d n = d @ replicate n 0"

definition ALIGN2 :: "int \<Rightarrow> int \<Rightarrow> int" where
  "ALIGN2 x a = (x + a - 1) AND NOT (a - 1)"

definition data_append_align :: "bytes \<Rightarrow> int \<Rightarrow> bytes" where
  "data_append_align d align =
     (let newlen = ALIGN2 (int (length d)) align in data_append_zeroes d (nat (newlen - int (length d))))"

definition bin_emit_string :: "bytes \<Rightarrow> string \<Rightarrow> nat \<Rightarrow> bytes" where
  "bin_emit_string d str len =
     (let len' = (if len = 0 then length (c_str str) else len) in
      data_append_byte (data_append_data d (take len' (bytes_of str))) 0)"

section \<open>The structure block\<close>

definition c_string_at :: "bytes \<Rightarrow> nat \<Rightarrow> bytes" where
  "c_string_at d i = takeWhile (\<lambda>b. b \<noteq> 0) (drop i d)"

definition stringtable_insert :: "bytes \<Rightarrow> string \<Rightarrow> nat \<times> bytes" where
  "stringtable_insert d str =
     (case find (\<lambda>i. c_string_at d i = bytes_of (c_str str)) [0..<length d] of
        Some i \<Rightarrow> (i, d)
      | None \<Rightarrow> (length d, data_append_data d (bytes_of (c_str str) @ [0])))"

text \<open>
  The loop over the properties of a node; the state is the structure block, the string table and
  whether a property was called \<open>name\<close>.
\<close>

fun flatten_props :: "version_info \<Rightarrow> dt_property list \<Rightarrow> bytes \<times> bytes \<times> bool \<Rightarrow> bytes \<times> bytes \<times> bool" where
  "flatten_props vi [] s = s"
| "flatten_props vi (prop # props) (dtbuf, strbuf, seen_name_prop) =
     (if pdeleted prop then flatten_props vi props (dtbuf, strbuf, seen_name_prop)
      else
        let seen = (if c_str (pname prop) = ''name'' then True else seen_name_prop);
            (nameoff, strbuf1) = stringtable_insert strbuf (pname prop);
            d1 = data_append_cell dtbuf FDT_PROP;
            d2 = data_append_cell d1 (of_nat (length (pval prop)));
            d3 = data_append_cell d2 (of_nat nameoff);
            d4 = (if has_flag vi FTF_VARALIGN \<and> length (pval prop) \<ge> 8 then data_append_align d3 8 else d3);
            d5 = data_append_data d4 (pval prop);
            d6 = data_append_align d5 4 in
        flatten_props vi props (d6, strbuf1, seen))"

definition flatten_name_prop :: "version_info \<Rightarrow> string \<Rightarrow> nat \<Rightarrow> bytes \<times> bytes \<times> bool \<Rightarrow> bytes \<times> bytes" where
  "flatten_name_prop vi name len = (\<lambda>(dtbuf, strbuf, seen_name_prop).
     if has_flag vi FTF_NAMEPROPS \<and> \<not> seen_name_prop
     then
       let d1 = data_append_cell dtbuf FDT_PROP;
           d2 = data_append_cell d1 (of_nat (len + 1));
           (nameoff, strbuf1) = stringtable_insert strbuf ''name'';
           d3 = data_append_cell d2 (of_nat nameoff);
           d4 = (if has_flag vi FTF_VARALIGN \<and> len + 1 \<ge> 8 then data_append_align d3 8 else d3);
           d5 = bin_emit_string d4 name len in
       (data_append_align d5 4, strbuf1)
     else (dtbuf, strbuf))"

fun flatten_tree :: "version_info \<Rightarrow> dt_node \<Rightarrow> bytes \<times> bytes \<Rightarrow> bytes \<times> bytes"
and flatten_children :: "version_info \<Rightarrow> dt_node list \<Rightarrow> bytes \<times> bytes \<Rightarrow> bytes \<times> bytes" where
  "flatten_tree vi (Node del name props children len) (dtbuf, strbuf) =
     (if del then (dtbuf, strbuf)
      else
        let d1 = data_append_cell dtbuf FDT_BEGIN_NODE;
            d2 = data_append_align (bin_emit_string d1 name 0) 4;
            s3 = flatten_props vi props (d2, strbuf, False);
            s4 = flatten_name_prop vi name len s3;
            (d5, strbuf5) = flatten_children vi children s4 in
        (data_append_cell d5 FDT_END_NODE, strbuf5))"
| "flatten_children vi [] s = s"
| "flatten_children vi (c # cs) s =
     flatten_children vi cs (if ndeleted c then s else flatten_tree vi c s)"

section \<open>The blob\<close>

text \<open>
  The header: ten cells, of which those that the version does not set keep the bytes 0xff.
\<close>

definition fdt_reserve_entry_size :: nat where "fdt_reserve_entry_size = 16"

definition optional_cell :: "bool \<Rightarrow> u32 \<Rightarrow> bytes" where
  "optional_cell present w = (if present then cpu_to_fdt32 w else replicate 4 0xff)"

definition make_fdt_header :: "version_info \<Rightarrow> nat \<Rightarrow> nat \<Rightarrow> nat \<Rightarrow> nat \<Rightarrow> bytes" where
  "make_fdt_header vi reservesize dtsize strsize boot_cpuid_phys =
     (let reservesize' = reservesize + fdt_reserve_entry_size;
          reserve_off = nat (ALIGN2 (int (viHdrSize vi)) 8) in
      cpu_to_fdt32 FDT_MAGIC @
      cpu_to_fdt32 (of_nat (reserve_off + reservesize' + dtsize + strsize)) @
      cpu_to_fdt32 (of_nat (reserve_off + reservesize')) @
      cpu_to_fdt32 (of_nat (reserve_off + reservesize' + dtsize)) @
      cpu_to_fdt32 (of_nat reserve_off) @
      cpu_to_fdt32 (of_nat (viVersion vi)) @
      cpu_to_fdt32 (of_nat (viLastCompVersion vi)) @
      optional_cell (has_flag vi FTF_BOOTCPUID) (of_nat boot_cpuid_phys) @
      optional_cell (has_flag vi FTF_STRTABSIZE) (of_nat strsize) @
      optional_cell (has_flag vi FTF_STRUCTSIZE) (of_nat dtsize))"

text \<open>
  \<^verbatim>\<open>dt_to_blob\<close> up to the write; \<open>None\<close> where it ends the process for an unknown version.
\<close>

definition dt_to_blob :: "nat \<Rightarrow> dt_node \<Rightarrow> bytes option" where
  "dt_to_blob version tree =
     (case find (\<lambda>vi. viVersion vi = version) (rev version_table) of
        None \<Rightarrow> None
      | Some vi \<Rightarrow>
          let reservebuf = [];
              (dtbuf0, strbuf) = flatten_tree vi tree ([], []);
              dtbuf = data_append_cell dtbuf0 FDT_END;
              fdt = make_fdt_header vi (length reservebuf) (length dtbuf) (length strbuf) 0;
              b1 = data_append_data [] (take (viHdrSize vi) fdt);
              b2 = data_append_align b1 8;
              b3 = data_merge b2 reservebuf;
              b4 = data_append_zeroes b3 fdt_reserve_entry_size;
              b5 = data_merge b4 dtbuf in
          Some (data_merge b5 strbuf))"

section \<open>Reading a blob\<close>

text \<open>
  A reader of the format: tokens are big-endian cells at multiples of four bytes, names end with a
  zero byte, and a property names its offset into the string table. The readers count down from the
  length of the blob, since every property and every node takes at least four bytes.
\<close>

definition be_cell :: "bytes \<Rightarrow> u32" where
  "be_cell bs = le_word (rev (take 4 bs))"

definition pad4 :: "nat \<Rightarrow> nat" where
  "pad4 n = (3 * n) mod 4"

definition next_token :: "u32 \<Rightarrow> bytes \<Rightarrow> bool" where
  "next_token tok bs \<longleftrightarrow> 4 \<le> length bs \<and> be_cell bs = tok"

primrec read_props :: "nat \<Rightarrow> bytes \<Rightarrow> bytes \<Rightarrow> dt_property list \<times> bytes" where
  "read_props 0 tab bs = ([], bs)"
| "read_props (Suc n) tab bs =
     (if \<not> next_token FDT_PROP bs then ([], bs)
      else
        let len = unat (be_cell (drop 4 bs));
            nameoff = unat (be_cell (drop 8 bs));
            (props, rest) = read_props n tab (drop (12 + len + pad4 len) bs) in
        (Property False (text_of (c_string_at tab nameoff)) (take len (drop 12 bs)) # props, rest))"

primrec read_nodes :: "nat \<Rightarrow> bytes \<Rightarrow> bytes \<Rightarrow> (dt_node list \<times> bytes) option" where
  "read_nodes 0 tab bs = None"
| "read_nodes (Suc n) tab bs =
     (if \<not> next_token FDT_BEGIN_NODE bs then Some ([], bs)
      else
        let name = c_string_at bs 4;
            (props, r1) = read_props (length bs) tab
              (drop (4 + (length name + 1) + pad4 (length name + 1)) bs) in
        (case read_nodes n tab r1 of
           None \<Rightarrow> None
         | Some (children, r2) \<Rightarrow>
             if \<not> next_token FDT_END_NODE r2 then None
             else
               case read_nodes n tab (drop 4 r2) of
                 None \<Rightarrow> None
               | Some (siblings, r3) \<Rightarrow>
                   Some (Node False (text_of name) props children (length name) # siblings, r3)))"

text \<open>The whole blob, located through the offsets of its header.\<close>

definition header_cell :: "nat \<Rightarrow> bytes \<Rightarrow> nat" where
  "header_cell i blob = unat (be_cell (drop (4 * i) blob))"

definition read_blob :: "bytes \<Rightarrow> dt_node option" where
  "read_blob blob =
     (if length blob < 40 \<or> be_cell blob \<noteq> FDT_MAGIC \<or> header_cell 1 blob \<noteq> length blob then None
      else
        let struct = take (header_cell 9 blob) (drop (header_cell 2 blob) blob);
            tab = take (header_cell 8 blob) (drop (header_cell 3 blob) blob) in
        case read_nodes (length struct) tab struct of
          Some ([t], rest) \<Rightarrow> if rest = cpu_to_fdt32 FDT_END then Some t else None
        | _ \<Rightarrow> None)"

text \<open>What a blob keeps of a tree: the nodes and properties that are not deleted.\<close>

fun live :: "dt_node \<Rightarrow> dt_node" where
  "live (Node del name props children len) =
     Node False name (map (\<lambda>p. Property False (pname p) (pval p)) (filter (\<lambda>p. \<not> pdeleted p) props))
       (map live (filter (\<lambda>c. \<not> ndeleted c) children)) (length name)"

text \<open>Trees that C strings and 32-bit lengths can hold.\<close>

definition plain_name :: "string \<Rightarrow> bool" where
  "plain_name s \<longleftrightarrow> NUL \<notin> set s"

fun tree_ok :: "dt_node \<Rightarrow> bool" where
  "tree_ok (Node del name props children len) \<longleftrightarrow>
     plain_name name \<and> list_all (\<lambda>p. plain_name (pname p)) props \<and> list_all tree_ok children"

section \<open>Lemmas: buffers\<close>

lemma grow_loop_enough: "0 < newsize \<Longrightarrow> need \<le> grow_loop need newsize"
proof (induction need newsize rule: grow_loop.induct)
  case (1 need newsize)
  then show ?case by (subst grow_loop.simps) auto
qed

lemma length_cell [simp]: "length (cpu_to_fdt32 w) = 4"
  by (simp add: cpu_to_fdt32_def)

lemma be_cell_cell [simp]: "be_cell (cpu_to_fdt32 w @ bs) = w"
  by (simp add: be_cell_def cpu_to_fdt32_def)

lemma next_token_cell [simp]: "next_token tok (cpu_to_fdt32 w @ bs) = (w = tok)"
  by (simp add: next_token_def)

lemma and_minus_4: "x AND - 4 = 4 * (x div 4)" for x :: int
proof -
  have "x AND NOT (mask 2) = push_bit 2 (drop_bit 2 x)"
    by (rule bit_eqI) (auto simp: bit_and_iff bit_not_iff bit_mask_iff bit_push_bit_iff bit_drop_bit_eq not_less
        dest!: le_Suc_ex)
  moreover have "NOT (mask 2) = (- 4 :: int)" by (simp add: mask_eq_exp_minus_1)
  ultimately show ?thesis by (simp add: push_bit_eq_mult drop_bit_eq_div)
qed

lemma align4: "ALIGN2 (int n) 4 = int (n + pad4 n)"
proof -
  have "4 * ((int n + 3) div 4) = int n + (3 * int n) mod 4" by presburger
  then show ?thesis by (simp add: ALIGN2_def and_minus_4 pad4_def zmod_int add.commute)
qed

lemma align8: "ALIGN2 40 8 = 40"
  by (simp add: ALIGN2_def)

lemma data_append_align4:
  "data_append_align d 4 = d @ replicate (pad4 (length d)) 0"
  by (simp add: data_append_align_def align4 data_append_zeroes_def Let_def)

lemma pad4_aligned: "4 dvd n \<Longrightarrow> pad4 (n + m) = pad4 m"
  unfolding pad4_def by presburger

lemma dvd4_padded: "4 dvd n + pad4 n"
  by (simp add: pad4_def) presburger

section \<open>Lemmas: names\<close>

lemma byte_of_char_zero: "(of_nat (of_char c) :: u8) = 0 \<Longrightarrow> c = NUL"
proof -
  assume z: "(of_nat (of_char c) :: u8) = 0"
  have "(of_char c :: nat) < 256" by simp
  then have "unat (of_nat (of_char c) :: u8) = of_char c" by (simp add: unat_of_nat)
  with z have "of_char c = (of_char NUL :: nat)" by (simp add: NUL_def)
  then show ?thesis by (simp only: of_char_eq_iff)
qed

lemma bytes_of_plain: "plain_name s \<Longrightarrow> b \<in> set (bytes_of s) \<Longrightarrow> b \<noteq> 0"
  using byte_of_char_zero by (auto simp: bytes_of_def plain_name_def)

lemma c_str_plain [simp]: "plain_name s \<Longrightarrow> c_str s = s"
  by (simp add: plain_name_def)

lemma c_string_at_terminated:
  assumes "plain_name s"
  shows "c_string_at (d @ bytes_of s @ 0 # rest) (length d) = bytes_of s"
  using bytes_of_plain [OF assms] by (simp add: c_string_at_def takeWhile_append)

text \<open>
  A string table in which every string ends: what is found at an offset stays there as the table
  grows.
\<close>

definition table_ok :: "bytes \<Rightarrow> bool" where
  "table_ok tab \<longleftrightarrow> tab = [] \<or> last tab = 0"

lemma c_string_at_append:
  assumes "table_ok tab" and "i < length tab"
  shows "c_string_at (tab @ tab2) i = c_string_at tab i"
proof -
  have "last (drop i tab) = 0" "drop i tab \<noteq> []" using assms by (auto simp: table_ok_def)
  then have "0 \<in> set (drop i tab)" by (metis last_in_set)
  then show ?thesis using assms(2) by (simp add: c_string_at_def takeWhile_append1)
qed

lemma stringtable_insert_ok:
  assumes "table_ok tab" and "plain_name str" and "stringtable_insert tab str = (off, tab')"
  shows "\<exists>tab2. tab' = tab @ tab2" and "table_ok tab'" and "off < length tab'"
    and "c_string_at (tab' @ rest) off = bytes_of str"
proof -
  show g: "\<exists>tab2. tab' = tab @ tab2" and t: "table_ok tab'" and l: "off < length tab'"
    using assms by (auto simp: stringtable_insert_def table_ok_def data_append_data_def find_Some_iff
        split: option.splits)
  have "c_string_at tab' off = bytes_of str"
    using assms c_string_at_terminated [OF assms(2), of tab "[]"]
    by (auto simp: stringtable_insert_def data_append_data_def find_Some_iff split: option.splits)
  then show "c_string_at (tab' @ rest) off = bytes_of str" using c_string_at_append [OF t l] by simp
qed

section \<open>Lemmas: the structure block\<close>

text \<open>
  One step of the writer: it appends whole cells to the structure block and keeps the string table,
  which may grow at its end.
\<close>

definition appends :: "bytes \<times> bytes \<Rightarrow> bytes \<Rightarrow> bytes \<times> bytes \<Rightarrow> bool" where
  "appends s b s' \<longleftrightarrow>
     fst s' = fst s @ b \<and> 4 dvd length b \<and> (\<exists>tab2. snd s' = snd s @ tab2) \<and> table_ok (snd s')"

lemma appends_trans: "appends s b s1 \<Longrightarrow> appends s1 c s2 \<Longrightarrow> appends s (b @ c) s2"
  by (auto simp: appends_def)

lemma appends_aligned: "appends s b s' \<Longrightarrow> 4 dvd length (fst s) \<Longrightarrow> 4 dvd length (fst s')"
  by (simp add: appends_def)

lemma appends_table: "appends s b s' \<Longrightarrow> \<exists>tab2. snd s' = snd s @ tab2"
  by (simp add: appends_def)

definition v17 :: version_info where "v17 = hd version_table"

lemma v17_flags [simp]: "\<not> has_flag v17 FTF_VARALIGN" "\<not> has_flag v17 FTF_NAMEPROPS"
  "has_flag v17 FTF_BOOTCPUID" "has_flag v17 FTF_STRTABSIZE" "has_flag v17 FTF_STRUCTSIZE" "viHdrSize v17 = 40"
  by (simp_all add: v17_def version_table_def has_flag_def FTF_VARALIGN_def FTF_NAMEPROPS_def FTF_BOOTCPUID_def
      FTF_STRTABSIZE_def FTF_STRUCTSIZE_def FTF_NOPS_def FDT_V17_SIZE_def)

definition live_props :: "dt_property list \<Rightarrow> dt_property list" where
  "live_props props = map (\<lambda>p. Property False (pname p) (pval p)) (filter (\<lambda>p. \<not> pdeleted p) props)"

definition prop_bytes :: "nat \<Rightarrow> bytes \<Rightarrow> bytes" where
  "prop_bytes off v =
     cpu_to_fdt32 FDT_PROP @ cpu_to_fdt32 (of_nat (length v)) @ cpu_to_fdt32 (of_nat off) @ v @
     replicate (pad4 (length v)) 0"

lemma length_prop_bytes: "length (prop_bytes off v) = 12 + length v + pad4 (length v)"
  by (simp add: prop_bytes_def)

lemma flatten_props_Cons:
  assumes "\<not> pdeleted p" and "4 dvd length d" and "stringtable_insert tab (pname p) = (off, tab1)"
  shows "\<exists>seen'. flatten_props v17 (p # props) (d, tab, seen) =
    flatten_props v17 props (d @ prop_bytes off (pval p), tab1, seen')"
proof -
  have "pad4 (12 + length d + n) = pad4 n" for n
    using pad4_aligned [of "12 + length d" n] assms(2) by simp
  then show ?thesis
    using assms by (auto simp: data_append_align4 data_append_cell_def data_append_data_def prop_bytes_def Let_def)
qed

lemma read_prop:
  assumes "length v < 2 ^ 32" and "off < 2 ^ 32"
  shows "read_props (Suc n) tab (prop_bytes off v @ bs) =
    (let (props, rest) = read_props n tab bs in (Property False (text_of (c_string_at tab off)) v # props, rest))"
proof -
  have "drop (12 + length v + pad4 (length v)) (prop_bytes off v @ bs) = bs"
    using length_prop_bytes [of off v] by (simp del: length_append)
  moreover have "drop 4 (prop_bytes off v @ bs) = cpu_to_fdt32 (of_nat (length v)) @ cpu_to_fdt32 (of_nat off) @ v @
      replicate (pad4 (length v)) 0 @ bs"
    "drop 8 (prop_bytes off v @ bs) = cpu_to_fdt32 (of_nat off) @ v @ replicate (pad4 (length v)) 0 @ bs"
    "drop 12 (prop_bytes off v @ bs) = v @ replicate (pad4 (length v)) 0 @ bs"
    by (simp_all add: prop_bytes_def)
  moreover have "next_token FDT_PROP (prop_bytes off v @ bs)" by (simp add: prop_bytes_def)
  ultimately show ?thesis using assms by (simp add: unat_of_nat take_bit_nat_eq_self)
qed

lemma flatten_props_read:
  assumes "4 dvd length d" and "table_ok tab" and "list_all (\<lambda>p. plain_name (pname p)) props"
    and "flatten_props v17 props (d, tab, seen) = (d', tab', seen')"
  shows "\<exists>b. appends (d, tab) b (d', tab') \<and>
    (length b < 2 ^ 32 \<longrightarrow> length tab' < 2 ^ 32 \<longrightarrow>
      (\<forall>n rest tab2. length b \<le> n \<longrightarrow> \<not> next_token FDT_PROP rest \<longrightarrow>
        read_props n (tab' @ tab2) (b @ rest) = (live_props props, rest)))"
  using assms
proof (induction props arbitrary: d tab seen)
  case Nil
  have "read_props n t rest = ([], rest)" if "\<not> next_token FDT_PROP rest" for n t rest
    using that by (cases n) simp_all
  with Nil show ?case by (auto simp: appends_def live_props_def)
next
  case (Cons p props)
  show ?case
  proof (cases "pdeleted p")
    case True
    with Cons show ?thesis by (simp add: live_props_def)
  next
    case False
    obtain off tab1 where ins: "stringtable_insert tab (pname p) = (off, tab1)" by fastforce
    have pl: "plain_name (pname p)" using Cons.prems(3) by simp
    note ok = stringtable_insert_ok [OF Cons.prems(2) pl ins]
    let ?b1 = "prop_bytes off (pval p)"
    obtain seen1 where f: "flatten_props v17 props (d @ ?b1, tab1, seen1) = (d', tab', seen')"
      using flatten_props_Cons [OF False Cons.prems(1) ins, of props seen] Cons.prems(4) by auto
    have dv: "4 dvd length ?b1" using dvd4_padded [of "length (pval p)"] by (simp add: length_prop_bytes add.assoc)
    then have "4 dvd length (d @ ?b1)" using Cons.prems(1) by simp
    from Cons.IH [OF this ok(2) _ f] Cons.prems(3) obtain b where
      b: "appends (d @ ?b1, tab1) b (d', tab')" and
      r: "length b < 2 ^ 32 \<longrightarrow> length tab' < 2 ^ 32 \<longrightarrow>
        (\<forall>n rest tab2. length b \<le> n \<longrightarrow> \<not> next_token FDT_PROP rest \<longrightarrow>
          read_props n (tab' @ tab2) (b @ rest) = (live_props props, rest))" by auto
    have a1: "appends (d, tab) ?b1 (d @ ?b1, tab1)" using dv ok(1,2) by (simp add: appends_def)
    obtain ext where ext: "tab' = tab1 @ ext" using appends_table [OF b] by auto
    have "read_props n (tab' @ tab2) ((?b1 @ b) @ rest) = (live_props (p # props), rest)"
      if n: "length (?b1 @ b) < 2 ^ 32" "length tab' < 2 ^ 32" "length (?b1 @ b) \<le> n" "\<not> next_token FDT_PROP rest" for n rest tab2
    proof -
      obtain m where m: "n = Suc m" using n(3) by (cases n) (auto simp: length_prop_bytes)
      have "length (pval p) < 2 ^ 32" "off < 2 ^ 32" using n(1,2) ok(3) ext by (simp_all add: length_prop_bytes)
      note rp = read_prop [OF this, of m "tab' @ tab2" "b @ rest"]
      have "text_of (c_string_at (tab' @ tab2) off) = pname p" using ok(4) [of "ext @ tab2"] by (simp add: ext)
      moreover have "read_props m (tab' @ tab2) (b @ rest) = (live_props props, rest)"
        using r n m by (simp add: length_prop_bytes)
      ultimately show ?thesis using False rp by (simp add: m live_props_def)
    qed
    with appends_trans [OF a1 b] show ?thesis by blast
  qed
qed

text \<open>The tokens that open a node.\<close>

definition begin_bytes :: "string \<Rightarrow> bytes" where
  "begin_bytes name =
     cpu_to_fdt32 FDT_BEGIN_NODE @ bytes_of name @ [0] @ replicate (pad4 (length name + 1)) 0"

lemma length_begin_bytes: "length (begin_bytes name) = 4 + (length name + 1) + pad4 (length name + 1)"
  by (simp add: begin_bytes_def)

lemma begin_bytes_aligned: "4 dvd length (begin_bytes name)"
  using dvd_add [OF dvd_refl [of 4] dvd4_padded [of "length name + 1"]]
  by (simp only: length_begin_bytes add.assoc)

lemma flatten_tree_live:
  assumes "4 dvd length d" and "plain_name name"
  shows "flatten_tree v17 (Node False name props children len) (d, tab) =
    (let (d1, tab1, seen) = flatten_props v17 props (d @ begin_bytes name, tab, False);
         (d2, tab2) = flatten_children v17 children (d1, tab1) in
     (d2 @ cpu_to_fdt32 FDT_END_NODE, tab2))"
proof -
  have "pad4 (4 + length d + n) = pad4 n" for n
    using pad4_aligned [of "4 + length d" n] assms(1) by simp
  from this [of "Suc (length name)"] show ?thesis
    using assms(2)
    by (simp add: data_append_align4 data_append_cell_def data_append_data_def data_append_byte_def
        bin_emit_string_def begin_bytes_def flatten_name_prop_def case_prod_beta Let_def)
qed

lemma read_node_begin:
  assumes "plain_name name"
  shows "read_nodes (Suc n) tab (begin_bytes name @ bs) =
    (let (props, r1) = read_props (length (begin_bytes name) + length bs) tab bs in
     (case read_nodes n tab r1 of
        None \<Rightarrow> None
      | Some (children, r2) \<Rightarrow>
          if \<not> next_token FDT_END_NODE r2 then None
          else
            case read_nodes n tab (drop 4 r2) of
              None \<Rightarrow> None
            | Some (siblings, r3) \<Rightarrow> Some (Node False name props children (length name) # siblings, r3)))"
proof -
  have "c_string_at (begin_bytes name @ bs) 4 = bytes_of name"
    using c_string_at_terminated [OF assms, of "cpu_to_fdt32 FDT_BEGIN_NODE"] by (simp add: begin_bytes_def)
  moreover have "drop (4 + (length name + 1) + pad4 (length name + 1)) (begin_bytes name @ bs) = bs"
    using length_begin_bytes [of name] by (simp del: length_append)
  moreover have "next_token FDT_BEGIN_NODE (begin_bytes name @ bs)" by (simp add: begin_bytes_def)
  ultimately show ?thesis by (simp add: Let_def del: drop_append split: prod.split option.split)
qed

text \<open>
  What the writer does to a tree or a list of trees, and that the reader takes it back. A tree is
  followed by whatever siblings the reader finds behind it.
\<close>

definition written :: "bytes \<times> bytes \<Rightarrow> dt_node list \<Rightarrow> bytes \<times> bytes \<Rightarrow> bool" where
  "written s ts s' \<longleftrightarrow>
     (\<exists>b. appends s b s' \<and>
       (length b < 2 ^ 32 \<longrightarrow> length (snd s') < 2 ^ 32 \<longrightarrow>
         (\<forall>k rest tab2 sibs r. read_nodes k (snd s' @ tab2) rest = Some (sibs, r) \<longrightarrow>
           read_nodes (k + length b) (snd s' @ tab2) (b @ rest) = Some (map live ts @ sibs, r))))"

lemma read_nodes_more: "read_nodes n tab bs = Some x \<Longrightarrow> n \<le> m \<Longrightarrow> read_nodes m tab bs = Some x"
proof (induction n arbitrary: bs x m)
  case (Suc n)
  obtain k where m: "m = Suc k" "n \<le> k" using Suc.prems(2) by (cases m) auto
  show ?case
    using Suc.prems(1) Suc.IH [OF _ m(2)]
    by (auto simp: m(1) Let_def split: if_splits option.splits prod.splits)
qed simp

lemma written_nil: "table_ok (snd s) \<Longrightarrow> written s [] s"
  unfolding written_def by (rule exI [of _ "[]"]) (simp add: appends_def)

lemma written_trans:
  assumes "written s ts s1" and "written s1 us s2"
  shows "written s (ts @ us) s2"
proof -
  from assms(1) obtain b where b: "appends s b s1" and
    rb: "length b < 2 ^ 32 \<longrightarrow> length (snd s1) < 2 ^ 32 \<longrightarrow>
      (\<forall>k rest tab2 sibs r. read_nodes k (snd s1 @ tab2) rest = Some (sibs, r) \<longrightarrow>
        read_nodes (k + length b) (snd s1 @ tab2) (b @ rest) = Some (map live ts @ sibs, r))"
    unfolding written_def by blast
  from assms(2) obtain c where c: "appends s1 c s2" and
    rc: "length c < 2 ^ 32 \<longrightarrow> length (snd s2) < 2 ^ 32 \<longrightarrow>
      (\<forall>k rest tab2 sibs r. read_nodes k (snd s2 @ tab2) rest = Some (sibs, r) \<longrightarrow>
        read_nodes (k + length c) (snd s2 @ tab2) (c @ rest) = Some (map live us @ sibs, r))"
    unfolding written_def by blast
  obtain ext where ext: "snd s2 = snd s1 @ ext" using appends_table [OF c] by blast
  have "read_nodes (k + length (b @ c)) (snd s2 @ tab2) ((b @ c) @ rest) = Some (map live (ts @ us) @ sibs, r)"
    if "length (b @ c) < 2 ^ 32" "length (snd s2) < 2 ^ 32" "read_nodes k (snd s2 @ tab2) rest = Some (sibs, r)"
    for k rest tab2 sibs r
  proof -
    have "read_nodes (k + length c) (snd s1 @ ext @ tab2) (c @ rest) = Some (map live us @ sibs, r)"
      using rc that by (simp add: ext)
    moreover have "length b < 2 ^ 32" "length (snd s1) < 2 ^ 32" using that by (simp_all add: ext)
    ultimately have "read_nodes (k + length c + length b) (snd s1 @ ext @ tab2) (b @ c @ rest) =
        Some (map live ts @ map live us @ sibs, r)"
      using rb by blast
    then show ?thesis by (simp add: ext ac_simps)
  qed
  with appends_trans [OF b c] show ?thesis unfolding written_def by blast
qed

lemma children_written:
  assumes "\<And>c s. c \<in> set cs \<Longrightarrow> tree_ok c \<Longrightarrow> \<not> ndeleted c \<Longrightarrow> 4 dvd length (fst s) \<Longrightarrow> table_ok (snd s) \<Longrightarrow>
      written s [c] (flatten_tree v17 c s)"
    and "list_all tree_ok cs" and "4 dvd length (fst s)" and "table_ok (snd s)"
  shows "written s (filter (\<lambda>c. \<not> ndeleted c) cs) (flatten_children v17 cs s)"
  using assms
proof (induction cs arbitrary: s)
  case Nil
  then show ?case by (simp add: written_nil)
next
  case (Cons c cs)
  show ?case
  proof (cases "ndeleted c")
    case True
    with Cons show ?thesis by simp
  next
    case False
    let ?s = "flatten_tree v17 c s"
    have w: "written s [c] ?s" using Cons.prems False by simp
    then have "4 dvd length (fst ?s)" "table_ok (snd ?s)"
      using Cons.prems(3) by (auto simp: written_def appends_def)
    then have "written ?s (filter (\<lambda>c. \<not> ndeleted c) cs) (flatten_children v17 cs ?s)"
      using Cons.IH Cons.prems(1,2) by simp
    with written_trans [OF w] False show ?thesis by simp
  qed
qed

lemma token_distinct [simp]:
  "FDT_BEGIN_NODE \<noteq> FDT_END_NODE" "FDT_END_NODE \<noteq> FDT_BEGIN_NODE" "FDT_END_NODE \<noteq> FDT_PROP"
  "FDT_PROP \<noteq> FDT_BEGIN_NODE" "FDT_END \<noteq> FDT_BEGIN_NODE"
  by (simp_all add: FDT_BEGIN_NODE_def FDT_END_NODE_def FDT_PROP_def FDT_END_def)

lemma read_node_parts:
  assumes "plain_name name"
    and "\<And>n. length bp \<le> n \<Longrightarrow> \<not> next_token FDT_PROP (bc @ cpu_to_fdt32 FDT_END_NODE @ rest) \<Longrightarrow>
      read_props n tab (bp @ bc @ cpu_to_fdt32 FDT_END_NODE @ rest) = (props, bc @ cpu_to_fdt32 FDT_END_NODE @ rest)"
    and "read_nodes (1 + length bc) tab (bc @ cpu_to_fdt32 FDT_END_NODE @ rest) =
      Some (children, cpu_to_fdt32 FDT_END_NODE @ rest)"
    and "read_nodes k tab rest = Some (sibs, r)" and "k \<le> n" and "1 + length bc \<le> n"
  shows "read_nodes (Suc n) tab (begin_bytes name @ bp @ bc @ cpu_to_fdt32 FDT_END_NODE @ rest) =
    Some (Node False name props children (length name) # sibs, r)"
proof -
  let ?rest = "bc @ cpu_to_fdt32 FDT_END_NODE @ rest"
  have "\<not> next_token FDT_PROP ?rest"
  proof
    assume p: "next_token FDT_PROP ?rest"
    then have "\<not> next_token FDT_BEGIN_NODE ?rest" by (auto simp: next_token_def)
    then have "bc = []" using assms(3) by simp
    with p show False by simp
  qed
  then have "read_props (length (begin_bytes name) + length (bp @ ?rest)) tab (bp @ ?rest) = (props, ?rest)"
    using assms(2) by simp
  moreover have "read_nodes n tab ?rest = Some (children, cpu_to_fdt32 FDT_END_NODE @ rest)"
    using read_nodes_more [OF assms(3,6)] .
  moreover have "read_nodes n tab rest = Some (sibs, r)" using read_nodes_more [OF assms(4,5)] .
  ultimately show ?thesis by (simp add: read_node_begin [OF assms(1)] del: read_nodes.simps)
qed

lemma tree_written:
  "tree_ok t \<Longrightarrow> \<not> ndeleted t \<Longrightarrow> 4 dvd length (fst s) \<Longrightarrow> table_ok (snd s) \<Longrightarrow> written s [t] (flatten_tree v17 t s)"
proof (induction t arbitrary: s)
  case (Node del name props children len)
  obtain d tab where s: "s = (d, tab)" by fastforce
  have ok: "plain_name name" "list_all (\<lambda>p. plain_name (pname p)) props" "list_all tree_ok children" "\<not> del"
    using Node.prems(1,2) by simp_all
  obtain d1 tab1 seen where p: "flatten_props v17 props (d @ begin_bytes name, tab, False) = (d1, tab1, seen)"
    by (metis prod_cases3)
  obtain d2 tab2 where c: "flatten_children v17 children (d1, tab1) = (d2, tab2)" by fastforce
  have a: "4 dvd length (d @ begin_bytes name)" "4 dvd length d" using Node.prems(3) begin_bytes_aligned by (simp_all add: s)
  have t: "table_ok tab" using Node.prems(4) by (simp add: s)
  from flatten_props_read [OF a(1) t ok(2) p] obtain bp where bp: "appends (d @ begin_bytes name, tab) bp (d1, tab1)" and
    rp: "length bp < 2 ^ 32 \<longrightarrow> length tab1 < 2 ^ 32 \<longrightarrow>
      (\<forall>n rest tab2. length bp \<le> n \<longrightarrow> \<not> next_token FDT_PROP rest \<longrightarrow>
        read_props n (tab1 @ tab2) (bp @ rest) = (live_props props, rest))" by blast
  have "written (d1, tab1) (filter (\<lambda>c. \<not> ndeleted c) children) (d2, tab2)"
    using children_written [of children "(d1, tab1)", OF Node.IH ok(3)] appends_aligned [OF bp] bp a(1) c
    by (simp add: appends_def)
  then obtain bc where bc: "appends (d1, tab1) bc (d2, tab2)" and
    rc: "length bc < 2 ^ 32 \<longrightarrow> length tab2 < 2 ^ 32 \<longrightarrow>
      (\<forall>k rest tab3 sibs r. read_nodes k (tab2 @ tab3) rest = Some (sibs, r) \<longrightarrow>
        read_nodes (k + length bc) (tab2 @ tab3) (bc @ rest) =
          Some (map live (filter (\<lambda>c. \<not> ndeleted c) children) @ sibs, r))"
    unfolding written_def snd_conv by blast
  let ?fin = "cpu_to_fdt32 FDT_END_NODE" and ?b = "begin_bytes name @ bp @ bc @ cpu_to_fdt32 FDT_END_NODE"
  obtain ext where ext: "tab2 = tab1 @ ext" using appends_table [OF bc] by auto
  have f: "flatten_tree v17 (Node del name props children len) s = (d2 @ ?fin, tab2)"
    using flatten_tree_live [OF a(2) ok(1), of props children len tab] ok(4) p c by (simp add: s)
  have "appends s ?b (d2 @ ?fin, tab2)"
    using bp bc begin_bytes_aligned [of name] by (auto simp: appends_def s)
  moreover have "read_nodes (k + length ?b) (tab2 @ tab3) (?b @ rest) =
      Some (live (Node del name props children len) # sibs, r)"
    if "length ?b < 2 ^ 32" "length tab2 < 2 ^ 32" "read_nodes k (tab2 @ tab3) rest = Some (sibs, r)" for k rest tab3 sibs r
  proof -
    have e: "read_nodes 1 (tab2 @ tab3) (?fin @ rest) = Some ([], ?fin @ rest)" by simp
    have "read_nodes (1 + length bc) (tab2 @ tab3) (bc @ ?fin @ rest) =
        Some (map live (filter (\<lambda>c. \<not> ndeleted c) children), ?fin @ rest)"
      using rc that(1,2) e by fastforce
    moreover have "read_props n (tab2 @ tab3) (bp @ bc @ ?fin @ rest) = (live_props props, bc @ ?fin @ rest)"
      if "length bp \<le> n" "\<not> next_token FDT_PROP (bc @ ?fin @ rest)" for n
      using rp that \<open>length ?b < 2 ^ 32\<close> \<open>length tab2 < 2 ^ 32\<close> by (simp add: ext)
    ultimately have "read_nodes (Suc (k + length ?b - 1)) (tab2 @ tab3) (begin_bytes name @ bp @ bc @ ?fin @ rest) =
        Some (Node False name (live_props props) (map live (filter (\<lambda>c. \<not> ndeleted c) children)) (length name) # sibs, r)"
      using that(3) by (intro read_node_parts [OF ok(1)]) (auto simp: length_begin_bytes)
    then show ?thesis by (simp add: live_props_def length_begin_bytes add.left_commute)
  qed
  ultimately show ?case unfolding written_def f by auto
qed

section \<open>Lemmas: the blob\<close>

lemma header_bytes:
  "make_fdt_header v17 0 dtsize strsize 0 =
     concat (map cpu_to_fdt32 [FDT_MAGIC, of_nat (56 + dtsize + strsize), 56, of_nat (56 + dtsize), 40, 17, 16,
       0, of_nat strsize, of_nat dtsize])"
  by (simp add: make_fdt_header_def optional_cell_def align8 fdt_reserve_entry_size_def Let_def)
    (simp add: v17_def version_table_def)

lemma header_cell_nth:
  "i < length ws \<Longrightarrow> header_cell i (concat (map cpu_to_fdt32 ws) @ rest) = unat (ws ! i)"
proof (induction ws arbitrary: i)
  case (Cons w ws)
  show ?case
  proof (cases i)
    case 0
    then show ?thesis by (simp add: header_cell_def)
  next
    case (Suc j)
    then show ?thesis using Cons by (simp add: header_cell_def)
  qed
qed simp

lemma length_cells [simp]: "length (concat (map cpu_to_fdt32 ws)) = 4 * length ws"
  by (induction ws) simp_all

lemma blob_layout:
  assumes "dt_to_blob 17 t = Some blob" and "flatten_tree v17 t ([], []) = (b, tab)"
  shows "blob = make_fdt_header v17 0 (length b + 4) (length tab) 0 @ replicate 16 0 @ b @ cpu_to_fdt32 FDT_END @ tab"
proof -
  have "find (\<lambda>vi. viVersion vi = 17) (rev version_table) = Some v17" by (simp add: version_table_def v17_def)
  with assms show ?thesis
    by (simp add: dt_to_blob_def data_append_data_def data_merge_def data_append_cell_def data_append_zeroes_def
        data_append_align_def fdt_reserve_entry_size_def Let_def header_bytes align8)
qed

lemma blob_reads_back:
  assumes "tree_ok t" and "\<not> ndeleted t" and "dt_to_blob 17 t = Some blob" and "length blob < 2 ^ 32"
  shows "read_blob blob = Some (live t)"
proof -
  obtain b tab where f: "flatten_tree v17 t ([], []) = (b, tab)" by fastforce
  note l = blob_layout [OF assms(3) f]
  have s: "length b + 4 < 2 ^ 32" "length tab < 2 ^ 32" "length b + length tab + 60 < 2 ^ 32"
    using assms(4) by (simp_all add: l header_bytes)
  have "written ([], []) [t] (b, tab)" using tree_written [OF assms(1,2), of "([], [])"] f by (simp add: table_ok_def)
  then have r: "read_nodes (k + length b) (tab @ tab2) (b @ rest) = Some (live t # sibs, r)"
    if "read_nodes k (tab @ tab2) rest = Some (sibs, r)" for k tab2 rest sibs r
    using that s unfolding written_def appends_def by auto
  have "read_nodes 1 tab (cpu_to_fdt32 FDT_END) = Some ([], cpu_to_fdt32 FDT_END)"
    by (simp add: next_token_cell [of _ _ "[]", simplified])
  from r [of 1 "[]", unfolded append_Nil2, OF this]
  have n: "read_nodes (length b + 4) tab (b @ cpu_to_fdt32 FDT_END) = Some ([live t], cpu_to_fdt32 FDT_END)"
    using read_nodes_more [of "1 + length b" tab _ _ "length b + 4"] by simp
  let ?ws = "[FDT_MAGIC, of_nat (60 + length b + length tab), 56, of_nat (60 + length b), 40, 17, 16, 0,
    of_nat (length tab), of_nat (length b + 4)] :: u32 list"
  have h: "blob = concat (map cpu_to_fdt32 ?ws) @ replicate 16 0 @ b @ cpu_to_fdt32 FDT_END @ tab"
    by (simp add: l header_bytes add.commute add.left_commute)
  have u: "unat (of_nat m :: u32) = m" if "m < 2 ^ 32" for m using that by (simp add: unat_of_nat take_bit_nat_eq_self)
  have "header_cell 1 blob = length blob" "header_cell 2 blob = 56" "header_cell 3 blob = 60 + length b"
    "header_cell 8 blob = length tab" "header_cell 9 blob = length b + 4"
    using s u unfolding h by (simp_all add: header_cell_nth del: of_nat_add of_nat_Suc concat.simps list.map)
  moreover have "be_cell blob = FDT_MAGIC" unfolding h by simp
  moreover have "take (length b + 4) (drop 56 blob) = b @ cpu_to_fdt32 FDT_END" "drop (60 + length b) blob = tab"
    unfolding h by (simp_all del: concat.simps list.map)
  ultimately show ?thesis using n by (simp add: read_blob_def Let_def h del: concat.simps list.map)
qed

section \<open>Properties\<close>

text \<open>
  (C17) A device tree survives the blob: reading what \<open>dt_to_blob\<close> wrote, through the offsets of
  its header, its tokens and the shared name table, gives back the tree without its deleted parts,
  with every name, every property value and every nesting intact.
\<close>

theorem dtb_round_trip:
  assumes "tree_ok t" and "\<not> ndeleted t" and "dt_to_blob 17 t = Some blob" and "length blob < 2 ^ 32"
  shows "read_blob blob = Some (live t)"
  by (rule blob_reads_back [OF assms])

lemmas flatten_defs = data_append_align4 data_append_cell_def data_append_data_def data_append_byte_def
  bin_emit_string_def flatten_name_prop_def stringtable_insert_def pad4_def c_str_def NUL_def Let_def

theorem dtb_round_trip_witness:
  "Option.bind (dt_to_blob 17 (Node False [] [] [Node False ''a'' [Property False ''dev'' [7, 0],
     Property True ''x'' []] [] 1] 0)) read_blob =
   Some (Node False [] [] [Node False ''a'' [Property False ''dev'' [7, 0]] [] 1] 0)"
proof -
  let ?t = "Node False [] [] [Node False ''a'' [Property False ''dev'' [7, 0], Property True ''x'' []] [] 1] 0"
  obtain b tab where f: "flatten_tree v17 ?t ([], []) = (b, tab)" by fastforce
  obtain blob where bl: "dt_to_blob 17 ?t = Some blob"
    by (simp add: dt_to_blob_def version_table_def Let_def case_prod_beta)
  have "length b < 100 \<and> length tab < 100"
    using f by (auto simp: flatten_defs)
  then have "length blob < 2 ^ 32" by (simp add: blob_layout [OF bl f] header_bytes)
  from dtb_round_trip [OF _ _ bl this] show ?thesis by (simp add: bl [simplified] plain_name_def NUL_def)
qed

end
