(* ===== verification/File_System.thy ===== *)
theory File_System
  imports Posix_Util Text_Util "HOL-Library.Sublist"
begin

text \<open>
  The part of \<open>std::filesystem\<close> and of the file streams that the shell uses. A disk is a list of
  entries, each with the names on the way from the root; a process sees it through a \<open>world\<close> with a
  working directory. Every operation that the kernel may refuse takes the next of the world's
  \<open>answers\<close>: the error, if there is one, and what a failed operation has done before it gave up.
  Symbolic links are followed where they are the last name of a path, as far as the kernel does;
  directories reached through a link are not modelled.
\<close>

section \<open>Disks and paths\<close>

type_synonym fkey = "string list"

datatype node = Dir | File (content: bytes) | Symlink string

type_synonym disk = "(fkey \<times> node) list"

definition lookup :: "disk \<Rightarrow> fkey \<Rightarrow> node option" where
  "lookup d k = (if k = [] then Some Dir else map_of d k)"

fun normal :: "fkey \<Rightarrow> string list \<Rightarrow> fkey" where
  "normal base [] = base"
| "normal base (c # cs) =
     normal (if c = [] \<or> c = ''.'' then base else if c = ''..'' then butlast base else base @ [c]) cs"

definition is_absolute :: "string \<Rightarrow> bool" where
  "is_absolute p \<longleftrightarrow> take 1 p = ''/''"

text \<open>
  What the kernel answers to one operation: the error, the entries that a failed removal leaves,
  the entries that a failed copy leaves, and the number of bytes that it takes.
\<close>

record answer =
  failure :: "int option"
  keeps :: "fkey \<Rightarrow> bool"
  leaves :: disk
  accepts :: nat

text \<open>
  \<open>readable\<close> tells which files can be read; \<open>passed_on n\<close> is how many of the \<open>n\<close> bytes put
  into an output stream reach the kernel before the stream is closed, the others being in its buffer.
\<close>

record world =
  disk_of :: disk
  cwd :: string
  readable :: "fkey \<Rightarrow> bool"
  passed_on :: "nat \<Rightarrow> nat"
  answers :: "nat \<Rightarrow> answer"
  asked :: nat

definition fs_absolute :: "world \<Rightarrow> string \<Rightarrow> string" where
  "fs_absolute w p = (if is_absolute p then p else cwd w @ ''/'' @ p)"

definition key :: "world \<Rightarrow> string \<Rightarrow> fkey" where
  "key w p = normal [] (split_at CHR ''/'' (fs_absolute w p))"

definition link_target :: "fkey \<Rightarrow> string \<Rightarrow> fkey" where
  "link_target k t = normal (if is_absolute t then [] else butlast k) (split_at CHR ''/'' t)"

definition kMaxSymlinks :: nat where
  "kMaxSymlinks = 32"

primrec follow :: "nat \<Rightarrow> disk \<Rightarrow> fkey \<Rightarrow> fkey option" where
  "follow 0 d k = (case lookup d k of Some (Symlink _) \<Rightarrow> None | _ \<Rightarrow> Some k)"
| "follow (Suc n) d k = (case lookup d k of Some (Symlink t) \<Rightarrow> follow n d (link_target k t) | _ \<Rightarrow> Some k)"

definition status_at :: "disk \<Rightarrow> fkey \<Rightarrow> node option" where
  "status_at d k = (case follow kMaxSymlinks d k of None \<Rightarrow> None | Some r \<Rightarrow> lookup d r)"

definition status :: "world \<Rightarrow> string \<Rightarrow> node option" where
  "status w p = (if p = [] then None else status_at (disk_of w) (key w p))"

definition is_directory :: "world \<Rightarrow> string \<Rightarrow> bool" where
  "is_directory w p \<longleftrightarrow> status w p = Some Dir"

definition is_regular_file :: "world \<Rightarrow> string \<Rightarrow> bool" where
  "is_regular_file w p \<longleftrightarrow> (case status w p of Some (File _) \<Rightarrow> True | _ \<Rightarrow> False)"

definition fs_exists :: "world \<Rightarrow> string \<Rightarrow> bool" where
  "fs_exists w p \<longleftrightarrow> status w p \<noteq> None"

text \<open>The error code that a query leaves: a file that is not there counts as one.\<close>

definition status_error :: "world \<Rightarrow> string \<Rightarrow> int option" where
  "status_error w p = (if status w p = None then Some 2 else None)"

definition file_bytes :: "world \<Rightarrow> string \<Rightarrow> bytes" where
  "file_bytes w p = (case status w p of Some (File b) \<Rightarrow> b | _ \<Rightarrow> [])"

text \<open>\<open>ifstream\<close>: the content, where the file can be opened.\<close>

definition open_input :: "world \<Rightarrow> string \<Rightarrow> bytes option" where
  "open_input w p =
     (if is_regular_file w p \<and> readable w (key w p) then Some (file_bytes w p) else None)"

definition parent_path :: "string \<Rightarrow> string" where
  "parent_path p =
     (if CHR ''/'' \<notin> set p then []
      else let h = rev (dropWhile (\<lambda>c. c = CHR ''/'') (dropWhile (\<lambda>c. c \<noteq> CHR ''/'') (rev p))) in
           if h = [] then ''/'' else h)"

section \<open>Operations\<close>

definition ENOENT :: int where "ENOENT = 2"
definition EEXIST :: int where "EEXIST = 17"
definition EXDEV :: int where "EXDEV = 18"
definition ENOTDIR :: int where "ENOTDIR = 20"
definition EISDIR :: int where "EISDIR = 21"
definition EINVAL :: int where "EINVAL = 22"
definition ENOTEMPTY :: int where "ENOTEMPTY = 66"

definition next_answer :: "world \<Rightarrow> answer" where
  "next_answer w = answers w (asked w)"

definition with_disk :: "disk \<Rightarrow> world \<Rightarrow> world" where
  "with_disk d w = w\<lparr>disk_of := d, asked := Suc (asked w)\<rparr>"

definition put :: "fkey \<Rightarrow> node \<Rightarrow> disk \<Rightarrow> disk" where
  "put k x d = (k, x) # d"

definition erase_below :: "fkey \<Rightarrow> disk \<Rightarrow> disk" where
  "erase_below k d = filter (\<lambda>(r, _). \<not> prefix k r) d"

definition shift :: "fkey \<Rightarrow> fkey \<Rightarrow> fkey \<times> node \<Rightarrow> fkey \<times> node" where
  "shift k q e = (if prefix k (fst e) then (q @ drop (length k) (fst e), snd e) else e)"

definition occupied :: "disk \<Rightarrow> fkey \<Rightarrow> bool" where
  "occupied d k \<longleftrightarrow> list_ex (\<lambda>(r, _). strict_prefix k r) d"

definition make_dirs :: "fkey \<Rightarrow> nat \<Rightarrow> disk \<Rightarrow> disk" where
  "make_dirs k n d =
     map (\<lambda>i. (take i k, Dir)) (filter (\<lambda>i. lookup d (take i k) = None) [0..<Suc n]) @ d"

definition blocked :: "disk \<Rightarrow> fkey \<Rightarrow> bool" where
  "blocked d k \<longleftrightarrow> list_ex (\<lambda>i. lookup d (take i k) \<notin> {None, Some Dir}) [0..<Suc (length k)]"

definition fs_create_directories :: "string \<Rightarrow> world \<Rightarrow> bool \<times> int option \<times> world" where
  "fs_create_directories p w =
     (let d = disk_of w; k = key w p; a = next_answer w in
      if p = [] then (False, Some ENOENT, w)
      else if is_directory w p then (False, None, w)
      else if blocked d k then (False, Some ENOTDIR, w)
      else (case failure a of
          Some e \<Rightarrow> (False, Some e, with_disk (make_dirs k (min (accepts a) (length k)) d) w)
        | None \<Rightarrow> (True, None, with_disk (make_dirs k (length k) d) w)))"

definition fs_remove :: "string \<Rightarrow> world \<Rightarrow> int option \<times> world" where
  "fs_remove p w =
     (let d = disk_of w; k = key w p in
      if p = [] \<or> lookup d k = None then (None, w)
      else if lookup d k = Some Dir \<and> (k = [] \<or> occupied d k) then (Some ENOTEMPTY, w)
      else (case failure (next_answer w) of
          Some e \<Rightarrow> (Some e, with_disk d w)
        | None \<Rightarrow> (None, with_disk (erase_below k d) w)))"

definition fs_remove_all :: "string \<Rightarrow> world \<Rightarrow> int option \<times> world" where
  "fs_remove_all p w =
     (let d = disk_of w; k = key w p; a = next_answer w in
      if p = [] \<or> lookup d k = None then (None, w)
      else (case failure a of
          Some e \<Rightarrow> (Some e, with_disk (filter (\<lambda>(r, _). \<not> prefix k r \<or> keeps a r) d) w)
        | None \<Rightarrow> (None, with_disk (erase_below k d) w)))"

definition rename_error :: "disk \<Rightarrow> fkey \<Rightarrow> fkey \<Rightarrow> int option" where
  "rename_error d k q =
     (case lookup d k of
        None \<Rightarrow> Some ENOENT
      | Some x \<Rightarrow>
          if lookup d (butlast q) \<noteq> Some Dir then Some ENOENT
          else if strict_prefix k q then Some EINVAL
          else if strict_prefix q k then Some ENOTEMPTY
          else (case lookup d q of
              None \<Rightarrow> None
            | Some Dir \<Rightarrow> if x \<noteq> Dir then Some EISDIR else if occupied d q \<and> k \<noteq> q then Some ENOTEMPTY else None
            | Some _ \<Rightarrow> if x = Dir then Some ENOTDIR else None))"

definition relocate :: "fkey \<Rightarrow> fkey \<Rightarrow> disk \<Rightarrow> disk" where
  "relocate k q d = (if k = q then d else map (shift k q) (erase_below q d))"

definition fs_rename :: "string \<Rightarrow> string \<Rightarrow> world \<Rightarrow> int option \<times> world" where
  "fs_rename p t w =
     (let d = disk_of w; k = key w p; q = key w t in
      if p = [] \<or> t = [] then (Some ENOENT, w)
      else (case rename_error d k q of
          Some e \<Rightarrow> (Some e, w)
        | None \<Rightarrow>
            (case failure (next_answer w) of
               Some e \<Rightarrow> (Some e, with_disk d w)
             | None \<Rightarrow> (None, with_disk (relocate k q d) w))))"

text \<open>The recursive copy, with existing files overwritten and links copied as links.\<close>

definition copy_conflict :: "disk \<Rightarrow> fkey \<Rightarrow> fkey \<Rightarrow> bool" where
  "copy_conflict d k q =
     list_ex (\<lambda>(r, x). prefix k r \<and>
       (case (x, lookup d (q @ drop (length k) r)) of
          (_, None) \<Rightarrow> False
        | (Dir, Some Dir) \<Rightarrow> False
        | (File _, Some (File _)) \<Rightarrow> False
        | _ \<Rightarrow> True)) d"

definition duplicate :: "fkey \<Rightarrow> fkey \<Rightarrow> disk \<Rightarrow> disk" where
  "duplicate k q d = map (shift k q) (filter (\<lambda>(r, _). prefix k r) d) @ d"

definition spoil :: "fkey \<Rightarrow> disk \<Rightarrow> disk \<Rightarrow> disk" where
  "spoil q junk d = filter (\<lambda>(r, _). prefix q r) junk @ erase_below q d"

definition fs_copy :: "string \<Rightarrow> string \<Rightarrow> world \<Rightarrow> int option \<times> world" where
  "fs_copy p t w =
     (let d = disk_of w; k = key w p; q = key w t; a = next_answer w in
      if p = [] \<or> t = [] \<or> lookup d k = None then (Some ENOENT, w)
      else if lookup d (butlast q) \<noteq> Some Dir then (Some ENOENT, w)
      else if prefix k q \<or> copy_conflict d k q then (Some EEXIST, with_disk (spoil q (leaves a) d) w)
      else (case failure a of
          Some e \<Rightarrow> (Some e, with_disk (spoil q (leaves a) d) w)
        | None \<Rightarrow> (None, with_disk (duplicate k q d) w)))"

definition fs_create_symlink :: "string \<Rightarrow> string \<Rightarrow> world \<Rightarrow> int option \<times> world" where
  "fs_create_symlink target p w =
     (let d = disk_of w; k = key w p in
      if p = [] \<or> lookup d (butlast k) \<noteq> Some Dir then (Some ENOENT, w)
      else if lookup d k \<noteq> None then (Some EEXIST, w)
      else (case failure (next_answer w) of
          Some e \<Rightarrow> (Some e, with_disk d w)
        | None \<Rightarrow> (None, with_disk (put k (Symlink target) d) w)))"

text \<open>The key of the file that is written through a path, if there is or can be one.\<close>

definition writable_key :: "world \<Rightarrow> string \<Rightarrow> fkey option" where
  "writable_key w p =
     (if p = [] then None
      else case follow kMaxSymlinks (disk_of w) (key w p) of
          None \<Rightarrow> None
        | Some k \<Rightarrow>
            if lookup (disk_of w) k = Some Dir \<or> lookup (disk_of w) (butlast k) \<noteq> Some Dir then None
            else Some k)"

text \<open>
  An output stream that is opened with truncation, given \<open>text\<close> and closed: whether it could be
  opened, and whether it is good when the text has been put.
\<close>

definition write_stream :: "string \<Rightarrow> bytes \<Rightarrow> world \<Rightarrow> bool \<times> bool \<times> world" where
  "write_stream p b w =
     (let a = next_answer w in
      case writable_key w p of
        None \<Rightarrow> (False, False, w)
      | Some k \<Rightarrow>
          if failure a \<noteq> None then (False, False, with_disk (disk_of w) w)
          else (True, passed_on w (length b) \<le> accepts a,
                with_disk (put k (File (take (accepts a) b)) (disk_of w)) w))"

definition fs_copy_file :: "string \<Rightarrow> string \<Rightarrow> world \<Rightarrow> int option \<times> world" where
  "fs_copy_file p t w =
     (let a = next_answer w in
      case (is_regular_file w p, writable_key w t) of
        (True, Some k) \<Rightarrow>
          if follow kMaxSymlinks (disk_of w) (key w p) = Some k then (Some EEXIST, w)
          else (case failure a of
              Some e \<Rightarrow> (Some e, with_disk (put k (File (take (accepts a) (file_bytes w p))) (disk_of w)) w)
            | None \<Rightarrow> (None, with_disk (put k (File (file_bytes w p)) (disk_of w)) w))
      | _ \<Rightarrow> (Some ENOENT, w))"

definition fs_resize_file :: "string \<Rightarrow> nat \<Rightarrow> world \<Rightarrow> int option \<times> world" where
  "fs_resize_file p n w =
     (case (is_regular_file w p, follow kMaxSymlinks (disk_of w) (key w p)) of
        (True, Some k) \<Rightarrow>
          (case failure (next_answer w) of
             Some e \<Rightarrow> (Some e, with_disk (disk_of w) w)
           | None \<Rightarrow>
               let b = file_bytes w p in
               (None, with_disk (put k (File (take n b @ replicate (n - length b) 0)) (disk_of w)) w))
      | _ \<Rightarrow> (Some ENOENT, w))"

section \<open>Paths\<close>

definition component :: "string \<Rightarrow> bool" where
  "component c \<longleftrightarrow> c \<noteq> [] \<and> c \<noteq> ''.'' \<and> c \<noteq> ''..'' \<and> CHR ''/'' \<notin> set c"

definition dir_key :: "world \<Rightarrow> string \<Rightarrow> fkey" where
  "dir_key w p = (if p = [] then [] else key w p)"

lemma split_at_sep: "split_at sep (p @ sep # s) = split_at sep p @ split_at sep s"
  by (induction p) (auto split: list.split)

lemma normal_append [simp]: "normal base (xs @ ys) = normal (normal base xs) ys"
  by (induction base xs rule: normal.induct) auto

lemma normal_component [simp]: "component c \<Longrightarrow> normal base (c # cs) = normal (base @ [c]) cs"
  by (simp add: component_def)

lemma split_component [simp]: "component c \<Longrightarrow> split_at CHR ''/'' c = [c]"
  by (simp add: component_def split_at_no_sep)

lemma component_append: "component c \<Longrightarrow> CHR ''/'' \<notin> set e \<Longrightarrow> 3 \<le> length e \<Longrightarrow> component (c @ e)"
  by (auto simp: component_def dest: arg_cong [where f = length])

lemma key_slash:
  assumes "component c"
  shows "key w (p @ ''/'' @ c) = dir_key w p @ [c]"
proof -
  have "split_at CHR ''/'' (fs_absolute w (p @ CHR ''/'' # c)) =
      (if p = [] then [[], c] else split_at CHR ''/'' (fs_absolute w p) @ [c])"
    using assms split_at_sep [of "CHR ''/''" p c] split_at_sep [of "CHR ''/''" "cwd w @ CHR ''/'' # p" c]
    by (cases p) (auto simp: fs_absolute_def is_absolute_def)
  then show ?thesis using assms by (simp add: key_def dir_key_def del: normal.simps(2)) (simp add: component_def)
qed

lemma key_trailing: "p \<noteq> [] \<Longrightarrow> key w (p @ ''/'') = key w p"
  using split_at_sep [of "CHR ''/''" "fs_absolute w p" "[]"]
  by (cases p) (auto simp: key_def fs_absolute_def is_absolute_def)

lemma dir_key_trailing: "dir_key w (p @ ''/'') = dir_key w p"
proof (cases p)
  case Nil
  then show ?thesis by (simp add: dir_key_def key_def fs_absolute_def is_absolute_def)
next
  case (Cons c s)
  then show ?thesis using key_trailing [of p] by (simp add: dir_key_def)
qed

lemma key_join:
  assumes "component c" and "p \<noteq> []"
  shows "key w (path_join p c) = key w p @ [c]"
proof (cases "last p = CHR ''/''")
  case True
  then obtain q where q: "p = q @ ''/''" using assms(2) append_butlast_last_id [of p] by metis
  have "key w (path_join p c) = dir_key w q @ [c]"
    using key_slash [OF assms(1), of w q] True assms(2) by (simp add: path_join_def q)
  then show ?thesis using dir_key_trailing [of w q] by (simp add: q dir_key_def)
next
  case False
  then show ?thesis using key_slash [OF assms(1), of w p] assms(2) by (simp add: path_join_def dir_key_def)
qed

lemma path_join_not_Nil [simp]: "c \<noteq> [] \<Longrightarrow> path_join p c \<noteq> []"
  by (simp add: path_join_def)

lemma key_same_cwd: "cwd w' = cwd w \<Longrightarrow> key w' p = key w p"
  by (simp add: key_def fs_absolute_def)

lemma follow_self: "(\<And>t. lookup d k \<noteq> Some (Symlink t)) \<Longrightarrow> follow n d k = Some k"
  by (cases n) (auto split: node.split option.split)

lemma status_dir: "lookup (disk_of w) (key w p) = Some Dir \<Longrightarrow> p \<noteq> [] \<Longrightarrow> status w p = Some Dir"
  by (simp add: status_def status_at_def follow_self)

section \<open>What the operations keep\<close>

definition apart :: "fkey \<Rightarrow> fkey \<Rightarrow> bool" where
  "apart k r \<longleftrightarrow> \<not> prefix k r \<and> \<not> prefix r k"

text \<open>Everything that is at or below \<open>k\<close> in one disk is in the same place at or below \<open>k'\<close> in the other.\<close>

definition kept :: "disk \<Rightarrow> fkey \<Rightarrow> disk \<Rightarrow> fkey \<Rightarrow> bool" where
  "kept d k d' k' \<longleftrightarrow> (\<forall>s x. lookup d (k @ s) = Some x \<longrightarrow> lookup d' (k' @ s) = Some x)"

lemma kept_refl [simp]: "kept d k d k"
  by (simp add: kept_def)

lemma kept_trans: "kept d k d' k' \<Longrightarrow> kept d' k' d'' k'' \<Longrightarrow> kept d k d'' k''"
  by (simp add: kept_def)

lemma kept_root: "kept d k d' k' \<Longrightarrow> lookup d k = Some x \<Longrightarrow> lookup d' k' = Some x"
  unfolding kept_def by (drule spec [of _ "[]"]) simp

lemma apart_append: "apart k r \<Longrightarrow> \<not> prefix k (r @ s)"
  using prefix_same_cases [of k "r @ s" r] by (auto simp: apart_def)

lemma apart_sym: "apart k r \<Longrightarrow> apart r k"
  by (simp add: apart_def)

lemma apart_siblings: "x \<noteq> y \<Longrightarrow> apart (b @ [x]) (b @ [y])"
  by (simp add: apart_def)

lemma lookup_put [simp]: "lookup (put k x d) r = (if r = k \<and> k \<noteq> [] then Some x else lookup d r)"
  by (simp add: lookup_def put_def)

lemma map_of_filter_key: "map_of (filter (\<lambda>(r, _). P r) d) k = (if P k then map_of d k else None)"
  by (induction d) auto

lemma lookup_filter: "lookup (filter (\<lambda>(r, _). P r) d) k = (if k = [] \<or> P k then lookup d k else None)"
  by (simp add: lookup_def map_of_filter_key)

lemma lookup_erase_below: "lookup (erase_below k d) r = (if r = [] \<or> \<not> prefix k r then lookup d r else None)"
  by (simp add: erase_below_def lookup_filter)

lemma lookup_append: "lookup (d @ d') k = (case lookup d k of None \<Rightarrow> lookup d' k | Some x \<Rightarrow> Some x)"
  by (simp add: lookup_def map_add_def split: option.split)

lemma map_of_shift_outside:
  "\<not> prefix q r \<Longrightarrow> map_of (map (shift k q) d) r = (if prefix k r then None else map_of d r)"
  by (induction d) (auto simp: shift_def)

lemma map_of_shift_inside:
  assumes "apart k q" and "\<forall>e \<in> set d. \<not> prefix q (fst e)"
  shows "map_of (map (shift k q) d) (q @ s) = map_of d (k @ s)"
  using assms(2)
proof (induction d)
  case (Cons e d)
  obtain r x where e: "e = (r, x)" by fastforce
  show ?case
  proof (cases "prefix k r")
    case True
    then obtain t where "r = k @ t" by (auto simp: prefix_def)
    then show ?thesis using Cons by (simp add: e shift_def)
  next
    case False
    then have "r \<noteq> k @ s" "r \<noteq> q @ s" using Cons.prems by (auto simp: e)
    then show ?thesis using Cons False by (simp add: e shift_def)
  qed
qed simp

lemma apart_not_Nil: "apart k r \<Longrightarrow> k \<noteq> [] \<and> r \<noteq> []"
  by (auto simp: apart_def)

lemma relocate_inside:
  assumes "apart k q"
  shows "lookup (relocate k q d) (q @ s) = lookup d (k @ s)"
proof -
  have "map_of (map (shift k q) (erase_below q d)) (q @ s) = map_of (erase_below q d) (k @ s)"
    by (rule map_of_shift_inside [OF assms]) (auto simp: erase_below_def)
  also have "\<dots> = map_of d (k @ s)"
    using apart_append [OF apart_sym [OF assms]] by (simp add: erase_below_def map_of_filter_key)
  finally show ?thesis using assms apart_not_Nil [OF assms] by (auto simp: lookup_def relocate_def apart_def)
qed

lemma relocate_outside: "\<not> prefix q r \<Longrightarrow> \<not> prefix k r \<Longrightarrow> lookup (relocate k q d) r = lookup d r"
  by (cases "r = []") (simp_all add: relocate_def lookup_def map_of_shift_outside erase_below_def map_of_filter_key)

lemma duplicate_outside: "\<not> prefix q r \<Longrightarrow> lookup (duplicate k q d) r = lookup d r"
  by (cases "r = []")
    (auto simp: duplicate_def lookup_def map_add_def map_of_shift_outside map_of_filter_key split: option.split)

lemma duplicate_inside:
  assumes "apart k q" and "lookup d (k @ s) = Some x"
  shows "lookup (duplicate k q d) (q @ s) = Some x"
proof -
  have "map_of (map (shift k q) (filter (\<lambda>(r, _). prefix k r) d)) (q @ s) =
      map_of (filter (\<lambda>(r, _). prefix k r) d) (k @ s)"
    using apart_append [OF apart_sym [OF assms(1)]]
    by (intro map_of_shift_inside [OF assms(1)]) (fastforce simp: prefix_def [of k])
  then show ?thesis using assms(2) apart_not_Nil [OF assms(1)]
    by (simp add: duplicate_def lookup_def map_of_filter_key)
qed

lemma spoil_outside: "\<not> prefix q r \<Longrightarrow> lookup (spoil q junk d) r = lookup d r"
  by (cases "r = []") (simp add: lookup_def, simp add: spoil_def lookup_append lookup_filter lookup_erase_below)

lemma make_dirs_keeps:
  assumes "lookup d r = Some x"
  shows "lookup (make_dirs k n d) r = Some x"
proof (cases "r = []")
  case False
  have "map_of (map (\<lambda>i. (take i k, Dir)) (filter (\<lambda>i. lookup d (take i k) = None) [0..<Suc n])) r = None"
    using assms by (auto simp: map_of_eq_None_iff)
  then show ?thesis using assms False by (simp add: make_dirs_def lookup_def map_add_def del: upt_Suc)
qed (use assms in \<open>simp add: lookup_def\<close>)

text \<open>
  The contract of an operation on the disk: the process sees the disk as before, and an entry that
  the operation does not touch stays as it is.
\<close>

locale disk_op =
  fixes run :: "world \<Rightarrow> world" and touched :: "world \<Rightarrow> fkey \<Rightarrow> bool"
  assumes view: "cwd (run w) = cwd w" "readable (run w) = readable w"
    and frame: "lookup (disk_of w) r = Some x \<Longrightarrow> \<not> touched w r \<Longrightarrow> lookup (disk_of (run w)) r = Some x"
begin

lemma key_run: "key (run w) p = key w p"
  by (rule key_same_cwd) (rule view)

lemma kept_run: "(\<And>s. \<not> touched w (k @ s)) \<Longrightarrow> kept (disk_of w) k (disk_of (run w)) k"
  by (simp add: kept_def frame)

end

lemma with_disk_sel [simp]:
  "disk_of (with_disk d w) = d" "cwd (with_disk d w) = cwd w" "readable (with_disk d w) = readable w"
  "passed_on (with_disk d w) = passed_on w"
  by (simp_all add: with_disk_def)

interpretation create_dirs: disk_op "\<lambda>w. snd (snd (fs_create_directories p w))" "\<lambda>w r. False" for p
  by unfold_locales (simp_all add: fs_create_directories_def Let_def make_dirs_keeps split: option.split)

interpretation remove: disk_op "\<lambda>w. snd (fs_remove p w)" "\<lambda>w. prefix (key w p)" for p
  by unfold_locales (simp_all add: fs_remove_def Let_def lookup_erase_below split: option.split)

interpretation remove_all: disk_op "\<lambda>w. snd (fs_remove_all p w)" "\<lambda>w. prefix (key w p)" for p
  by unfold_locales (simp_all add: fs_remove_all_def Let_def lookup_erase_below lookup_filter split: option.split)

interpretation renaming: disk_op "\<lambda>w. snd (fs_rename p t w)" "\<lambda>w r. prefix (key w p) r \<or> prefix (key w t) r" for p t
  by unfold_locales (simp_all add: fs_rename_def Let_def relocate_outside split: option.split)

interpretation copying: disk_op "\<lambda>w. snd (fs_copy p t w)" "\<lambda>w. prefix (key w t)" for p t
  by unfold_locales (simp_all add: fs_copy_def Let_def duplicate_outside spoil_outside split: option.split)

interpretation linking: disk_op "\<lambda>w. snd (fs_create_symlink target p w)" "\<lambda>w r. r = key w p" for target p
  by unfold_locales (auto simp: fs_create_symlink_def Let_def split: option.split)

interpretation writing: disk_op "\<lambda>w. snd (snd (write_stream p b w))" "\<lambda>w r. writable_key w p = Some r" for p b
  by unfold_locales (auto simp: write_stream_def Let_def split: option.split)

interpretation copy_file: disk_op "\<lambda>w. snd (fs_copy_file p t w)" "\<lambda>w r. writable_key w t = Some r" for p t
  by unfold_locales (auto simp: fs_copy_file_def Let_def split: option.split bool.split)

interpretation resizing: disk_op "\<lambda>w. snd (fs_resize_file p n w)"
  "\<lambda>w r. follow kMaxSymlinks (disk_of w) (key w p) = Some r" for p n
  by unfold_locales (auto simp: fs_resize_file_def Let_def split: option.split bool.split)

lemmas key_ops [simp] = create_dirs.key_run remove.key_run remove_all.key_run renaming.key_run
  copying.key_run linking.key_run writing.key_run copy_file.key_run resizing.key_run

lemmas view_ops [simp] = create_dirs.view remove.view remove_all.view renaming.view
  copying.view linking.view writing.view copy_file.view resizing.view

lemma kept_remove_all: "apart (key w p) k \<Longrightarrow> kept (disk_of w) k (disk_of (snd (fs_remove_all p w))) k"
  by (rule remove_all.kept_run) (rule apart_append)

lemma kept_create: "kept (disk_of w) k (disk_of (snd (snd (fs_create_directories p w)))) k"
  by (rule create_dirs.kept_run) simp

lemma kept_rename:
  "apart (key w p) k \<Longrightarrow> apart (key w t) k \<Longrightarrow> kept (disk_of w) k (disk_of (snd (fs_rename p t w))) k"
  by (rule renaming.kept_run) (simp add: apart_append)

lemma kept_copy: "apart (key w t) k \<Longrightarrow> kept (disk_of w) k (disk_of (snd (fs_copy p t w))) k"
  by (rule copying.kept_run) (rule apart_append)

lemma rename_fails: "fst (fs_rename p t w) = Some e \<Longrightarrow> disk_of (snd (fs_rename p t w)) = disk_of w"
  by (auto simp: fs_rename_def Let_def split: option.splits if_splits)

lemma rename_moves:
  assumes "fst (fs_rename p t w) = None" and "apart (key w p) (key w t)"
  shows "kept (disk_of w) (key w p) (disk_of (snd (fs_rename p t w))) (key w t)"
  using assms relocate_inside [OF assms(2)]
  by (auto simp: fs_rename_def Let_def kept_def apart_def split: option.splits if_splits)

lemma copy_copies:
  assumes "fst (fs_copy p t w) = None" and "apart (key w p) (key w t)"
  shows "kept (disk_of w) (key w p) (disk_of (snd (fs_copy p t w))) (key w t)"
  using assms duplicate_inside [OF assms(2)]
  by (auto simp: fs_copy_def Let_def kept_def split: option.splits if_splits)

lemma rename_into_itself: "strict_prefix (key w p) (key w t) \<Longrightarrow> fst (fs_rename p t w) \<notin> {None, Some EXDEV}"
  by (auto simp: fs_rename_def Let_def rename_error_def ENOENT_def EINVAL_def EXDEV_def split: option.splits)

section \<open>Disks whose links are known\<close>

definition links_in :: "fkey set \<Rightarrow> disk \<Rightarrow> bool" where
  "links_in A d \<longleftrightarrow> (\<forall>r t. lookup d r = Some (Symlink t) \<longrightarrow> r \<in> A)"

text \<open>A step on such a disk that touches only the entries \<open>T\<close> and makes no link elsewhere.\<close>

definition tame :: "fkey set \<Rightarrow> fkey set \<Rightarrow> world \<Rightarrow> world \<Rightarrow> bool" where
  "tame A T w w' \<longleftrightarrow>
     cwd w' = cwd w \<and> readable w' = readable w \<and>
     (links_in A (disk_of w) \<longrightarrow>
        links_in A (disk_of w') \<and>
        (\<forall>r x. r \<notin> T \<longrightarrow> lookup (disk_of w) r = Some x \<longrightarrow> lookup (disk_of w') r = Some x))"

lemma tame_refl [simp]: "tame A T w w"
  by (simp add: tame_def)

lemma tame_trans: "tame A T w w1 \<Longrightarrow> tame A U w1 w2 \<Longrightarrow> tame A (T \<union> U) w w2"
  by (simp add: tame_def)

lemma tame_more: "tame A T w w1 \<Longrightarrow> T \<subseteq> U \<Longrightarrow> tame A U w w1"
  unfolding tame_def by blast

lemma tame_key: "tame A T w w1 \<Longrightarrow> key w1 p = key w p"
  unfolding tame_def by (blast intro: key_same_cwd)

lemma tame_links: "tame A T w w1 \<Longrightarrow> links_in A (disk_of w) \<Longrightarrow> links_in A (disk_of w1)"
  by (simp add: tame_def)

lemma tame_lookup:
  "tame A T w w1 \<Longrightarrow> links_in A (disk_of w) \<Longrightarrow> r \<notin> T \<Longrightarrow> lookup (disk_of w) r = Some x \<Longrightarrow>
   lookup (disk_of w1) r = Some x"
  by (simp add: tame_def)

lemma follow_no_link: "links_in A d \<Longrightarrow> k \<notin> A \<Longrightarrow> follow n d k = Some k"
  unfolding links_in_def by (rule follow_self) blast

lemma status_no_link:
  "links_in A (disk_of w) \<Longrightarrow> key w p \<notin> A \<Longrightarrow> p \<noteq> [] \<Longrightarrow> status w p = lookup (disk_of w) (key w p)"
  by (simp add: status_def status_at_def follow_no_link)

lemma writable_no_link:
  "links_in A (disk_of w) \<Longrightarrow> key w p \<notin> A \<Longrightarrow> writable_key w p = Some k \<Longrightarrow> k = key w p \<and> k \<noteq> []"
  by (auto simp: writable_key_def follow_no_link lookup_def split: if_splits)

lemma links_put_file: "links_in A d \<Longrightarrow> links_in A (put k (File b) d)"
  by (simp add: links_in_def)

lemma links_erase: "links_in A d \<Longrightarrow> links_in A (erase_below k d)"
  unfolding links_in_def by (simp add: lookup_erase_below)

lemma links_make_dirs:
  assumes "links_in A d"
  shows "links_in A (make_dirs k n d)"
proof -
  have "map_of (map (\<lambda>i. (take i k, Dir)) is) r \<noteq> Some (Symlink t)" for "is" r t by (induction "is") auto
  then show ?thesis using assms unfolding links_in_def make_dirs_def
    by (auto simp: lookup_append lookup_def simp del: upt_Suc split: if_splits option.splits)
qed

lemma tame_create: "tame A {} w (snd (snd (fs_create_directories p w)))"
  unfolding tame_def using create_dirs.frame [of w _ _ p]
  by (auto simp: fs_create_directories_def Let_def links_make_dirs split: option.splits)

lemma tame_remove: "tame A {r. prefix (key w p) r} w (snd (fs_remove p w))"
  unfolding tame_def using remove.frame [of w _ _ p]
  by (auto simp: fs_remove_def Let_def links_erase split: option.splits)

lemma tame_link: "key w p \<in> A \<Longrightarrow> tame A {key w p} w (snd (fs_create_symlink t p w))"
  by (auto simp: tame_def fs_create_symlink_def Let_def links_in_def split: option.splits if_splits)

lemma tame_write: "key w p \<notin> A \<Longrightarrow> tame A {key w p} w (snd (snd (write_stream p b w)))"
  using writable_no_link [of A w p]
  by (auto simp: tame_def write_stream_def Let_def links_put_file split: option.splits if_splits)

lemma tame_copy_file: "key w t \<notin> A \<Longrightarrow> tame A {key w t} w (snd (fs_copy_file p t w))"
  using writable_no_link [of A w t]
  by (auto simp: tame_def fs_copy_file_def Let_def links_put_file split: option.splits if_splits bool.splits)

lemma tame_resize: "key w p \<notin> A \<Longrightarrow> tame A {key w p} w (snd (fs_resize_file p n w))"
  by (auto simp: tame_def fs_resize_file_def Let_def links_put_file follow_no_link split: option.splits if_splits bool.splits)

end
