(* ===== verification/Machine_Manager.thy ===== *)
theory Machine_Manager
  imports File_System Shell_Options
begin

text \<open>
  \<^verbatim>\<open>shell/core/machine_manager.cpp\<close>: the check of a system image, the creation of the default
  machine and the replacement of the system image by an imported one. \<open>ec.message()\<close> is the
  argument \<open>msg\<close>; a function returns whether it succeeded, the error text it set, if any, and the
  new world. Proved: the check of the metadata disk is exact and free of overflow; a machine that
  was created exists; a replacement that fails loses nothing of the old image.
\<close>

unbundle bit_operations_syntax

type_synonym outcome = "bool \<times> string option \<times> world"

section \<open>The metadata disk\<close>

definition kDiskSectorSize :: u64 where "kDiskSectorSize = 512"
definition kGptHeaderOffset :: u64 where "kGptHeaderOffset = kDiskSectorSize"
definition kGptFirstEntryOffset :: u64 where "kGptFirstEntryOffset = 2 * kDiskSectorSize"
definition kGptEntrySize :: nat where "kGptEntrySize = 128"
definition kGptFirstLbaOffset :: nat where "kGptFirstLbaOffset = 32"
definition kGptLastLbaOffset :: nat where "kGptLastLbaOffset = 40"
definition kGptPartitionNameOffset :: nat where "kGptPartitionNameOffset = 56"
definition kExt4SuperblockOffset :: u64 where "kExt4SuperblockOffset = 1024"
definition kExt4MagicOffset :: u64 where "kExt4MagicOffset = 56"
definition kExt4VolumeNameOffset :: u64 where "kExt4VolumeNameOffset = 120"

definition ensure_directory :: "(int option \<Rightarrow> string) \<Rightarrow> string \<Rightarrow> world \<Rightarrow> outcome" where
  "ensure_directory msg path w =
     (if is_directory w path then (True, None, w)
      else case fs_create_directories path w of (made, ec, w1) \<Rightarrow>
        if made \<or> is_directory w1 path then (True, None, w1)
        else (False, Some (''failed to create directory: '' @ path @ '' ('' @ msg (status_error w1 path) @ '')''), w1))"

definition file_exists :: "world \<Rightarrow> string \<Rightarrow> bool" where
  "file_exists w path = is_regular_file w path"

definition read_little_endian_u64 :: "bytes \<Rightarrow> u64" where
  "read_little_endian_u64 b =
     fold (\<lambda>i value. value OR push_bit (8 * i) (ucast (b ! i))) [0..<8] 0"

definition read_exact_at :: "bytes \<Rightarrow> u64 \<Rightarrow> nat \<Rightarrow> bytes option" where
  "read_exact_at input offset n =
     (if sint offset < 0 then None
      else let got = take n (drop (unat offset) input) in
           if length got = n then Some got else None)"

definition has_utf16le_name :: "bytes \<Rightarrow> nat \<Rightarrow> string \<Rightarrow> bool" where
  "has_utf16le_name b n expected =
     (let len = length (c_str expected) in
      if n < (len + 1) * 2 then False
      else list_all (\<lambda>i. b ! (i * 2) = bytes_of expected ! i \<and> b ! (i * 2 + 1) = 0) [0..<len] \<and>
           b ! (len * 2) = 0 \<and> b ! (len * 2 + 1) = 0)"

definition superblock_ok :: "u64 \<Rightarrow> u64 \<Rightarrow> bytes \<Rightarrow> bool" where
  "superblock_ok file_size first_lba input =
    (let partition_offset = first_lba * kDiskSectorSize;
         superblock_offset = partition_offset + kExt4SuperblockOffset in
     if superblock_offset + kExt4VolumeNameOffset + 16 > file_size then False
     else case read_exact_at input (superblock_offset + kExt4MagicOffset) 2 of
       None \<Rightarrow> False
     | Some ext4_magic \<Rightarrow>
       if ext4_magic ! 0 \<noteq> 0x53 \<or> ext4_magic ! 1 \<noteq> 0xef then False
       else case read_exact_at input (superblock_offset + kExt4VolumeNameOffset) 16 of
         None \<Rightarrow> False
       | Some volume_name \<Rightarrow> take 8 volume_name = bytes_of ''metadata'' \<and> volume_name ! 8 = 0)"

definition metadata_bytes_ok :: "u64 \<Rightarrow> bytes \<Rightarrow> bool" where
  "metadata_bytes_ok file_size input =
     (case read_exact_at input kGptHeaderOffset 8 of
        None \<Rightarrow> False
      | Some gpt_magic \<Rightarrow>
        if gpt_magic \<noteq> bytes_of ''EFI PART'' then False
        else case read_exact_at input kGptFirstEntryOffset kGptEntrySize of
          None \<Rightarrow> False
        | Some entry \<Rightarrow>
          let first_lba = read_little_endian_u64 (drop kGptFirstLbaOffset entry);
              last_lba = read_little_endian_u64 (drop kGptLastLbaOffset entry) in
          if first_lba = 0 \<or> last_lba < first_lba \<or> first_lba \<ge> file_size div kDiskSectorSize \<or>
             last_lba \<ge> file_size div kDiskSectorSize \<or>
             \<not> has_utf16le_name (drop kGptPartitionNameOffset entry) (kGptEntrySize - kGptPartitionNameOffset) ''metadata''
          then False
          else superblock_ok file_size first_lba input)"

definition metadata_disk_exists :: "world \<Rightarrow> string \<Rightarrow> bool" where
  "metadata_disk_exists w path =
     (if \<not> is_regular_file w path then False
      else let file_size = of_nat (length (file_bytes w path)) in
        if file_size < 2 * 1024 * 1024 then False
        else case open_input w path of
            None \<Rightarrow> False
          | Some input \<Rightarrow> metadata_bytes_ok file_size input)"

section \<open>System images and files\<close>

definition kRequiredFiles :: "string list" where
  "kRequiredFiles =
     [''advancedFeatures.ini'', ''android-info.txt'', ''VerifiedBootParams.textproto'', ''kernel-ranchu'',
      ''ramdisk.img'', ''system-qemu.img'', ''userdata.img'', ''vendor-qemu.img'', ''vendor_boot.img'']"

definition system_image_exists_at :: "world \<Rightarrow> string \<Rightarrow> bool" where
  "system_image_exists_at w path =
     (list_all (\<lambda>f. file_exists w (path_join path f)) kRequiredFiles \<and>
      metadata_disk_exists w (path_join path ''encryptionkey.img''))"

definition write_text_file :: "string \<Rightarrow> string \<Rightarrow> world \<Rightarrow> outcome" where
  "write_text_file path txt w =
     (case write_stream path (bytes_of txt) w of (opened, good, w1) \<Rightarrow>
        if \<not> opened then (False, Some (''failed to write: '' @ path), w1)
        else if \<not> good then (False, Some (''failed to finish writing: '' @ path), w1)
        else (True, None, w1))"

definition ensure_sized_file :: "(int option \<Rightarrow> string) \<Rightarrow> string \<Rightarrow> nat \<Rightarrow> world \<Rightarrow> outcome" where
  "ensure_sized_file msg path n w =
     (if is_regular_file w path \<and> length (file_bytes w path) = n then (True, None, w)
      else case (if \<not> fs_exists w path then write_stream path [] w else (True, True, w)) of (opened, _, w1) \<Rightarrow>
        if \<not> opened then (False, Some (''failed to create disk image: '' @ path), w1)
        else case fs_resize_file path n w1 of (ec, w2) \<Rightarrow>
          if ec = None \<and> is_regular_file w2 path \<and> length (file_bytes w2 path) = n then (True, None, w2)
          else (False, Some (''failed to create disk image: '' @ path @ '' ('' @
                  msg (if ec = None then status_error w2 path else ec) @ '')''), w2))"

definition replace_with_symlink :: "(int option \<Rightarrow> string) \<Rightarrow> string \<Rightarrow> string \<Rightarrow> world \<Rightarrow> outcome" where
  "replace_with_symlink msg source destination w =
     (let w1 = snd (fs_remove destination w) in
      case fs_create_symlink (fs_absolute w1 source) destination w1 of (ec, w2) \<Rightarrow>
        if ec = None \<and> file_exists w2 destination then (True, None, w2)
        else (False, Some (''failed to link system image: '' @ destination @ '' ('' @ msg ec @ '')''), w2))"

definition ensure_metadata_disk :: "(int option \<Rightarrow> string) \<Rightarrow> string \<Rightarrow> string \<Rightarrow> world \<Rightarrow> outcome" where
  "ensure_metadata_disk msg source destination w =
     (if metadata_disk_exists w destination then (True, None, w)
      else
        let w1 = snd (fs_remove destination w);
            w2 = snd (fs_remove (destination @ ''.qcow2'') w1) in
        case fs_copy_file source destination w2 of (ec, w3) \<Rightarrow>
          if ec = None \<and> metadata_disk_exists w3 destination then (True, None, w3)
          else (False, Some (''failed to install metadata disk: '' @ destination @ '' ('' @ msg ec @ '')''), w3))"

definition ini_text :: "string list \<Rightarrow> string" where
  "ini_text ls = concat (map (\<lambda>l. l @ [CHR 0x0A]) ls)"

definition config_ini_for :: "ShellOptions \<Rightarrow> string" where
  "config_ini_for options =
     (let sysdir = (if systemPath options \<noteq> [] \<and> last (systemPath options) \<noteq> CHR ''/''
                    then systemPath options @ ''/'' else systemPath options) in
      ini_text
       [''PlayStore.enabled=no'', ''abi.type=arm64-v8a'', ''avd.id='' @ avdName options,
        ''avd.ini.encoding=UTF-8'', ''avd.name='' @ avdName options, ''disk.cachePartition=yes'',
        ''disk.cachePartition.size=66MB'', ''disk.dataPartition.path=<temp>'',
        ''disk.dataPartition.size=6G'', ''disk.systemPartition.size=0'',
        ''disk.vendorPartition.size=0'', ''fastboot.forceChosenSnapshotBoot=no'',
        ''fastboot.forceColdBoot=yes'', ''fastboot.forceFastBoot=no'',
        ''firstboot.bootFromDownloadableSnapshot=no'', ''firstboot.bootFromLocalSnapshot=no'',
        ''firstboot.saveToLocalSnapshot=no'', ''hw.accelerometer=yes'', ''hw.arc=false'',
        ''hw.audioInput=yes'', ''hw.audioOutput=yes'', ''hw.battery=yes'',
        ''hw.camera.back=emulated'', ''hw.camera.back.orientation=90'', ''hw.camera.front=none'',
        ''hw.cpu.arch=arm64'', ''hw.cpu.ncore=4'', ''hw.dPad=no'',
        ''hw.device.manufacturer=Google'', ''hw.device.name=pixel_6'', ''hw.gltransport=pipe'',
        ''hw.gpu.enabled=yes'', ''hw.gpu.mode=host'', ''hw.gsmModem=yes'', ''hw.gyroscope=yes'',
        ''hw.keyboard=no'', ''hw.keyboard.charmap=qwerty2'', ''hw.keyboard.lid=yes'',
        ''hw.lcd.backlight=yes'', ''hw.lcd.circular=false'', ''hw.lcd.density=420'',
        ''hw.lcd.depth=32'', ''hw.lcd.height=2400'', ''hw.lcd.transparent=false'',
        ''hw.lcd.vsync=60'', ''hw.lcd.width=1080'', ''hw.mainKeys=no'', ''hw.ramSize=2G'',
        ''hw.screen=multi-touch'', ''hw.sdCard=yes'', ''hw.sensors.light=yes'',
        ''hw.sensors.magnetic_field=yes'', ''hw.sensors.orientation=yes'',
        ''hw.sensors.pressure=yes'', ''hw.sensors.proximity=yes'', ''hw.trackBall=no'',
        ''hw.useext4=yes'', ''image.sysdir.1='' @ sysdir, ''kernel.newDeviceNaming=autodetect'',
        ''kernel.supportsYaffs2=autodetect'', ''runtime.network.latency=none'',
        ''runtime.network.speed=full'', ''sdcard.size=512 MB'', ''showDeviceFrame=yes'',
        ''tag.display=Default Android System Image'',
        ''tag.displaynames=Default Android System Image'', ''tag.id=default'', ''tag.ids=default'',
        ''target=android-36'', ''test.delayAdbTillBootComplete=0'', ''test.monitorAdb=0'',
        ''test.quitAfterBootTimeOut=-1'', ''userdata.useQcow2=no'', ''vm.heapSize=228M''])"

definition stage_system_image_directory ::
  "(int option \<Rightarrow> string) \<Rightarrow> string \<Rightarrow> string \<Rightarrow> world \<Rightarrow> outcome" where
  "stage_system_image_directory msg source importing w =
     (case fs_rename source importing w of (rename_ec, w1) \<Rightarrow>
        if rename_ec = None then (True, None, w1)
        else if rename_ec \<noteq> Some EXDEV
        then (False, Some (''failed to move system image into place: '' @ msg rename_ec), w1)
        else case fs_copy source importing w1 of (copy_ec, w2) \<Rightarrow>
          if copy_ec = None then (True, None, w2)
          else (False, Some (''failed to copy system image after cross-volume move failed: '' @ msg copy_ec),
                snd (fs_remove_all importing w2)))"

section \<open>Machines\<close>

definition macmu_machine_path :: "ShellOptions \<Rightarrow> string" where
  "macmu_machine_path options = path_join (avdHome options) (avdName options @ ''.avd'')"

definition macmu_machine_ini_path :: "ShellOptions \<Rightarrow> string" where
  "macmu_machine_ini_path options = path_join (avdHome options) (avdName options @ ''.ini'')"

text \<open>The next step of a sequence that stops at the first failure.\<close>

definition and_then :: "outcome \<Rightarrow> (world \<Rightarrow> outcome) \<Rightarrow> outcome" where
  "and_then r f = (case r of (ok, err, w) \<Rightarrow> if ok then f w else (False, err, w))"

definition macmu_ensure_runtime_directories :: "(int option \<Rightarrow> string) \<Rightarrow> ShellOptions \<Rightarrow> world \<Rightarrow> outcome" where
  "macmu_ensure_runtime_directories msg options w =
     and_then (ensure_directory msg (appDataDir options) w) (\<lambda>w1.
     and_then (ensure_directory msg (avdHome options) w1) (\<lambda>w2.
       ensure_directory msg (path_join (appDataDir options) ''images'') w2))"

definition macmu_system_image_exists :: "world \<Rightarrow> ShellOptions \<Rightarrow> bool" where
  "macmu_system_image_exists w options = system_image_exists_at w (systemPath options)"

definition macmu_machine_exists :: "world \<Rightarrow> ShellOptions \<Rightarrow> bool" where
  "macmu_machine_exists w options \<longleftrightarrow>
     file_exists w (macmu_machine_ini_path options) \<and>
     file_exists w (path_join (macmu_machine_path options) ''config.ini'') \<and>
     file_exists w (path_join (macmu_machine_path options) ''system-qemu.img'') \<and>
     file_exists w (path_join (macmu_machine_path options) ''vendor-qemu.img'') \<and>
     metadata_disk_exists w (path_join (macmu_machine_path options) ''encryptionkey.img'')"

definition root_ini :: "ShellOptions \<Rightarrow> string" where
  "root_ini options = ini_text
     [''avd.ini.encoding=UTF-8'', ''path='' @ macmu_machine_path options,
      ''path.rel=avd/'' @ avdName options @ ''.avd'', ''target=android-36'']"

definition macmu_create_default_machine :: "(int option \<Rightarrow> string) \<Rightarrow> ShellOptions \<Rightarrow> world \<Rightarrow> outcome" where
  "macmu_create_default_machine msg options w =
     (let machinePath = macmu_machine_path options in
      and_then (macmu_ensure_runtime_directories msg options w) (\<lambda>w1.
      if \<not> macmu_system_image_exists w1 options
      then (False, Some (''missing MacMu system image at: '' @ systemPath options), w1)
      else
      and_then (ensure_directory msg machinePath w1) (\<lambda>w2.
      and_then (write_text_file (macmu_machine_ini_path options) (root_ini options) w2) (\<lambda>w3.
      and_then (write_text_file (path_join machinePath ''config.ini'') (config_ini_for options) w3) (\<lambda>w4.
      and_then (replace_with_symlink msg (path_join (systemPath options) ''system-qemu.img'')
                  (path_join machinePath ''system-qemu.img'') w4) (\<lambda>w5.
      and_then (replace_with_symlink msg (path_join (systemPath options) ''vendor-qemu.img'')
                  (path_join machinePath ''vendor-qemu.img'') w5) (\<lambda>w6.
      and_then (ensure_metadata_disk msg (path_join (systemPath options) ''encryptionkey.img'')
                  (path_join machinePath ''encryptionkey.img'') w6) (\<lambda>w7.
        ensure_sized_file msg (path_join machinePath ''cache.img'') (66 * 1024 * 1024) w7))))))))"

text \<open>\<open>entries\<close> are the paths that the recursive iteration visits before it ends or fails.\<close>

definition macmu_find_system_image_directory :: "string list \<Rightarrow> string \<Rightarrow> world \<Rightarrow> string + string" where
  "macmu_find_system_image_directory entries root w =
     (if system_image_exists_at w root then Inr root
      else if \<not> is_directory w root then Inl (''not a directory: '' @ root)
      else case find (\<lambda>candidate. is_directory w candidate \<and> system_image_exists_at w candidate) entries of
          Some candidate \<Rightarrow> Inr candidate
        | None \<Rightarrow> Inl ''archive does not contain a MacMu AOSP16 arm64 system image'')"

definition activate_image :: "(int option \<Rightarrow> string) \<Rightarrow> string \<Rightarrow> string \<Rightarrow> string \<Rightarrow> world \<Rightarrow> outcome" where
  "activate_image msg importing previous destination w =
     (case fs_rename importing destination w of (ec, w1) \<Rightarrow>
        if ec \<noteq> None then
          let w2 = (if fs_exists w1 previous then snd (fs_rename previous destination w1) else w1) in
          (False, Some (''failed to activate imported system image: '' @ msg ec), snd (fs_remove_all importing w2))
        else (True, None, snd (fs_remove_all previous w1)))"

definition swap_image :: "(int option \<Rightarrow> string) \<Rightarrow> string \<Rightarrow> string \<Rightarrow> string \<Rightarrow> world \<Rightarrow> outcome" where
  "swap_image msg importing previous destination w =
     (if fs_exists w destination then
        case fs_rename destination previous w of (ec, w1) \<Rightarrow>
          if ec \<noteq> None then
            case fs_remove_all importing w1 of (ec', w2) \<Rightarrow>
              (False, Some (''failed to replace existing system image: '' @ msg ec'), w2)
          else activate_image msg importing previous destination w1
      else activate_image msg importing previous destination w)"

definition import_image ::
  "(int option \<Rightarrow> string) \<Rightarrow> string \<Rightarrow> string \<Rightarrow> string \<Rightarrow> string \<Rightarrow> world \<Rightarrow> outcome" where
  "import_image msg source_dir importing previous destination w =
     (case stage_system_image_directory msg source_dir importing w of (staged, err, w1) \<Rightarrow>
        if \<not> staged then (False, err, snd (fs_remove_all importing w1))
        else if \<not> system_image_exists_at w1 importing
        then (False, Some ''copied image did not pass validation'', snd (fs_remove_all importing w1))
        else swap_image msg importing previous destination w1)"

definition macmu_replace_system_image_from_directory ::
  "(int option \<Rightarrow> string) \<Rightarrow> ShellOptions \<Rightarrow> string \<Rightarrow> world \<Rightarrow> outcome" where
  "macmu_replace_system_image_from_directory msg options source_dir w =
     (if \<not> system_image_exists_at w source_dir
      then (False, Some (''missing required image files in: '' @ source_dir), w)
      else
      and_then (macmu_ensure_runtime_directories msg options w) (\<lambda>w1.
      let destination = systemPath options;
          parent = parent_path destination;
          importing = destination @ ''.importing'';
          previous = destination @ ''.previous'';
          w2 = snd (fs_remove_all importing w1);
          w3 = snd (fs_remove_all previous w2) in
      case fs_create_directories parent w3 of (_, ec, w4) \<Rightarrow>
      if ec \<noteq> None
      then (False, Some (''failed to create image parent directory: '' @ parent @ '' ('' @ msg ec @ '')''), w4)
      else import_image msg source_dir importing previous destination w4))"

section \<open>The check of the metadata disk\<close>

text \<open>The reference, over natural numbers and pieces of the content.\<close>

definition slice :: "bytes \<Rightarrow> nat \<Rightarrow> nat \<Rightarrow> bytes" where
  "slice b offset n = take n (drop offset b)"

fun utf16le :: "bytes \<Rightarrow> bytes" where
  "utf16le [] = [0, 0]"
| "utf16le (x # xs) = x # 0 # utf16le xs"

lemma length_utf16le: "length (utf16le xs) = 2 * length xs + 2"
  by (induction xs) auto

lemma utf16le_nth:
  "2 * length xs + 2 \<le> length b \<Longrightarrow>
   ((\<forall>i < length xs. b ! (i * 2) = xs ! i \<and> b ! Suc (i * 2) = 0) \<and> b ! (length xs * 2) = 0 \<and> b ! Suc (length xs * 2) = 0)
   \<longleftrightarrow> take (2 * length xs + 2) b = utf16le xs"
proof (induction xs arbitrary: b)
  case Nil
  then obtain x y b' where "b = x # y # b'" by (cases b; cases "tl b") auto
  then show ?case by simp
next
  case (Cons c xs)
  then obtain x y b' where b: "b = x # y # b'" by (cases b; cases "tl b") auto
  then show ?case using Cons.IH [of b'] Cons.prems by (auto simp: All_less_Suc2)
qed

lemma le_word_snoc: "le_word (xs @ [x]) = (le_word xs OR push_bit (8 * length xs) (ucast x) :: 'a::len word)"
  by (induction xs) (simp_all add: push_bit_or or.assoc push_bit_push_bit)

lemma read_little_endian: "8 \<le> length b \<Longrightarrow> read_little_endian_u64 b = le_word (take 8 b)"
proof -
  have "n \<le> length b \<Longrightarrow> fold (\<lambda>i value. value OR push_bit (8 * i) (ucast (b ! i))) [0..<n] 0 = (le_word (take n b) :: u64)" for n
    by (induction n) (simp_all add: take_Suc_conv_app_nth le_word_snoc)
  then show "8 \<le> length b \<Longrightarrow> ?thesis" unfolding read_little_endian_u64_def by blast
qed


definition metadata_image :: "bytes \<Rightarrow> bool" where
  "metadata_image b \<longleftrightarrow>
     2 * 1024 * 1024 \<le> length b \<and> slice b 512 8 = bytes_of ''EFI PART'' \<and>
     (let first_lba = unat (le_word (slice b 1056 8) :: u64);
          last_lba = unat (le_word (slice b 1064 8) :: u64);
          superblock = first_lba * 512 + 1024 in
      0 < first_lba \<and> first_lba \<le> last_lba \<and> last_lba < length b div 512 \<and>
      slice b 1080 18 = utf16le (bytes_of ''metadata'') \<and> superblock + 136 \<le> length b \<and>
      slice b (superblock + 56) 2 = [0x53, 0xef] \<and>
      slice b (superblock + 120) 9 = bytes_of ''metadata'' @ [0])"

lemma unat_of_nat_u64: "m < 2 ^ 63 \<Longrightarrow> unat (of_nat m :: u64) = m"
  by (simp add: unat_of_nat take_bit_nat_eq_self)

lemma read_exact_at_nat:
  assumes "m < 2 ^ 63" and "0 < n"
  shows "read_exact_at b (of_nat m) n = (if m + n \<le> length b then Some (slice b m n) else None)"
proof -
  have "\<not> sint (of_nat m :: u64) < 0"
    using assms(1) by (simp add: sint_uint uint_nat unat_of_nat_u64 signed_take_bit_eq_if_positive bit_iff_odd)
  then show ?thesis using assms by (auto simp: read_exact_at_def slice_def unat_of_nat_u64 Let_def min_def)
qed

lemma has_utf16le_name_iff:
  assumes "c_str name = name" and "2 * length name + 2 \<le> length b" and "2 * length name + 2 \<le> n"
  shows "has_utf16le_name b n name \<longleftrightarrow> take (2 * length name + 2) b = utf16le (bytes_of name)"
  using utf16le_nth [of "bytes_of name" b] assms
  by (simp add: has_utf16le_name_def list_all_iff Let_def) auto

lemma length_slice: "m + n \<le> length b \<Longrightarrow> length (slice b m n) = n"
  by (simp add: slice_def)

lemma slice_slice: "k + i \<le> n \<Longrightarrow> take i (drop k (slice b m n)) = slice b (m + k) i"
  by (simp add: slice_def drop_take min_def add.commute)

lemma take_9: "length v = 16 \<Longrightarrow> (take 8 v = xs \<and> v ! 8 = 0) = (take 9 v = xs @ [0])" if "length xs = 8"
  using that take_Suc_conv_app_nth [of 8 v] by auto

lemma two_bytes: "length v = 2 \<Longrightarrow> (v ! 0 = x \<and> v ! 1 = y) = (v = [x, y])"
  by (cases v; cases "tl v") auto


lemma superblock_ok_exact:
  assumes "length b < 2 ^ 63" and "k * 512 < length b"
  shows "superblock_ok (of_nat (length b)) (of_nat k) b \<longleftrightarrow>
    k * 512 + 1160 \<le> length b \<and> slice b (k * 512 + 1080) 2 = [0x53, 0xef] \<and>
    slice b (k * 512 + 1144) 9 = bytes_of ''metadata'' @ [0]"
proof -
  have o: "of_nat k * 512 + 1024 = (of_nat (k * 512 + 1024) :: u64)" by simp
  have "unat (of_nat m :: u64) = m" if "m < 2 ^ 64" for m
    using that by (simp add: unat_of_nat take_bit_nat_eq_self)
  moreover have "k * 512 + 1160 < 2 ^ 64" using assms by simp
  ultimately have "unat (of_nat (k * 512 + 1160) :: u64) = k * 512 + 1160" by blast
  then have c: "(of_nat (k * 512 + 1024) + 120 + 16 :: u64) > of_nat (length b) \<longleftrightarrow> length b < k * 512 + 1160"
    using assms by (simp add: word_less_nat_alt unat_of_nat_u64 add.commute)
  show ?thesis
  proof (cases "k * 512 + 1160 \<le> length b")
    case True
    have r: "read_exact_at b (of_nat (k * 512 + 1024) + 56) 2 = Some (slice b (k * 512 + 1080) 2)"
      "read_exact_at b (of_nat (k * 512 + 1024) + 120) 16 = Some (slice b (k * 512 + 1144) 16)"
      using read_exact_at_nat [of "k * 512 + 1080" 2 b] read_exact_at_nat [of "k * 512 + 1144" 16 b] True assms(1)
      by (simp_all add: add.commute)
    have "take 9 (slice b (k * 512 + 1144) 16) = slice b (k * 512 + 1144) 9"
      using slice_slice [of 0 9 16 b "k * 512 + 1144"] by simp
    then show ?thesis
      using True two_bytes [of "slice b (k * 512 + 1080) 2" "0x53" "0xef"]
        take_9 [of "bytes_of ''metadata''" "slice b (k * 512 + 1144) 16"] c
      unfolding superblock_ok_def Let_def kDiskSectorSize_def kExt4SuperblockOffset_def kExt4MagicOffset_def
        kExt4VolumeNameOffset_def o r by (auto simp: length_slice)
  next
    case False
    then show ?thesis using c unfolding superblock_ok_def Let_def kDiskSectorSize_def kExt4SuperblockOffset_def
        kExt4VolumeNameOffset_def o by simp
  qed
qed

lemma metadata_bytes_ok_exact:
  assumes "2 * 1024 * 1024 \<le> length b" and "length b < 2 ^ 63"
  shows "metadata_bytes_ok (of_nat (length b)) b = metadata_image b"
proof -
  let ?first = "le_word (slice b 1056 8) :: u64" and ?last = "le_word (slice b 1064 8) :: u64"
  have h: "read_exact_at b kGptHeaderOffset 8 = Some (slice b 512 8)"
    using read_exact_at_nat [of 512 8 b] assms(1) by (simp add: kGptHeaderOffset_def kDiskSectorSize_def)
  have e: "read_exact_at b kGptFirstEntryOffset kGptEntrySize = Some (slice b 1024 128)"
    using read_exact_at_nat [of 1024 128 b] assms(1)
    by (simp add: kGptFirstEntryOffset_def kDiskSectorSize_def kGptEntrySize_def)
  have l: "length (slice b 1024 128) = 128" using assms(1) by (simp add: length_slice)
  have f: "read_little_endian_u64 (drop kGptFirstLbaOffset (slice b 1024 128)) = ?first"
    "read_little_endian_u64 (drop kGptLastLbaOffset (slice b 1024 128)) = ?last"
    using slice_slice [of 32 8 128 b 1024] slice_slice [of 40 8 128 b 1024] l
    by (simp_all add: read_little_endian kGptFirstLbaOffset_def kGptLastLbaOffset_def)
  have n: "has_utf16le_name (drop kGptPartitionNameOffset (slice b 1024 128)) (kGptEntrySize - kGptPartitionNameOffset)
      ''metadata'' \<longleftrightarrow> slice b 1080 18 = utf16le (bytes_of ''metadata'')"
    using has_utf16le_name_iff [of "''metadata''" "drop 56 (slice b 1024 128)" 72] slice_slice [of 56 18 128 b 1024] l
    by (simp add: c_str_def NUL_def kGptPartitionNameOffset_def kGptEntrySize_def)
  have q: "unat (of_nat (length b) div kDiskSectorSize :: u64) = length b div 512"
    using assms(2) by (simp add: unat_div unat_of_nat_u64 kDiskSectorSize_def)
  have "superblock_ok (of_nat (length b)) ?first b \<longleftrightarrow>
      unat ?first * 512 + 1160 \<le> length b \<and> slice b (unat ?first * 512 + 1080) 2 = [0x53, 0xef] \<and>
      slice b (unat ?first * 512 + 1144) 9 = bytes_of ''metadata'' @ [0]" if "unat ?first < length b div 512"
    using superblock_ok_exact [OF assms(2), of "unat ?first"] that by simp
  then show ?thesis using assms(1) unfolding metadata_bytes_ok_def h e f n option.case Let_def
      metadata_image_def
    by (auto simp: word_less_nat_alt word_le_nat_alt q unat_gt_0 ac_simps)
qed

section \<open>What the operations keep\<close>

interpretation ensure_dir: disk_op "\<lambda>w. snd (snd (ensure_directory msg p w))" "\<lambda>w r. False" for msg p
  by unfold_locales (simp_all add: ensure_directory_def split_beta create_dirs.frame)

lemma snd_and_then: "snd (snd (and_then r f)) = (if fst r then snd (snd (f (snd (snd r)))) else snd (snd r))"
  by (simp add: and_then_def split_beta)

lemma fst_and_then: "fst (and_then r f) \<longleftrightarrow> fst r \<and> fst (f (snd (snd r)))"
  by (simp add: and_then_def split_beta)

interpretation runtime_dirs: disk_op "\<lambda>w. snd (snd (macmu_ensure_runtime_directories msg options w))" "\<lambda>w r. False"
  for msg options
  by unfold_locales
    (simp_all add: macmu_ensure_runtime_directories_def snd_and_then ensure_dir.view ensure_dir.frame)

lemma key_stage [simp]: "key (snd (snd (stage_system_image_directory msg p t w))) q = key w q"
  by (simp add: stage_system_image_directory_def split_beta)

lemma stage_keeps:
  assumes "apart (key w p) k" and "apart (key w t) k"
  shows "kept (disk_of w) k (disk_of (snd (snd (stage_system_image_directory msg p t w)))) k"
proof -
  let ?w1 = "snd (fs_rename p t w)" and ?w2 = "snd (fs_copy p t (snd (fs_rename p t w)))"
  have 1: "kept (disk_of w) k (disk_of ?w1) k" using assms by (rule kept_rename)
  have 2: "kept (disk_of w) k (disk_of ?w2) k"
    using kept_trans [OF 1 kept_copy [of ?w1 t k p]] assms by simp
  have "kept (disk_of w) k (disk_of (snd (fs_remove_all t ?w2))) k"
    using kept_trans [OF 2 kept_remove_all [of ?w2 t k]] assms by simp
  with 1 2 show ?thesis by (simp add: stage_system_image_directory_def split_beta)
qed

lemma stage_moves:
  assumes "fst (stage_system_image_directory msg p t w)" and "apart (key w p) (key w t)"
  shows "kept (disk_of w) (key w p) (disk_of (snd (snd (stage_system_image_directory msg p t w)))) (key w t)"
proof (cases "fst (fs_rename p t w)")
  case None
  then show ?thesis using rename_moves [OF None assms(2)]
    by (simp add: stage_system_image_directory_def split_beta)
next
  case (Some e)
  let ?w1 = "snd (fs_rename p t w)"
  have "fst (fs_copy p t ?w1) = None" "fst (fs_rename p t w) = Some EXDEV"
    using assms(1) Some by (auto simp: stage_system_image_directory_def split_beta split: if_splits)
  then show ?thesis using copy_copies [of p t ?w1] assms(2) rename_fails [OF Some]
    by (simp add: stage_system_image_directory_def split_beta)
qed

lemma activate_ok:
  assumes "fst (activate_image msg imp prev dest w)" and "apart (key w imp) (key w dest)" and "apart (key w prev) (key w dest)"
  shows "kept (disk_of w) (key w imp) (disk_of (snd (snd (activate_image msg imp prev dest w)))) (key w dest)"
proof -
  let ?w1 = "snd (fs_rename imp dest w)"
  have r: "fst (fs_rename imp dest w) = None"
    using assms(1) by (auto simp: activate_image_def split_beta Let_def split: if_splits)
  show ?thesis
    using kept_trans [OF rename_moves [OF r assms(2)] kept_remove_all [of ?w1 prev]] assms(3) r
    by (simp add: activate_image_def split_beta)
qed

lemma activate_fails:
  assumes "\<not> fst (activate_image msg imp prev dest w)"
    and "apart (key w imp) (key w dest)" "apart (key w prev) (key w dest)" "apart (key w imp) (key w prev)"
  shows "\<exists>k \<in> {key w prev, key w dest}.
    kept (disk_of w) (key w prev) (disk_of (snd (snd (activate_image msg imp prev dest w)))) k"
proof -
  let ?w1 = "snd (fs_rename imp dest w)"
  let ?w2 = "if fs_exists ?w1 prev then snd (fs_rename prev dest ?w1) else ?w1"
  obtain e where e: "fst (fs_rename imp dest w) = Some e"
    using assms(1) by (auto simp: activate_image_def split_beta Let_def split: if_splits)
  have [simp]: "key ?w2 q = key w q" for q by simp
  have "\<exists>k \<in> {key w prev, key w dest}. kept (disk_of w) (key w prev) (disk_of ?w2) k"
  proof (cases "fst (fs_rename prev dest ?w1)")
    case None
    then show ?thesis using rename_moves [OF None] assms(3) rename_fails [OF e] by auto
  next
    case (Some e')
    then show ?thesis using rename_fails [OF Some] rename_fails [OF e] by auto
  qed
  then obtain k where k: "k \<in> {key w prev, key w dest}" "kept (disk_of w) (key w prev) (disk_of ?w2) k" by blast
  have "apart (key ?w2 imp) k" using k(1) assms(2,4) by auto
  from kept_trans [OF k(2) kept_remove_all [OF this]] k(1) e show ?thesis
    by (auto simp: activate_image_def split_beta Let_def)
qed

text \<open>
  What is left of an image at \<open>dest\<close>: an operation that succeeds has put there what was at
  \<open>from\<close>, one that fails has kept what was at \<open>dest\<close>, there or at \<open>prev\<close>.
\<close>

definition image_safe :: "world \<Rightarrow> fkey \<Rightarrow> fkey \<Rightarrow> fkey \<Rightarrow> outcome \<Rightarrow> bool" where
  "image_safe w from prev dest r \<longleftrightarrow>
     (if fst r then kept (disk_of w) from (disk_of (snd (snd r))) dest
      else kept (disk_of w) dest (disk_of (snd (snd r))) dest \<or> kept (disk_of w) dest (disk_of (snd (snd r))) prev)"

lemma image_safe_after:
  assumes "kept (disk_of w) from (disk_of w1) from'" and "kept (disk_of w) dest (disk_of w1) dest"
    and "image_safe w1 from' prev dest r"
  shows "image_safe w from prev dest r"
  using assms kept_trans unfolding image_safe_def by presburger

lemma swap_image_safe:
  assumes "lookup (disk_of w) (key w dest) = Some Dir" and "dest \<noteq> []"
    and a: "apart (key w imp) (key w dest)" "apart (key w prev) (key w dest)" "apart (key w imp) (key w prev)"
  shows "image_safe w (key w imp) (key w prev) (key w dest) (swap_image msg imp prev dest w)"
proof -
  let ?w1 = "snd (fs_rename dest prev w)"
  have ex: "fs_exists w dest" using assms(1,2) by (simp add: fs_exists_def status_dir)
  show ?thesis
  proof (cases "fst (fs_rename dest prev w)")
    case None
    have m: "kept (disk_of w) (key w dest) (disk_of ?w1) (key w prev)"
      using rename_moves [OF None] apart_sym [OF a(2)] by simp
    have i: "kept (disk_of w) (key w imp) (disk_of ?w1) (key w imp)"
      by (rule kept_rename) (use a in \<open>simp_all add: apart_sym\<close>)
    show ?thesis
      using kept_trans [OF i] kept_trans [OF m] activate_ok [of msg imp prev dest ?w1] None ex
        activate_fails [of msg imp prev dest ?w1] a
      by (auto simp: swap_image_def split_beta image_safe_def)
  next
    case (Some e)
    then show ?thesis using kept_remove_all [of ?w1 imp "key w dest"] rename_fails [OF Some] a(1) ex
      by (simp add: swap_image_def split_beta image_safe_def)
  qed
qed

lemma import_image_safe:
  assumes "lookup (disk_of w) (key w dest) = Some Dir" and "dest \<noteq> []"
    and a: "apart (key w imp) (key w dest)" "apart (key w prev) (key w dest)" "apart (key w imp) (key w prev)"
    and b: "apart (key w source) (key w dest)" "apart (key w source) (key w imp)"
  shows "image_safe w (key w source) (key w prev) (key w dest) (import_image msg source imp prev dest w)"
proof -
  let ?st = "stage_system_image_directory msg source imp w"
  let ?w1 = "snd (snd ?st)"
  have d: "kept (disk_of w) (key w dest) (disk_of ?w1) (key w dest)" by (rule stage_keeps [OF b(1) a(1)])
  then have l: "lookup (disk_of ?w1) (key w dest) = Some Dir" using assms(1) by (rule kept_root)
  have f: "kept (disk_of w) (key w dest) (disk_of (snd (fs_remove_all imp ?w1))) (key w dest)"
    using kept_trans [OF d kept_remove_all [of ?w1 imp]] a(1) by simp
  show ?thesis
  proof (cases "fst ?st \<and> system_image_exists_at ?w1 imp")
    case True
    have "image_safe ?w1 (key w imp) (key w prev) (key w dest) (swap_image msg imp prev dest ?w1)"
      using swap_image_safe [of ?w1 dest imp prev msg] l assms(2) a by simp
    with image_safe_after [OF stage_moves [OF _ b(2)] d this] True show ?thesis
      by (simp add: import_image_def split_beta)
  next
    case False
    then show ?thesis using f by (auto simp: import_image_def split_beta image_safe_def)
  qed
qed

lemma stage_frame:
  assumes "lookup (disk_of w) r = Some x" and "\<not> prefix (key w p) r" and "\<not> prefix (key w t) r"
  shows "lookup (disk_of (snd (snd (stage_system_image_directory msg p t w)))) r = Some x"
  using assms renaming.frame copying.frame remove_all.frame
  by (simp add: stage_system_image_directory_def split_beta)

lemma stage_refused:
  "fst (fs_rename p t w) \<notin> {None, Some EXDEV} \<Longrightarrow> \<not> fst (stage_system_image_directory msg p t w)"
  by (simp add: stage_system_image_directory_def split_beta)

lemma rename_no_parent: "lookup (disk_of w) (butlast (key w t)) \<noteq> Some Dir \<Longrightarrow> fst (fs_rename p t w) \<notin> {None, Some EXDEV}"
  by (auto simp: fs_rename_def Let_def rename_error_def ENOENT_def EXDEV_def split: option.splits)

text \<open>An image cannot be swapped with names inside itself.\<close>

lemma import_inside_fails:
  assumes "key w imp = key w dest @ [i]" and "key w prev = key w dest @ [p]" and "dest \<noteq> []"
  shows "\<not> fst (import_image msg source imp prev dest w)"
proof (cases "lookup (disk_of w) (key w dest) = Some Dir \<and> \<not> strict_prefix (key w source) (key w imp)")
  case True
  let ?w1 = "snd (snd (stage_system_image_directory msg source imp w))"
  have "\<not> prefix (key w imp) (key w dest)" by (auto simp: assms(1) dest: prefix_length_le)
  moreover have "\<not> prefix (key w source) (key w dest)"
    using True by (auto simp: assms(1) strict_prefix_def dest: prefix_length_le)
  ultimately have "lookup (disk_of ?w1) (key w dest) = Some Dir" using True by (intro stage_frame) simp_all
  then have "fs_exists ?w1 dest" using assms(3) by (simp add: fs_exists_def status_dir)
  moreover have "fst (fs_rename dest prev ?w1) \<notin> {None, Some EXDEV}"
    by (rule rename_into_itself) (simp add: assms(2) strict_prefix_def)
  ultimately have "\<not> fst (swap_image msg imp prev dest ?w1)" by (simp add: swap_image_def split_beta)
  then show ?thesis by (simp add: import_image_def split_beta)
next
  case False
  then have "fst (fs_rename source imp w) \<notin> {None, Some EXDEV}"
    using rename_into_itself [of w source imp] rename_no_parent [of w imp source] by (auto simp: assms(1))
  then show ?thesis using stage_refused [of source imp w msg] by (simp add: import_image_def split_beta)
qed

section \<open>Making a machine\<close>

lemma tame_ensure_directory: "tame A {} w (snd (snd (ensure_directory msg p w)))"
  using tame_create [of A w p] by (simp add: ensure_directory_def split_beta)

lemma tame_and_then:
  assumes "tame A T w (snd (snd r))" and "\<And>w1. fst r \<Longrightarrow> w1 = snd (snd r) \<Longrightarrow> tame A U w1 (snd (snd (f w1)))"
  shows "tame A (T \<union> U) w (snd (snd (and_then r f)))"
  using tame_trans [OF assms(1), of U] tame_more [OF assms(1), of "T \<union> U"] assms(2)
  by (simp add: snd_and_then)

lemma tame_runtime_directories: "tame A {} w (snd (snd (macmu_ensure_runtime_directories msg options w)))"
  using tame_and_then [OF tame_ensure_directory tame_and_then [OF tame_ensure_directory tame_ensure_directory]]
  by (simp add: macmu_ensure_runtime_directories_def)

lemma tame_write_text: "key w p \<notin> A \<Longrightarrow> tame A {key w p} w (snd (snd (write_text_file p t w)))"
  using tame_write [of w p A "bytes_of t"] by (simp add: write_text_file_def split_beta)

lemma tame_replace_link:
  assumes "key w dest \<in> A"
  shows "tame A {r. prefix (key w dest) r} w (snd (snd (replace_with_symlink msg source dest w)))"
proof -
  let ?w1 = "snd (fs_remove dest w)"
  have "tame A ({r. prefix (key w dest) r} \<union> {key w dest}) w (snd (fs_create_symlink (fs_absolute ?w1 source) dest ?w1))"
    using tame_trans [OF tame_remove [of A w dest] tame_link [of ?w1 dest A]] assms by simp
  then have "tame A {r. prefix (key w dest) r} w (snd (fs_create_symlink (fs_absolute ?w1 source) dest ?w1))"
    by (rule tame_more) auto
  then show ?thesis by (simp add: replace_with_symlink_def split_beta Let_def)
qed

lemma tame_metadata:
  assumes "key w dest \<notin> A"
  shows "tame A {r. prefix (key w dest) r \<or> prefix (key w (dest @ ''.qcow2'')) r} w
    (snd (snd (ensure_metadata_disk msg source dest w)))"
proof -
  let ?w1 = "snd (fs_remove dest w)"
  let ?w2 = "snd (fs_remove (dest @ ''.qcow2'') ?w1)"
  have "tame A (({r. prefix (key w dest) r} \<union> {r. prefix (key w (dest @ ''.qcow2'')) r}) \<union> {key w dest}) w
      (snd (fs_copy_file source dest ?w2))"
    using tame_trans [OF tame_trans [OF tame_remove [of A w dest] tame_remove [of A ?w1 "dest @ ''.qcow2''"]]
        tame_copy_file [of ?w2 dest A]] assms by simp
  then have "tame A {r. prefix (key w dest) r \<or> prefix (key w (dest @ ''.qcow2'')) r} w (snd (fs_copy_file source dest ?w2))"
    by (rule tame_more) auto
  then show ?thesis by (simp add: ensure_metadata_disk_def split_beta Let_def)
qed

lemma tame_sized:
  assumes "key w p \<notin> A"
  shows "tame A {key w p} w (snd (snd (ensure_sized_file msg p n w)))"
proof -
  let ?w1 = "snd (snd (write_stream p [] w))"
  have 1: "tame A {key w p} w ?w1" using assms by (rule tame_write)
  have 2: "tame A {key w p} w (snd (fs_resize_file p n ?w1))"
    using tame_trans [OF 1 tame_resize [of ?w1 p A n]] assms by simp
  show ?thesis using 1 2 tame_resize [OF assms, of n] by (simp add: ensure_sized_file_def split_beta)
qed

lemma key_steps [simp]:
  "key (snd (snd (ensure_directory msg p w))) q = key w q"
  "key (snd (snd (macmu_ensure_runtime_directories msg options w))) q = key w q"
  "key (snd (snd (write_text_file p t w))) q = key w q"
  "key (snd (snd (replace_with_symlink msg p t w))) q = key w q"
  "key (snd (snd (ensure_metadata_disk msg p t w))) q = key w q"
  by (rule ensure_dir.key_run, rule runtime_dirs.key_run)
    (simp_all add: write_text_file_def replace_with_symlink_def ensure_metadata_disk_def split_beta Let_def)

text \<open>What the steps achieve.\<close>

lemma written_text:
  assumes "fst (write_text_file p t w)" and "links_in A (disk_of w)" and "key w p \<notin> A"
  shows "\<exists>b. lookup (disk_of (snd (snd (write_text_file p t w)))) (key w p) = Some (File b)"
  using assms writable_no_link [of A w p]
  by (auto simp: write_text_file_def write_stream_def split_beta Let_def split: option.splits if_splits)

lemma link_target_absolute: "is_absolute (cwd w) \<Longrightarrow> link_target k (fs_absolute w p) = key w p"
  by (cases "cwd w") (auto simp: link_target_def key_def fs_absolute_def is_absolute_def)

definition links_to :: "disk \<Rightarrow> fkey \<Rightarrow> fkey \<Rightarrow> bool" where
  "links_to d k r \<longleftrightarrow> (\<exists>t b. lookup d k = Some (Symlink t) \<and> link_target k t = r \<and> lookup d r = Some (File b))"

lemma linked:
  assumes "fst (replace_with_symlink msg source dest w)" and "links_in A (disk_of w)" and "key w source \<notin> A"
    and "key w dest \<in> A" and "is_absolute (cwd w)"
  shows "links_to (disk_of (snd (snd (replace_with_symlink msg source dest w)))) (key w dest) (key w source)"
proof -
  let ?w1 = "snd (fs_remove dest w)" let ?t = "fs_absolute ?w1 source"
  let ?w2 = "snd (fs_create_symlink ?t dest ?w1)"
  have r: "snd (snd (replace_with_symlink msg source dest w)) = ?w2" "file_exists ?w2 dest"
    "fst (fs_create_symlink ?t dest ?w1) = None"
    using assms(1) by (auto simp: replace_with_symlink_def split_beta Let_def split: if_splits)
  have "links_in A (disk_of ?w2)"
    using tame_links [OF tame_replace_link [OF assms(4), of msg source] assms(2)] by (simp add: r(1))
  then have f: "follow n (disk_of ?w2) (key w source) = Some (key w source)" for n using assms(3) by (rule follow_no_link)
  have l: "lookup (disk_of ?w2) (key w dest) = Some (Symlink ?t)"
    using r(3) by (auto simp: fs_create_symlink_def Let_def lookup_def put_def split: option.splits if_splits)
  have t: "link_target (key w dest) ?t = key w source" using link_target_absolute [of ?w1] assms(5) by simp
  have "\<exists>b. lookup (disk_of ?w2) (key w source) = Some (File b)"
    using r(2) l t f by (auto simp: file_exists_def is_regular_file_def status_def status_at_def kMaxSymlinks_def
        numeral_eq_Suc split: option.splits node.splits if_splits)
  with l t show ?thesis by (simp add: links_to_def r(1))
qed

lemma no_links: "list_all (\<lambda>e. \<forall>t. snd e \<noteq> Symlink t) d \<Longrightarrow> links_in A d"
  by (fastforce simp: links_in_def lookup_def list_all_iff dest: map_of_SomeD split: if_splits)

lemma metadata_file:
  assumes "metadata_disk_exists w p" and "links_in A (disk_of w)" and "key w p \<notin> A"
  shows "\<exists>b. lookup (disk_of w) (key w p) = Some (File b)" and "p \<noteq> []"
  using assms status_no_link [of A w p]
  by (auto simp: metadata_disk_exists_def is_regular_file_def status_def split: if_splits option.splits node.splits)

lemma metadata_stays:
  assumes "metadata_disk_exists w p" and "links_in A (disk_of w)" and "key w p \<notin> A"
    and "tame A T w w'" and "key w p \<notin> T"
  shows "metadata_disk_exists w' p"
proof -
  from metadata_file [OF assms(1-3)] obtain b where b: "lookup (disk_of w) (key w p) = Some (File b)" "p \<noteq> []" by blast
  have k: "key w' p = key w p" and r: "readable w' = readable w"
    using tame_key [OF assms(4)] assms(4) by (auto simp: tame_def)
  have "status w p = Some (File b)" "status w' p = Some (File b)"
    using b status_no_link [OF assms(2,3)] tame_lookup [OF assms(4,2,5) b(1)] status_no_link [OF tame_links [OF assms(4,2)]] k assms(3)
    by auto
  then show ?thesis using assms(1) k r
    by (simp add: metadata_disk_exists_def is_regular_file_def file_bytes_def open_input_def Let_def
        split: if_splits)
qed

lemma file_stays:
  assumes "lookup (disk_of w) (key w p) = Some (File b)" and "links_in A (disk_of w)" and "key w p \<notin> A" and "p \<noteq> []"
    and "tame A T w w'" and "key w p \<notin> T"
  shows "file_exists w' p"
  using tame_lookup [OF assms(5,2,6,1)] status_no_link [OF tame_links [OF assms(5,2)], of p] assms(3,4)
  by (simp add: tame_key [OF assms(5)] file_exists_def is_regular_file_def)

lemma link_stays:
  assumes "links_to (disk_of w) (key w p) r" and "links_in A (disk_of w)" and "r \<notin> A" and "p \<noteq> []"
    and "tame A T w w'" and "key w p \<notin> T" and "r \<notin> T"
  shows "file_exists w' p"
proof -
  obtain t b where l: "lookup (disk_of w) (key w p) = Some (Symlink t)" "link_target (key w p) t = r"
    "lookup (disk_of w) r = Some (File b)" using assms(1) by (auto simp: links_to_def)
  note f = follow_no_link [OF tame_links [OF assms(5,2)] assms(3)]
  show ?thesis
    using tame_lookup [OF assms(5,2,6) l(1)] tame_lookup [OF assms(5,2,7) l(3)] assms(4) l(2) f
    by (simp add: tame_key [OF assms(5)] file_exists_def is_regular_file_def status_def status_at_def
        kMaxSymlinks_def numeral_eq_Suc)
qed

lemma ensured_nonempty: "fst (ensure_directory msg p w) \<Longrightarrow> p \<noteq> []"
  by (auto simp: ensure_directory_def is_directory_def status_def fs_create_directories_def split: if_splits)

lemma path_join_append: "path_join p c @ e = path_join p (c @ e)"
  by (simp add: path_join_def)

lemma and_thenE:
  assumes "and_then r f = (True, e, w')"
  obtains e1 w1 where "r = (True, e1, w1)" and "f w1 = (True, e, w')"
  using assms by (auto simp: and_then_def split: prod.splits if_splits)

lemma created_steps:
  fixes A
  assumes "macmu_create_default_machine msg options w = (True, err, w')"
  obtains w2 e3 w3 e4 w4 e5 w5 e6 w6 e7 w7 where "avdHome options \<noteq> []" "tame A {} w w2"
    "write_text_file (macmu_machine_ini_path options) (root_ini options) w2 = (True, e3, w3)"
    "write_text_file (path_join (macmu_machine_path options) ''config.ini'') (config_ini_for options) w3 = (True, e4, w4)"
    "replace_with_symlink msg (path_join (systemPath options) ''system-qemu.img'')
       (path_join (macmu_machine_path options) ''system-qemu.img'') w4 = (True, e5, w5)"
    "replace_with_symlink msg (path_join (systemPath options) ''vendor-qemu.img'')
       (path_join (macmu_machine_path options) ''vendor-qemu.img'') w5 = (True, e6, w6)"
    "ensure_metadata_disk msg (path_join (systemPath options) ''encryptionkey.img'')
       (path_join (macmu_machine_path options) ''encryptionkey.img'') w6 = (True, e7, w7)"
    "snd (snd (ensure_sized_file msg (path_join (macmu_machine_path options) ''cache.img'') (66 * 1024 * 1024) w7)) = w'"
proof -
  from assms obtain e1 w1 where 1: "macmu_ensure_runtime_directories msg options w = (True, e1, w1)"
    and 2: "\<not> \<not> macmu_system_image_exists w1 options"
    unfolding macmu_create_default_machine_def Let_def by (auto elim!: and_thenE split: if_splits)
  have "fst (macmu_ensure_runtime_directories msg options w)" by (simp add: 1)
  then have home: "avdHome options \<noteq> []"
    by (auto simp: macmu_ensure_runtime_directories_def fst_and_then dest: ensured_nonempty)
  have t: "tame A {} w w1" using tame_runtime_directories [of A w msg options] by (simp add: 1)
  have "tame A {} w w2" if "ensure_directory msg (macmu_machine_path options) w1 = (True, e2, w2)" for e2 w2
    using tame_trans [OF t, of "{}" w2] tame_ensure_directory [of A w1 msg "macmu_machine_path options"] that by simp
  with home assms 1 2 show thesis
    unfolding macmu_create_default_machine_def Let_def
    by (simp add: and_then_def [of "(True, e1, w1)"]) (elim and_thenE, rule that, auto)
qed

lemma text_step:
  assumes "write_text_file p t w = (True, e, w')" and "key w p \<notin> A"
  shows "tame A {key w p} w w'"
    and "links_in A (disk_of w) \<Longrightarrow> \<exists>b. lookup (disk_of w') (key w p) = Some (File b)"
  using tame_write_text [OF assms(2), of t] written_text [of p t w A] assms by simp_all

lemma link_step:
  assumes "replace_with_symlink msg source dest w = (True, e, w')" and "key w dest \<in> A"
  shows "tame A {r. prefix (key w dest) r} w w'"
    and "links_in A (disk_of w) \<Longrightarrow> key w source \<notin> A \<Longrightarrow> is_absolute (cwd w) \<Longrightarrow>
      links_to (disk_of w') (key w dest) (key w source)"
  using tame_replace_link [OF assms(2), of msg source] linked [of msg source dest w A] assms by simp_all

lemma metadata_step:
  assumes "ensure_metadata_disk msg source dest w = (True, e, w')" and "key w dest \<notin> A"
  shows "tame A {r. prefix (key w dest) r \<or> prefix (key w (dest @ ''.qcow2'')) r} w w'"
    and "metadata_disk_exists w' dest"
  using tame_metadata [OF assms(2), of msg source] assms
  by (auto simp: ensure_metadata_disk_def Let_def split: if_splits prod.splits)

text \<open>The steps of a creation, each with the entries it touches and what it leaves.\<close>

lemma created_frames:
  fixes options w
  defines "M \<equiv> macmu_machine_path options"
  defines "A \<equiv> {key w (path_join M ''system-qemu.img''), key w (path_join M ''vendor-qemu.img'')}"
  assumes "macmu_create_default_machine msg options w = (True, err, w')" and "links_in A (disk_of w)"
    and "key w (macmu_machine_ini_path options) \<notin> A"
    and "key w (path_join (systemPath options) ''system-qemu.img'') \<notin> A"
    and "key w (path_join (systemPath options) ''vendor-qemu.img'') \<notin> A" and "is_absolute (cwd w)"
  obtains w3 w4 w5 w6 w7 b c where
    "lookup (disk_of w3) (key w (macmu_machine_ini_path options)) = Some (File b)"
    "lookup (disk_of w4) (key w (path_join M ''config.ini'')) = Some (File c)"
    "links_to (disk_of w5) (key w (path_join M ''system-qemu.img'')) (key w (path_join (systemPath options) ''system-qemu.img''))"
    "links_to (disk_of w6) (key w (path_join M ''vendor-qemu.img'')) (key w (path_join (systemPath options) ''vendor-qemu.img''))"
    "metadata_disk_exists w7 (path_join M ''encryptionkey.img'')"
    "tame A UNIV w w3" "tame A {key w (path_join M ''config.ini'')} w3 w4"
    "tame A {r. prefix (key w (path_join M ''system-qemu.img'')) r} w4 w5"
    "tame A {r. prefix (key w (path_join M ''vendor-qemu.img'')) r} w5 w6"
    "tame A {r. prefix (key w (path_join M ''encryptionkey.img'')) r \<or>
       prefix (key w (path_join M ''encryptionkey.img.qcow2'')) r} w6 w7"
    "tame A {key w (path_join M ''cache.img'')} w7 w'"
proof -
  have "M \<noteq> []" by (simp add: M_def macmu_machine_path_def)
  note A = key_join [OF _ this, of _ w] component_def A_def
  obtain w2 e3 w3 e4 w4 e5 w5 e6 w6 e7 w7 where "avdHome options \<noteq> []" and t2: "tame A {} w w2"
    and s: "write_text_file (macmu_machine_ini_path options) (root_ini options) w2 = (True, e3, w3)"
      "write_text_file (path_join M ''config.ini'') (config_ini_for options) w3 = (True, e4, w4)"
      "replace_with_symlink msg (path_join (systemPath options) ''system-qemu.img'') (path_join M ''system-qemu.img'') w4 = (True, e5, w5)"
      "replace_with_symlink msg (path_join (systemPath options) ''vendor-qemu.img'') (path_join M ''vendor-qemu.img'') w5 = (True, e6, w6)"
      "ensure_metadata_disk msg (path_join (systemPath options) ''encryptionkey.img'') (path_join M ''encryptionkey.img'') w6 = (True, e7, w7)"
      "snd (snd (ensure_sized_file msg (path_join M ''cache.img'') (66 * 1024 * 1024) w7)) = w'"
    by (rule created_steps [OF assms(3), of A, folded M_def])
  have k [simp]: "key w2 p = key w p" for p by (rule tame_key [OF t2])
  have t3: "tame A {key w (macmu_machine_ini_path options)} w2 w3" using text_step(1) [OF s(1)] assms(5) by simp
  have k3 [simp]: "key w3 p = key w p" for p using tame_key [OF t3] by simp
  have t4: "tame A {key w (path_join M ''config.ini'')} w3 w4" using text_step(1) [OF s(2), of A] by (simp add: A)
  have k4 [simp]: "key w4 p = key w p" for p using tame_key [OF t4] by simp
  have t5: "tame A {r. prefix (key w (path_join M ''system-qemu.img'')) r} w4 w5" using link_step(1) [OF s(3), of A] by (simp add: A)
  have k5 [simp]: "key w5 p = key w p" for p using tame_key [OF t5] by simp
  have t6: "tame A {r. prefix (key w (path_join M ''vendor-qemu.img'')) r} w5 w6" using link_step(1) [OF s(4), of A] by (simp add: A)
  have k6 [simp]: "key w6 p = key w p" for p using tame_key [OF t6] by simp
  have t7: "tame A {r. prefix (key w (path_join M ''encryptionkey.img'')) r \<or>
      prefix (key w (path_join M ''encryptionkey.img.qcow2'')) r} w6 w7"
    using metadata_step(1) [OF s(5), of A] by (simp add: A path_join_append)
  have k7 [simp]: "key w7 p = key w p" for p using tame_key [OF t7] by simp
  have t8: "tame A {key w (path_join M ''cache.img'')} w7 w'"
    using tame_sized [of w7 "path_join M ''cache.img''" A msg "66 * 1024 * 1024"] unfolding s(6) by (simp add: A)
  have l: "links_in A (disk_of w2)" "links_in A (disk_of w3)" "links_in A (disk_of w4)" "links_in A (disk_of w5)"
    using tame_links t2 t3 t4 t5 assms(4) by blast+
  have c: "is_absolute (cwd w4)" "is_absolute (cwd w5)" using t2 t3 t4 t5 assms(8) by (simp_all add: tame_def)
  obtain b where b: "lookup (disk_of w3) (key w (macmu_machine_ini_path options)) = Some (File b)"
    using text_step(2) [OF s(1) _ l(1)] assms(5) by auto
  obtain d where d: "lookup (disk_of w4) (key w (path_join M ''config.ini'')) = Some (File d)"
    using text_step(2) [OF s(2) _ l(2)] by (auto simp: A)
  have "tame A UNIV w w3" using tame_more [OF tame_trans [OF t2 t3]] by simp
  with b d show thesis using link_step(2) [OF s(3) _ l(3) _ c(1)] link_step(2) [OF s(4) _ l(4) _ c(2)] assms(6,7)
      metadata_step(2) [OF s(5), of A] t4 t5 t6 t7 t8
    by (intro that) (simp_all add: A)
qed

lemma metadata_disk_exists_iff:
  assumes "is_regular_file w path" and "readable w (key w path)" and "length (file_bytes w path) < 2 ^ 63"
  shows "metadata_disk_exists w path \<longleftrightarrow> metadata_image (file_bytes w path)"
proof -
  have "(of_nat (length (file_bytes w path)) :: u64) < 2 * 1024 * 1024 \<longleftrightarrow> length (file_bytes w path) < 2 * 1024 * 1024"
    using assms(3) by (simp add: word_less_nat_alt unat_of_nat_u64)
  then show ?thesis
    using metadata_bytes_ok_exact [of "file_bytes w path"] assms
    by (auto simp: metadata_disk_exists_def Let_def open_input_def metadata_image_def [of "file_bytes w path"])
qed

section \<open>An example\<close>

text \<open>A disk with a system image and another one to be imported, in a world that refuses nothing.\<close>

definition zeros :: "nat \<Rightarrow> bytes" where "zeros n = replicate n 0"

lemma zeros_simps: "length (zeros n) = n" "take k (zeros n) = zeros (min k n)" "drop k (zeros n) = zeros (n - k)" "zeros 0 = []"
  by (simp_all add: zeros_def)

definition sample_metadata :: bytes where
  "sample_metadata =
     zeros 512 @ bytes_of ''EFI PART'' @ zeros 536 @ [40, 0, 0, 0, 0, 0, 0, 0] @ [160, 15, 0, 0, 0, 0, 0, 0] @ zeros 8 @
     utf16le (bytes_of ''metadata'') @ zeros 20462 @
     [0x53, 0xef] @ zeros 62 @ (bytes_of ''metadata'' @ [0]) @ zeros 2075519"

lemma slice_skip: "length xs \<le> m \<Longrightarrow> slice (xs @ ys) m n = slice ys (m - length xs) n"
  by (simp add: slice_def)

lemma slice_here: "length xs = n \<Longrightarrow> slice (xs @ ys) 0 n = xs"
  by (simp add: slice_def)

lemma sample_slices:
  "slice sample_metadata 512 8 = bytes_of ''EFI PART''"
  "slice sample_metadata 1056 8 = [40, 0, 0, 0, 0, 0, 0, 0]"
  "slice sample_metadata 1064 8 = [160, 15, 0, 0, 0, 0, 0, 0]"
  "slice sample_metadata 1080 18 = utf16le (bytes_of ''metadata'')"
  "slice sample_metadata 21560 2 = [0x53, 0xef]"
  "slice sample_metadata 21624 9 = bytes_of ''metadata'' @ [0]"
  "length sample_metadata = 2097152"
  unfolding sample_metadata_def
  by (simp_all add: slice_skip slice_here zeros_simps length_utf16le del: append_Cons append_assoc utf16le.simps)

lemma sample_metadata_image: "metadata_image sample_metadata"
proof -
  have "unat (le_word [40, 0, 0, 0, 0, 0, 0, 0] :: u64) = 40" "unat (le_word [160, 15, 0, 0, 0, 0, 0, 0] :: u64) = 4000"
    by code_simp+
  then show ?thesis by (simp add: metadata_image_def sample_slices Let_def)
qed

definition image_at :: "fkey \<Rightarrow> u8 \<Rightarrow> disk" where
  "image_at k x = (k, Dir) # (k @ [''encryptionkey.img''], File sample_metadata) # map (\<lambda>f. (k @ [f], File [x])) kRequiredFiles"

definition sample_world :: world where
  "sample_world = \<lparr>disk_of = [([''data''], Dir), ([''data'', ''avd''], Dir), ([''data'', ''images''], Dir)] @
       image_at [''data'', ''images'', ''sys''] 1 @ image_at [''src''] 2,
     cwd = ''/'', readable = (\<lambda>_. True), passed_on = (\<lambda>_. 0),
     answers = (\<lambda>_. \<lparr>failure = None, keeps = (\<lambda>_. False), leaves = [], accepts = 4096\<rparr>), asked = 0\<rparr>"

definition sample_machine :: ShellOptions where
  "sample_machine = (environment_options sample_host)\<lparr>appDataDir := ''/data'', avdHome := ''/data/avd'', avdName := ''a'',
     systemPath := ''/data/images/sys''\<rparr>"

lemma metadata_here:
  "is_regular_file w p \<Longrightarrow> file_bytes w p = sample_metadata \<Longrightarrow> readable w (key w p) \<Longrightarrow> metadata_disk_exists w p"
  by (simp add: metadata_disk_exists_iff sample_slices(7) sample_metadata_image)

lemma sample_fields [simp]: "appDataDir sample_machine = ''/data''" "avdHome sample_machine = ''/data/avd''"
  "avdName sample_machine = ''a''" "systemPath sample_machine = ''/data/images/sys''"
  by (simp_all add: sample_machine_def)

lemmas sample_simps = is_directory_def is_regular_file_def file_bytes_def status_def status_at_def
    key_def fs_absolute_def is_absolute_def path_join_def follow_self lookup_def sample_world_def image_at_def

lemma sample_dirs: "macmu_ensure_runtime_directories msg sample_machine sample_world = (True, None, sample_world)"
  by (simp add: macmu_ensure_runtime_directories_def and_then_def ensure_directory_def sample_simps)

lemma sample_image: "system_image_exists_at sample_world ''/data/images/sys''"
  by (simp add: system_image_exists_at_def kRequiredFiles_def file_exists_def metadata_here sample_simps)

lemma sample_lookup:
  "lookup (disk_of sample_world) [] = Some Dir"
  "lookup (disk_of sample_world) [''data''] = Some Dir"
  "lookup (disk_of sample_world) [''data'', ''avd''] = Some Dir"
  "lookup (disk_of sample_world) [''data'', ''avd'', ''a.avd''] = None"
  "lookup (disk_of sample_world) [''data'', ''avd'', ''a.ini''] = None"
  "lookup (disk_of sample_world) [''data'', ''avd'', ''a.avd'', f] = None"
  "lookup (disk_of sample_world) [''data'', ''images'', ''sys'', ''system-qemu.img''] = Some (File [1])"
  "lookup (disk_of sample_world) [''data'', ''images'', ''sys'', ''vendor-qemu.img''] = Some (File [1])"
  "lookup (disk_of sample_world) [''data'', ''images'', ''sys'', ''encryptionkey.img''] = Some (File sample_metadata)"
  by (simp_all add: lookup_def sample_world_def image_at_def kRequiredFiles_def)

lemma sample_keys:
  assumes "cwd w = ''/''"
  shows "key w ''/data/avd/a.avd'' = [''data'', ''avd'', ''a.avd'']" "key w ''/data/avd/a.ini'' = [''data'', ''avd'', ''a.ini'']"
    "key w ''/data/avd/a.avd/config.ini'' = [''data'', ''avd'', ''a.avd'', ''config.ini'']"
    "key w ''/data/avd/a.avd/cache.img'' = [''data'', ''avd'', ''a.avd'', ''cache.img'']"
    "key w ''/data/avd/a.avd/system-qemu.img'' = [''data'', ''avd'', ''a.avd'', ''system-qemu.img'']"
    "key w ''/data/avd/a.avd/vendor-qemu.img'' = [''data'', ''avd'', ''a.avd'', ''vendor-qemu.img'']"
    "key w ''/data/avd/a.avd/encryptionkey.img'' = [''data'', ''avd'', ''a.avd'', ''encryptionkey.img'']"
    "key w ''/data/avd/a.avd/encryptionkey.img.qcow2'' = [''data'', ''avd'', ''a.avd'', ''encryptionkey.img.qcow2'']"
    "key w ''/data/images/sys'' = [''data'', ''images'', ''sys'']"
    "key w ''/data/images/sys/system-qemu.img'' = [''data'', ''images'', ''sys'', ''system-qemu.img'']"
    "key w ''/data/images/sys/vendor-qemu.img'' = [''data'', ''images'', ''sys'', ''vendor-qemu.img'']"
    "key w ''/data/images/sys/encryptionkey.img'' = [''data'', ''images'', ''sys'', ''encryptionkey.img'']"
  by (simp_all add: key_def fs_absolute_def is_absolute_def)

definition calm :: "world \<Rightarrow> bool" where
  "calm w \<longleftrightarrow> cwd w = ''/'' \<and> (\<forall>k. readable w k) \<and> (\<forall>n. passed_on w n = 0) \<and> (\<forall>n. failure (answers w n) = None)"

lemma calm_sample: "calm sample_world" "calm (with_disk d w) = calm w"
  by (simp_all add: calm_def sample_world_def with_disk_def)

lemma sample_paths:
  "macmu_machine_path sample_machine = ''/data/avd/a.avd''" "macmu_machine_ini_path sample_machine = ''/data/avd/a.ini''"
  "path_join ''/data/avd/a.avd'' f = ''/data/avd/a.avd/'' @ f" "path_join ''/data/images/sys'' f = ''/data/images/sys/'' @ f"
  by (simp_all add: macmu_machine_path_def macmu_machine_ini_path_def path_join_def)

lemma calm_answer: "calm w \<Longrightarrow> failure (next_answer w) = None" "calm w \<Longrightarrow> passed_on w n = 0" "calm w \<Longrightarrow> readable w k"
  by (simp_all add: calm_def next_answer_def)

lemma key_with_disk [simp]: "key (with_disk d w) p = key w p"
  by (rule key_same_cwd) simp

lemma fresh_writable:
  "lookup (disk_of w) (key w p) = None \<Longrightarrow> lookup (disk_of w) (butlast (key w p)) = Some Dir \<Longrightarrow> p \<noteq> [] \<Longrightarrow>
   writable_key w p = Some (key w p)"
  by (simp add: writable_key_def follow_self)

lemma fresh_not_Nil: "lookup d k = None \<Longrightarrow> k \<noteq> []"
  by (auto simp: lookup_def)

lemma calm_write_text:
  assumes "calm w" and "lookup (disk_of w) (key w p) = None" and "lookup (disk_of w) (butlast (key w p)) = Some Dir" and "p \<noteq> []"
  shows "write_text_file p t w =
    (True, None, with_disk (put (key w p) (File (take (accepts (next_answer w)) (bytes_of t))) (disk_of w)) w)"
  using assms by (simp add: write_text_file_def write_stream_def fresh_writable calm_answer Let_def)

lemma calm_link:
  assumes "calm w" and "lookup (disk_of w) (key w p) = None" and "lookup (disk_of w) (butlast (key w p)) = Some Dir" and "p \<noteq> []"
    and "is_absolute src" and "lookup (disk_of w) (key w src) = Some (File b)"
  shows "replace_with_symlink msg src p w = (True, None, with_disk (put (key w p) (Symlink src) (disk_of w)) w)"
proof -
  let ?w = "with_disk (put (key w p) (Symlink src) (disk_of w)) w"
  have "key w src \<noteq> key w p" using assms(2,6) by auto
  then have l: "lookup (disk_of ?w) (key w src) = Some (File b)" "lookup (disk_of ?w) (key w p) = Some (Symlink src)"
    using assms(6) fresh_not_Nil [OF assms(2)] by simp_all
  have t: "link_target (key w p) src = key w src" using assms(5) by (simp add: link_target_def key_def fs_absolute_def)
  have "file_exists ?w p"
    using l assms(4) t by (simp add: file_exists_def is_regular_file_def status_def status_at_def kMaxSymlinks_def numeral_eq_Suc
        del: lookup_put with_disk_sel)
  moreover have "fs_remove p w = (None, w)" using assms(2) by (simp add: fs_remove_def Let_def)
  ultimately show ?thesis using assms
    by (simp add: replace_with_symlink_def fs_create_symlink_def fs_absolute_def calm_answer Let_def)
qed

lemma calm_metadata:
  assumes "calm w" and "lookup (disk_of w) (key w p) = None" and "lookup (disk_of w) (butlast (key w p)) = Some Dir" and "p \<noteq> []"
    and "lookup (disk_of w) (key w src) = Some (File sample_metadata)" and "src \<noteq> []"
    and "lookup (disk_of w) (key w (p @ ''.qcow2'')) = None"
  shows "ensure_metadata_disk msg src p w = (True, None, with_disk (put (key w p) (File sample_metadata) (disk_of w)) w)"
proof -
  let ?w = "with_disk (put (key w p) (File sample_metadata) (disk_of w)) w"
  have s: "status w p = None" "status w src = Some (File sample_metadata)"
    using assms by (simp_all add: status_def status_at_def follow_self)
  have "status ?w p = Some (File sample_metadata)"
    using assms(4) fresh_not_Nil [OF assms(2)] by (simp add: status_def status_at_def follow_self)
  then have "metadata_disk_exists ?w p"
    using assms(1) by (intro metadata_here) (simp_all add: is_regular_file_def file_bytes_def calm_answer)
  moreover have "fs_remove p w = (None, w)" "fs_remove (p @ ''.qcow2'') w = (None, w)"
    using assms by (simp_all add: fs_remove_def Let_def)
  moreover have "key w src \<noteq> key w p" using assms(2,5) by auto
  ultimately show ?thesis using s assms
    by (simp add: ensure_metadata_disk_def fs_copy_file_def metadata_disk_exists_def [of w] is_regular_file_def file_bytes_def
        fresh_writable follow_self calm_answer Let_def)
qed

lemma calm_sized:
  assumes "calm w" and "lookup (disk_of w) (key w p) = None" and "lookup (disk_of w) (butlast (key w p)) = Some Dir" and "p \<noteq> []"
  shows "fst (ensure_sized_file msg p n w)"
proof -
  have "status w p = None" using assms by (simp add: status_def status_at_def follow_self)
  then show ?thesis using assms fresh_not_Nil [OF assms(2)]
    by (simp add: ensure_sized_file_def is_regular_file_def fs_exists_def write_stream_def fresh_writable calm_answer Let_def
        fs_resize_file_def calm_sample status_def status_at_def follow_self file_bytes_def split_beta)
qed

lemma calm_directory:
  assumes "calm w" and "lookup (disk_of w) (key w p) = None" and "\<not> blocked (disk_of w) (key w p)" and "p \<noteq> []"
  shows "ensure_directory msg p w = (True, None, with_disk (make_dirs (key w p) (length (key w p)) (disk_of w)) w)"
  using assms by (simp add: ensure_directory_def is_directory_def status_def status_at_def follow_self fs_create_directories_def calm_answer Let_def)

lemma sample_created: "fst (macmu_create_default_machine msg sample_machine sample_world)"
proof -
  have c: "calm sample_world" "cwd sample_world = ''/''" using calm_sample by (simp_all add: calm_def)
  have d: "make_dirs [''data'', ''avd'', ''a.avd''] 3 (disk_of sample_world) = put [''data'', ''avd'', ''a.avd''] Dir (disk_of sample_world)"
    by (simp add: make_dirs_def sample_lookup put_def upt_rec numeral_3_eq_3)
  have b: "\<not> blocked (disk_of sample_world) [''data'', ''avd'', ''a.avd'']"
    by (simp add: blocked_def sample_lookup upt_rec)
  show ?thesis
    by (simp add: macmu_create_default_machine_def Let_def fst_and_then snd_and_then sample_dirs macmu_system_image_exists_def
        sample_image sample_paths calm_directory calm_write_text calm_link calm_metadata calm_sized calm_sample c sample_keys
        sample_lookup d b is_absolute_def numeral_3_eq_3 [symmetric])
qed

section \<open>Properties\<close>

text \<open>
  (C3) Replacing the system image never loses it. Let the destination be a directory, its path
  end in a proper name, and the source lie apart from it and from the two temporary names next to it.
  Whatever the kernel refuses on the way: when the replacement reports success, everything that was
  in the source is at the destination; when it reports failure, everything that was at the
  destination is still there, or is at the name for the previous image.
\<close>

theorem replace_keeps_an_image:
  assumes "systemPath options = base @ ''/'' @ name" and "component name"
    and "lookup (disk_of w) (dir_key w base @ [name]) = Some Dir"
    and "\<forall>n \<in> {name, name @ ''.importing'', name @ ''.previous''}. apart (key w source) (dir_key w base @ [n])"
    and "macmu_replace_system_image_from_directory msg options source w = (ok, err, w')"
  shows "if ok then kept (disk_of w) (key w source) (disk_of w') (dir_key w base @ [name])
    else kept (disk_of w) (dir_key w base @ [name]) (disk_of w') (dir_key w base @ [name]) \<or>
         kept (disk_of w) (dir_key w base @ [name]) (disk_of w') (dir_key w base @ [name @ ''.previous''])"
proof -
  let ?dest = "systemPath options" and ?D = "dir_key w base @ [name]"
  let ?w1 = "snd (snd (macmu_ensure_runtime_directories msg options w))"
  let ?w3 = "snd (fs_remove_all (?dest @ ''.previous'') (snd (fs_remove_all (?dest @ ''.importing'') ?w1)))"
  let ?w4 = "snd (snd (fs_create_directories (parent_path ?dest) ?w3))"
  have k: "key w ?dest = ?D" "key w (?dest @ ''.importing'') = dir_key w base @ [name @ ''.importing'']"
    "key w (?dest @ ''.previous'') = dir_key w base @ [name @ ''.previous'']"
    using key_slash [OF assms(2), of w base] key_slash [OF component_append [OF assms(2)], of "''.importing''" w base]
      key_slash [OF component_append [OF assms(2)], of "''.previous''" w base] assms(1) by simp_all
  have nn: "?dest \<noteq> []" using assms(1) by simp
  note [simp] = runtime_dirs.key_run
  have w1: "kept (disk_of w) r (disk_of ?w1) r" for r by (rule runtime_dirs.kept_run) simp
  have w4: "kept (disk_of w) r (disk_of ?w4) r"
    if "apart (key w (?dest @ ''.importing'')) r" "apart (key w (?dest @ ''.previous'')) r" for r
    by (rule kept_trans [OF kept_trans [OF kept_trans [OF w1 kept_remove_all] kept_remove_all] kept_create])
      (use that in simp_all)
  have a: "apart (key w (?dest @ ''.importing'')) ?D" "apart (key w (?dest @ ''.previous'')) ?D"
    "apart (key w (?dest @ ''.importing'')) (key w (?dest @ ''.previous''))"
    by (simp_all add: k apart_siblings)
  have s: "apart (key w source) ?D" "apart (key w source) (key w (?dest @ ''.importing''))"
    "apart (key w source) (key w (?dest @ ''.previous''))"
    using assms(4) by (simp_all add: k)
  have D4: "kept (disk_of w) ?D (disk_of ?w4) ?D" and S4: "kept (disk_of w) (key w source) (disk_of ?w4) (key w source)"
    using w4 a s by (simp_all add: apart_sym)
  have "image_safe ?w4 (key w source) (key w (?dest @ ''.previous'')) ?D
      (import_image msg source (?dest @ ''.importing'') (?dest @ ''.previous'') ?dest ?w4)"
    using import_image_safe [of ?w4 ?dest] kept_root [OF D4 assms(3)] a s nn by (simp add: k(1))
  from image_safe_after [OF S4 D4 this]
  have "image_safe w (key w source) (key w (?dest @ ''.previous'')) ?D
      (macmu_replace_system_image_from_directory msg options source w)"
    using w1 D4 by (auto simp: macmu_replace_system_image_from_directory_def Let_def split_beta and_then_def image_safe_def)
  then show ?thesis unfolding assms(5) image_safe_def k fst_conv snd_conv .
qed

theorem replace_keeps_an_image_witness:
  "case macmu_replace_system_image_from_directory (\<lambda>_. []) sample_machine ''/src'' sample_world of (ok, err, w') \<Rightarrow>
     if ok then lookup (disk_of w') [''data'', ''images'', ''sys'', ''kernel-ranchu''] = Some (File [2])
     else lookup (disk_of w') [''data'', ''images'', ''sys'', ''kernel-ranchu''] = Some (File [1]) \<or>
          lookup (disk_of w') [''data'', ''images'', ''sys.previous'', ''kernel-ranchu''] = Some (File [1])"
proof -
  obtain ok err w' where r: "macmu_replace_system_image_from_directory (\<lambda>_. []) sample_machine ''/src'' sample_world = (ok, err, w')"
    by (rule prod_cases3)
  have k: "dir_key sample_world ''/data/images'' = [''data'', ''images'']" "key sample_world ''/src'' = [''src'']"
    by (simp_all add: dir_key_def key_def fs_absolute_def is_absolute_def)
  have l: "lookup (disk_of sample_world) [''data'', ''images'', ''sys''] = Some Dir"
    "lookup (disk_of sample_world) [''data'', ''images'', ''sys'', ''kernel-ranchu''] = Some (File [1])"
    "lookup (disk_of sample_world) [''src'', ''kernel-ranchu''] = Some (File [2])"
    by (simp_all add: lookup_def sample_world_def image_at_def kRequiredFiles_def)
  from replace_keeps_an_image [OF _ _ _ _ r, of "''/data/images''" "''sys''"] l show ?thesis
    unfolding r prod.case by (simp add: k component_def apart_def kept_def split: if_splits)
      (metis append_Cons append_Nil)
qed

text \<open>
  (C35) With a system path that ends in a slash, which \<open>config_ini_for\<close> provides for, no system
  image can ever be installed: the temporary names are then inside the destination, and a directory
  cannot be moved into itself.
\<close>

theorem trailing_slash_never_replaces:
  assumes "systemPath options = p @ ''/''"
  shows "\<not> fst (macmu_replace_system_image_from_directory msg options source w)"
proof -
  have k: "key w' (p @ ''/'') = dir_key w' p" for w' using dir_key_trailing [of w' p] by (simp add: dir_key_def)
  have "key w' ((p @ ''/'') @ ''.importing'') = key w' (p @ ''/'') @ [''.importing'']"
    "key w' ((p @ ''/'') @ ''.previous'') = key w' (p @ ''/'') @ [''.previous'']" for w'
    using key_slash [of "''.importing''" w' p] key_slash [of "''.previous''" w' p] unfolding k
    by (simp_all add: component_def)
  then have "\<not> fst (import_image msg source ((p @ ''/'') @ ''.importing'') ((p @ ''/'') @ ''.previous'') (p @ ''/'') w')" for w'
    by (rule import_inside_fails) simp
  then show ?thesis unfolding macmu_replace_system_image_from_directory_def assms
    by (simp add: fst_and_then Let_def split_beta)
qed

theorem trailing_slash_never_replaces_witness:
  "\<not> fst (macmu_replace_system_image_from_directory (\<lambda>_. []) (sample_machine\<lparr>systemPath := ''/data/images/sys/''\<rparr>) ''/src'' sample_world)"
  by (rule trailing_slash_never_replaces [of _ "''/data/images/sys''"]) simp

text \<open>
  (C20) The check of the metadata disk is exact: for a file that can be read it accepts the content
  if and only if this has a partition table whose first partition is called metadata, lies inside
  the file and holds an ext4 file system of that name. None of the 64-bit sums of the code wraps,
  whatever sector numbers the file contains.
\<close>

theorem metadata_check_exact:
  assumes "is_regular_file w path" and "readable w (key w path)" and "length (file_bytes w path) < 2 ^ 63"
  shows "metadata_disk_exists w path \<longleftrightarrow> metadata_image (file_bytes w path)"
  by (rule metadata_disk_exists_iff [OF assms])

theorem metadata_check_exact_witness: "metadata_disk_exists sample_world ''/src/encryptionkey.img''"
proof -
  have "status sample_world ''/src/encryptionkey.img'' = Some (File sample_metadata)"
    by (simp add: sample_simps kRequiredFiles_def)
  then show ?thesis using metadata_check_exact [of sample_world "''/src/encryptionkey.img''"]
    by (simp add: is_regular_file_def file_bytes_def sample_slices(7) sample_metadata_image calm_answer calm_sample)
qed

text \<open>
  (C19) A machine that was created exists: when \<open>macmu_create_default_machine\<close> succeeds, in spite
  of whatever the kernel refused, \<open>macmu_machine_exists\<close> finds the machine: no later step of the
  creation undoes an earlier one. The system image is not inside the machine's directory, and the
  only links on the disk are those that an earlier creation has made in it.
\<close>

theorem created_machine_exists:
  assumes "macmu_create_default_machine msg options w = (True, err, w')"
    and "CHR ''/'' \<notin> set (avdName options)" and "systemPath options \<noteq> []"
    and "\<not> prefix (key w (macmu_machine_path options)) (key w (systemPath options))" and "is_absolute (cwd w)"
    and "links_in {key w (path_join (macmu_machine_path options) ''system-qemu.img''),
      key w (path_join (macmu_machine_path options) ''vendor-qemu.img'')} (disk_of w)"
  shows "macmu_machine_exists w' options"
proof -
  let ?M = "macmu_machine_path options" and ?S = "systemPath options" and ?I = "macmu_machine_ini_path options"
  let ?A = "{key w (path_join ?M ''system-qemu.img''), key w (path_join ?M ''vendor-qemu.img'')}"
  let ?enc = "{r. prefix (key w (path_join ?M ''encryptionkey.img'')) r \<or> prefix (key w (path_join ?M ''encryptionkey.img.qcow2'')) r}"
  have nn: "?M \<noteq> []" "?I \<noteq> []" by (simp_all add: macmu_machine_path_def macmu_machine_ini_path_def)
  have "fst (macmu_ensure_runtime_directories msg options w)"
    using assms(1) by (auto simp: macmu_create_default_machine_def Let_def elim: and_thenE)
  then have home: "avdHome options \<noteq> []"
    by (auto simp: macmu_ensure_runtime_directories_def fst_and_then dest: ensured_nonempty)
  obtain H where I: "key w ?I = H @ [avdName options @ ''.ini'']" and M: "key w ?M = H @ [avdName options @ ''.avd'']"
    using key_join [OF _ home, of "avdName options @ ''.ini''" w] key_join [OF _ home, of "avdName options @ ''.avd''" w] assms(2)
    by (auto simp: macmu_machine_ini_path_def macmu_machine_path_def component_def)
  have ne: "key w ?S \<noteq> H @ [avdName options @ ''.avd'']" using assms(4) by (auto simp: M)
  have ap: "\<not> prefix (H @ [avdName options @ ''.avd'', x]) (key w ?S @ [y])" for x y
    using assms(4) append_prefixD [of "key w ?M" "[x]"] by (auto simp: M)
  have last: "avdName options @ ''.ini'' \<noteq> c @ ''.img''" for c by (auto dest: arg_cong [where f = last])
  note keys = I M key_join [OF _ nn(1), of _ w] key_join [OF _ assms(3), of _ w] component_def
  obtain w3 w4 w5 w6 w7 b c where
    f: "lookup (disk_of w3) (key w ?I) = Some (File b)"
      "lookup (disk_of w4) (key w (path_join ?M ''config.ini'')) = Some (File c)"
      "links_to (disk_of w5) (key w (path_join ?M ''system-qemu.img'')) (key w (path_join ?S ''system-qemu.img''))"
      "links_to (disk_of w6) (key w (path_join ?M ''vendor-qemu.img'')) (key w (path_join ?S ''vendor-qemu.img''))"
      "metadata_disk_exists w7 (path_join ?M ''encryptionkey.img'')"
    and t: "tame ?A UNIV w w3" "tame ?A {key w (path_join ?M ''config.ini'')} w3 w4"
      "tame ?A {r. prefix (key w (path_join ?M ''system-qemu.img'')) r} w4 w5"
      "tame ?A {r. prefix (key w (path_join ?M ''vendor-qemu.img'')) r} w5 w6"
      "tame ?A ?enc w6 w7" "tame ?A {key w (path_join ?M ''cache.img'')} w7 w'"
    by (rule created_frames [OF assms(1,6) _ _ _ assms(5)]) (use ne in \<open>simp_all add: keys\<close>)
  have k: "key w3 p = key w p" "key w4 p = key w p" "key w5 p = key w p" "key w6 p = key w p" "key w7 p = key w p" for p
    using t by (simp_all add: tame_key)
  have l: "links_in ?A (disk_of w3)" "links_in ?A (disk_of w4)" "links_in ?A (disk_of w5)" "links_in ?A (disk_of w6)"
    "links_in ?A (disk_of w7)" using tame_links t assms(6) by blast+
  note u6 = tame_trans [OF t(5,6)]
  note u5 = tame_trans [OF t(4) u6]
  note u4 = tame_trans [OF t(3) u5]
  note u3 = tame_trans [OF t(2) u4]
  have "file_exists w' ?I" using file_stays [OF _ l(1) _ nn(2) u3] f(1) by (simp add: k keys last)
  moreover have "file_exists w' (path_join ?M ''config.ini'')"
    using file_stays [OF _ l(2) _ _ u4] f(2) by (simp add: k keys last)
  moreover have "file_exists w' (path_join ?M ''system-qemu.img'')"
    using link_stays [OF _ l(3) _ _ u5] f(3) ap ne by (simp add: k keys)
  moreover have "file_exists w' (path_join ?M ''vendor-qemu.img'')"
    using link_stays [OF _ l(4) _ _ u6] f(4) ap ne by (simp add: k keys)
  moreover have "metadata_disk_exists w' (path_join ?M ''encryptionkey.img'')"
    using metadata_stays [OF f(5) l(5) _ t(6)] by (simp add: k keys last)
  ultimately show ?thesis by (simp add: macmu_machine_exists_def)
qed

theorem created_machine_exists_witness:
  "macmu_machine_exists (snd (snd (macmu_create_default_machine (\<lambda>_. []) sample_machine sample_world))) sample_machine"
proof -
  obtain e w' where r: "macmu_create_default_machine (\<lambda>_. []) sample_machine sample_world = (True, e, w')"
    using sample_created [of "\<lambda>_. []"] by (metis prod.collapse)
  have "links_in A (disk_of sample_world)" for A
    by (rule no_links) (simp add: sample_world_def image_at_def kRequiredFiles_def)
  with created_machine_exists [OF r] show ?thesis
    by (simp add: r sample_paths sample_keys calm_sample(1) [unfolded calm_def] is_absolute_def)
qed



end
