(* ===== verification/Agent_Pointer.thy ===== *)
theory Agent_Pointer
  imports Text_Util
begin

text \<open>
  The pointer part of \<^verbatim>\<open>shell/guest_agent/MacMuAgent.java\<close>, the agent inside the guest: hover,
  touch, mouse and scroll requests become motion events that are injected into Android.

  Coordinates are of a type \<open>'f\<close> that nothing is assumed of; the distance of a scroll is kept in
  thousandths. The clock and the outcome of every injection are parts of the state that no operation
  writes. An operation returns whether it came to its last statement; it does not when an injection
  has thrown. The events that Android has taken are recorded.
\<close>

section \<open>Motion events\<close>

datatype motion_action =
    ACTION_DOWN | ACTION_UP | ACTION_MOVE | ACTION_CANCEL | ACTION_SCROLL
  | ACTION_HOVER_ENTER | ACTION_HOVER_MOVE | ACTION_HOVER_EXIT

datatype motion_source = SOURCE_TOUCHSCREEN | SOURCE_MOUSE

record 'f motion_event =
  evSource :: motion_source
  evAction :: motion_action
  evDisplay :: int
  evPointer :: int
  evX :: 'f
  evY :: 'f
  evPressed :: bool
  evButtons :: int
  evScroll :: "int \<times> int"
  evDownTime :: int
  evTime :: int

record 'f pointer =
  hoverActive :: bool
  hoverDisplayId :: int
  hoverX :: 'f
  hoverY :: 'f
  touchActive :: bool
  touchDisplayId :: int
  touchPointerId :: int
  touchX :: 'f
  touchY :: 'f
  touchDownTime :: int
  mouseButtonState :: int
  mouseDisplayId :: int
  mouseX :: 'f
  mouseY :: 'f
  mouseDownTime :: int
  uptimeMillis :: "nat \<Rightarrow> int"
  clockReads :: nat
  injectOutcome :: "nat \<Rightarrow> bool"
  injectCalls :: nat
  taken :: "'f motion_event list"

definition new_pointer :: "'f \<Rightarrow> (nat \<Rightarrow> int) \<Rightarrow> (nat \<Rightarrow> bool) \<Rightarrow> 'f pointer" where
  "new_pointer zero clock outcome =
     \<lparr>hoverActive = False, hoverDisplayId = -1, hoverX = zero, hoverY = zero,
      touchActive = False, touchDisplayId = -1, touchPointerId = 0, touchX = zero, touchY = zero,
      touchDownTime = 0, mouseButtonState = 0, mouseDisplayId = -1, mouseX = zero, mouseY = zero,
      mouseDownTime = 0, uptimeMillis = clock, clockReads = 0, injectOutcome = outcome,
      injectCalls = 0, taken = []\<rparr>"

section \<open>Operations\<close>

type_synonym 'f pointer_op = "'f pointer \<Rightarrow> bool \<times> 'f pointer"

text \<open>One statement after the other; an exception skips the rest.\<close>

definition then_do :: "('s \<Rightarrow> bool \<times> 's) \<Rightarrow> ('s \<Rightarrow> bool \<times> 's) \<Rightarrow> 's \<Rightarrow> bool \<times> 's" where
  "then_do f g p = (let (ok, q) = f p in if ok then g q else (False, q))"

definition assign :: "('s \<Rightarrow> 's) \<Rightarrow> 's \<Rightarrow> bool \<times> 's" where
  "assign f p = (True, f p)"

definition clock_now :: "'f pointer \<Rightarrow> int" where
  "clock_now p = uptimeMillis p (clockReads p)"

definition inject :: "'f motion_event \<Rightarrow> 'f pointer_op" where
  "inject e p =
     (let ok = injectOutcome p (injectCalls p);
          q = p\<lparr>injectCalls := Suc (injectCalls p)\<rparr> in
      (ok, if ok then q\<lparr>taken := taken q @ [e]\<rparr> else q))"

definition injectTouchMotion ::
  "int \<Rightarrow> int \<Rightarrow> int \<Rightarrow> motion_action \<Rightarrow> 'f \<Rightarrow> 'f \<Rightarrow> 'f pointer_op" where
  "injectTouchMotion displayId pointerId downTime action x y p =
     (let now = clock_now p in
      inject \<lparr>evSource = SOURCE_TOUCHSCREEN, evAction = action, evDisplay = displayId,
              evPointer = pointerId, evX = x, evY = y,
              evPressed = (action \<noteq> ACTION_UP \<and> action \<noteq> ACTION_CANCEL), evButtons = 0,
              evScroll = (0, 0), evDownTime = downTime, evTime = now\<rparr>
        (p\<lparr>clockReads := Suc (clockReads p)\<rparr>))"

definition injectMotion ::
  "int \<Rightarrow> motion_action \<Rightarrow> 'f \<Rightarrow> 'f \<Rightarrow> int \<Rightarrow> int \<Rightarrow> 'f pointer_op" where
  "injectMotion displayId action x y buttonState downTime p =
     (let now = clock_now p in
      inject \<lparr>evSource = SOURCE_MOUSE, evAction = action, evDisplay = displayId, evPointer = 0,
              evX = x, evY = y, evPressed = (buttonState \<noteq> 0), evButtons = buttonState,
              evScroll = (0, 0), evDownTime = downTime, evTime = now\<rparr>
        (p\<lparr>clockReads := Suc (clockReads p)\<rparr>))"

text \<open>The overload without a down time takes the time of the call.\<close>

definition injectMotionNow :: "int \<Rightarrow> motion_action \<Rightarrow> 'f \<Rightarrow> 'f \<Rightarrow> int \<Rightarrow> 'f pointer_op" where
  "injectMotionNow displayId action x y buttonState p =
     injectMotion displayId action x y buttonState (clock_now p) (p\<lparr>clockReads := Suc (clockReads p)\<rparr>)"

definition injectScroll :: "int \<Rightarrow> 'f \<Rightarrow> 'f \<Rightarrow> int \<Rightarrow> int \<Rightarrow> 'f pointer_op" where
  "injectScroll displayId x y hscroll vscroll p =
     (let now = clock_now p in
      inject \<lparr>evSource = SOURCE_MOUSE, evAction = ACTION_SCROLL, evDisplay = displayId, evPointer = 0,
              evX = x, evY = y, evPressed = False, evButtons = 0, evScroll = (hscroll, vscroll),
              evDownTime = now, evTime = now\<rparr>
        (p\<lparr>clockReads := Suc (clockReads p)\<rparr>))"

definition injectHoverExitLocked :: "'f pointer_op" where
  "injectHoverExitLocked p =
     (if \<not> hoverActive p then (True, p)
      else then_do (injectMotionNow (hoverDisplayId p) ACTION_HOVER_EXIT (hoverX p) (hoverY p) 0)
             (assign (\<lambda>q. q\<lparr>hoverActive := False, hoverDisplayId := -1\<rparr>)) p)"

definition injectHoverExit :: "'f pointer_op" where
  "injectHoverExit = injectHoverExitLocked"

definition injectHover :: "int \<Rightarrow> 'f \<Rightarrow> 'f \<Rightarrow> 'f pointer_op" where
  "injectHover displayId x y p =
     (if displayId < 0 then (True, p)
      else
        then_do
          (\<lambda>q. if hoverActive q \<and> displayId \<noteq> hoverDisplayId q then injectHoverExitLocked q else (True, q))
        (then_do
          (\<lambda>q. if \<not> hoverActive q
               then then_do (injectMotionNow displayId ACTION_HOVER_ENTER x y 0)
                      (assign (\<lambda>r. r\<lparr>hoverActive := True\<rparr>)) q
               else (True, q))
        (then_do
          (assign (\<lambda>q. q\<lparr>hoverDisplayId := displayId, hoverX := x, hoverY := y\<rparr>))
          (injectMotionNow displayId ACTION_HOVER_MOVE x y 0))) p)"

definition injectTouch :: "int \<Rightarrow> int \<Rightarrow> string \<Rightarrow> 'f \<Rightarrow> 'f \<Rightarrow> 'f pointer_op" where
  "injectTouch displayId pointerId phase x y p =
     (if phase = [] \<or> displayId < 0 then (True, p)
      else
        let command = hd phase; now = clock_now p; p1 = p\<lparr>clockReads := Suc (clockReads p)\<rparr> in
        if command = CHR ''b'' then
          then_do injectHoverExitLocked
          (then_do
            (\<lambda>q. if touchActive q
                 then injectTouchMotion (touchDisplayId q) (touchPointerId q) (touchDownTime q)
                        ACTION_CANCEL (touchX q) (touchY q) q
                 else (True, q))
          (then_do
            (assign (\<lambda>q. q\<lparr>touchActive := True, touchDisplayId := displayId, touchPointerId := pointerId,
               touchX := x, touchY := y, touchDownTime := now\<rparr>))
            (injectTouchMotion displayId pointerId now ACTION_DOWN x y))) p1
        else if \<not> touchActive p1 then (True, p1)
        else
          let p2 = p1\<lparr>touchDisplayId := displayId, touchPointerId := pointerId, touchX := x, touchY := y\<rparr>;
              finish = assign (\<lambda>q. q\<lparr>touchActive := False, touchDisplayId := -1\<rparr>) in
          if command = CHR ''m'' then
            injectTouchMotion displayId pointerId (touchDownTime p2) ACTION_MOVE x y p2
          else if command = CHR ''e'' then
            then_do (injectTouchMotion displayId pointerId (touchDownTime p2) ACTION_UP x y) finish p2
          else if command = CHR ''c'' then
            then_do (injectTouchMotion displayId pointerId (touchDownTime p2) ACTION_CANCEL x y) finish p2
          else (True, p2))"

definition injectMouseMove :: "int \<Rightarrow> 'f \<Rightarrow> 'f \<Rightarrow> int \<Rightarrow> 'f pointer_op" where
  "injectMouseMove displayId x y buttonState p =
     (if buttonState = 0 then injectHover displayId x y p
      else injectMotion displayId ACTION_MOVE x y buttonState (mouseDownTime p)
             (p\<lparr>mouseDisplayId := displayId, mouseX := x, mouseY := y, mouseButtonState := buttonState\<rparr>))"

definition injectMouseButton :: "int \<Rightarrow> 'f \<Rightarrow> 'f \<Rightarrow> int \<Rightarrow> 'f pointer_op" where
  "injectMouseButton displayId x y buttonState p =
     (let previousButtonState = mouseButtonState p;
          p1 = p\<lparr>mouseDisplayId := displayId, mouseX := x, mouseY := y, mouseButtonState := buttonState\<rparr> in
      if previousButtonState = 0 \<and> buttonState \<noteq> 0 then
        then_do injectHoverExitLocked
        (then_do
          (assign (\<lambda>q. q\<lparr>mouseDownTime := clock_now q, clockReads := Suc (clockReads q)\<rparr>))
          (\<lambda>q. injectMotion displayId ACTION_DOWN x y buttonState (mouseDownTime q) q)) p1
      else if previousButtonState \<noteq> 0 \<and> buttonState = 0 then
        then_do (injectMotion displayId ACTION_UP x y 0 (mouseDownTime p1))
          (assign (\<lambda>q. q\<lparr>mouseDownTime := 0\<rparr>)) p1
      else if previousButtonState \<noteq> buttonState then
        injectMotion displayId ACTION_MOVE x y buttonState (mouseDownTime p1) p1
      else (True, p1))"

definition resetPointerState :: "'f pointer_op" where
  "resetPointerState =
     then_do
       (\<lambda>p. if touchActive p
            then then_do
                   (injectTouchMotion (touchDisplayId p) (touchPointerId p) (touchDownTime p)
                      ACTION_CANCEL (touchX p) (touchY p))
                   (assign (\<lambda>q. q\<lparr>touchActive := False, touchDisplayId := -1\<rparr>)) p
            else (True, p))
     (then_do
       (\<lambda>p. if mouseButtonState p \<noteq> 0
            then then_do
                   (injectMotion (mouseDisplayId p) ACTION_UP (mouseX p) (mouseY p) 0 (mouseDownTime p))
                   (assign (\<lambda>q. q\<lparr>mouseButtonState := 0, mouseDisplayId := -1, mouseDownTime := 0\<rparr>)) p
            else (True, p))
       injectHoverExitLocked)"

section \<open>Legal event streams\<close>

text \<open>
  What Android expects of the events: automata that read the stream. \<open>None\<close> is an event that does
  not fit. A hover is entered on a display, moves there and is left there; a touch goes down, moves
  and comes up or is cancelled, all with the time at which it went down; a press of the mouse
  likewise.
\<close>

primrec runs :: "('s \<Rightarrow> 'e \<Rightarrow> 's option) \<Rightarrow> 's \<Rightarrow> 'e list \<Rightarrow> 's option" where
  "runs step s [] = Some s"
| "runs step s (e # es) = (case step s e of None \<Rightarrow> None | Some s' \<Rightarrow> runs step s' es)"

definition hover_step :: "int option \<Rightarrow> 'f motion_event \<Rightarrow> int option option" where
  "hover_step s e =
     (case evAction e of
        ACTION_HOVER_ENTER \<Rightarrow> if s = None then Some (Some (evDisplay e)) else None
      | ACTION_HOVER_MOVE \<Rightarrow> if s = Some (evDisplay e) then Some s else None
      | ACTION_HOVER_EXIT \<Rightarrow> if s = Some (evDisplay e) then Some None else None
      | _ \<Rightarrow> Some s)"

definition press_step :: "motion_source \<Rightarrow> int option \<Rightarrow> 'f motion_event \<Rightarrow> int option option" where
  "press_step source s e =
     (if evSource e \<noteq> source then Some s
      else case evAction e of
        ACTION_DOWN \<Rightarrow> if s = None then Some (Some (evDownTime e)) else None
      | ACTION_MOVE \<Rightarrow> if s = Some (evDownTime e) then Some s else None
      | ACTION_UP \<Rightarrow> if s = Some (evDownTime e) then Some None else None
      | ACTION_CANCEL \<Rightarrow> if s = Some (evDownTime e) then Some None else None
      | _ \<Rightarrow> Some s)"

definition hover_of :: "'f pointer \<Rightarrow> int option" where
  "hover_of p = (if hoverActive p then Some (hoverDisplayId p) else None)"

definition touch_of :: "'f pointer \<Rightarrow> int option" where
  "touch_of p = (if touchActive p then Some (touchDownTime p) else None)"

definition mouse_of :: "'f pointer \<Rightarrow> int option" where
  "mouse_of p = (if mouseButtonState p \<noteq> 0 then Some (mouseDownTime p) else None)"

definition hover_in_step :: "'f pointer \<Rightarrow> bool" where
  "hover_in_step p \<longleftrightarrow> runs hover_step None (taken p) = Some (hover_of p)"

definition touch_in_step :: "'f pointer \<Rightarrow> bool" where
  "touch_in_step p \<longleftrightarrow> runs (press_step SOURCE_TOUCHSCREEN) None (taken p) = Some (touch_of p)"

definition mouse_in_step :: "'f pointer \<Rightarrow> bool" where
  "mouse_in_step p \<longleftrightarrow> runs (press_step SOURCE_MOUSE) None (taken p) = Some (mouse_of p)"

definition at_rest :: "'f pointer \<Rightarrow> bool" where
  "at_rest p \<longleftrightarrow> \<not> hoverActive p \<and> \<not> touchActive p \<and> mouseButtonState p = 0"

section \<open>Lemmas: streams\<close>

named_theorems pointer_ops

declare then_do_def [pointer_ops] assign_def [pointer_ops] inject_def [pointer_ops]
  injectTouchMotion_def [pointer_ops] injectMotion_def [pointer_ops] injectMotionNow_def [pointer_ops]
  injectScroll_def [pointer_ops] injectHoverExitLocked_def [pointer_ops] Let_def [pointer_ops]

lemma runs_append [simp]:
  "runs step s (es @ fs) = (case runs step s es of None \<Rightarrow> None | Some s' \<Rightarrow> runs step s' fs)"
  by (induction es arbitrary: s) (auto split: option.split)

lemma hover_exit_in_step: "hover_in_step p \<Longrightarrow> hover_in_step (snd (injectHoverExitLocked p))"
  by (auto simp: pointer_ops hover_in_step_def hover_of_def hover_step_def)

lemma hover_in_step_hover: "hover_in_step p \<Longrightarrow> hover_in_step (snd (injectHover d x y p))"
  by (auto simp: pointer_ops injectHover_def hover_in_step_def hover_of_def hover_step_def)

lemma hover_in_step_touch: "hover_in_step p \<Longrightarrow> hover_in_step (snd (injectTouch d i ph x y p))"
  by (auto simp: pointer_ops injectTouch_def hover_in_step_def hover_of_def hover_step_def)

lemma hover_in_step_move: "hover_in_step p \<Longrightarrow> hover_in_step (snd (injectMouseMove d x y b p))"
  using hover_in_step_hover [of p d x y]
  by (auto simp: pointer_ops injectMouseMove_def hover_in_step_def hover_of_def hover_step_def)

lemma hover_in_step_button: "hover_in_step p \<Longrightarrow> hover_in_step (snd (injectMouseButton d x y b p))"
  by (auto simp: pointer_ops injectMouseButton_def hover_in_step_def hover_of_def hover_step_def)

lemma hover_in_step_scroll: "hover_in_step p \<Longrightarrow> hover_in_step (snd (injectScroll d x y h v p))"
  by (auto simp: pointer_ops hover_in_step_def hover_of_def hover_step_def)

lemma hover_in_step_reset: "hover_in_step p \<Longrightarrow> hover_in_step (snd (resetPointerState p))"
  by (auto simp: pointer_ops resetPointerState_def hover_in_step_def hover_of_def hover_step_def)

text \<open>No injection throws.\<close>

definition all_taken :: "'f pointer \<Rightarrow> bool" where
  "all_taken p \<longleftrightarrow> (\<forall>n. injectOutcome p n)"

lemma touch_in_step_hover:
  "touch_in_step p \<Longrightarrow> touch_in_step (snd (injectHover d x y p))"
  by (auto simp: pointer_ops injectHover_def touch_in_step_def touch_of_def press_step_def)

lemma touch_in_step_touch:
  "touch_in_step p \<Longrightarrow> all_taken p \<Longrightarrow> touch_in_step (snd (injectTouch d i ph x y p))"
  by (auto simp: pointer_ops injectTouch_def touch_in_step_def touch_of_def press_step_def all_taken_def)

lemma touch_in_step_move:
  "touch_in_step p \<Longrightarrow> touch_in_step (snd (injectMouseMove d x y b p))"
  using touch_in_step_hover [of p d x y]
  by (auto simp: pointer_ops injectMouseMove_def touch_in_step_def touch_of_def press_step_def)

lemma touch_in_step_button:
  "touch_in_step p \<Longrightarrow> touch_in_step (snd (injectMouseButton d x y b p))"
  by (auto simp: pointer_ops injectMouseButton_def touch_in_step_def touch_of_def press_step_def)

lemma touch_in_step_scroll:
  "touch_in_step p \<Longrightarrow> touch_in_step (snd (injectScroll d x y h v p))"
  by (auto simp: pointer_ops touch_in_step_def touch_of_def press_step_def)

lemma touch_in_step_reset:
  "touch_in_step p \<Longrightarrow> touch_in_step (snd (resetPointerState p))"
  by (auto simp: pointer_ops resetPointerState_def touch_in_step_def touch_of_def press_step_def)

lemma mouse_in_step_hover:
  "mouse_in_step p \<Longrightarrow> mouse_in_step (snd (injectHover d x y p))"
  by (auto simp: pointer_ops injectHover_def mouse_in_step_def mouse_of_def press_step_def)

lemma mouse_in_step_touch:
  "mouse_in_step p \<Longrightarrow> mouse_in_step (snd (injectTouch d i ph x y p))"
  by (auto simp: pointer_ops injectTouch_def mouse_in_step_def mouse_of_def press_step_def)

lemma mouse_in_step_move:
  "mouse_in_step p \<Longrightarrow> b = 0 \<or> mouseButtonState p \<noteq> 0 \<Longrightarrow> mouse_in_step (snd (injectMouseMove d x y b p))"
  using mouse_in_step_hover [of p d x y]
  by (auto simp: pointer_ops injectMouseMove_def mouse_in_step_def mouse_of_def press_step_def)

lemma mouse_in_step_button:
  "mouse_in_step p \<Longrightarrow> all_taken p \<Longrightarrow> mouse_in_step (snd (injectMouseButton d x y b p))"
  by (auto simp: pointer_ops injectMouseButton_def mouse_in_step_def mouse_of_def press_step_def all_taken_def)

lemma mouse_in_step_scroll:
  "mouse_in_step p \<Longrightarrow> mouse_in_step (snd (injectScroll d x y h v p))"
  by (auto simp: pointer_ops mouse_in_step_def mouse_of_def press_step_def)

lemma mouse_in_step_reset:
  "mouse_in_step p \<Longrightarrow> mouse_in_step (snd (resetPointerState p))"
  by (auto simp: pointer_ops resetPointerState_def mouse_in_step_def mouse_of_def press_step_def)

lemma reset_at_rest: "all_taken p \<Longrightarrow> at_rest (snd (resetPointerState p))"
  by (auto simp: pointer_ops resetPointerState_def at_rest_def all_taken_def)

end
