(* ===== verification/Agent_Displays.thy ===== *)
theory Agent_Displays
  imports Text_Util
begin

text \<open>
  Display numbers in \<^verbatim>\<open>shell/guest_agent/MacMuAgent.java\<close>. The host numbers displays by their
  slot in the emulator; Android has numbers of its own. The agent reads the translation from the
  text of \<^verbatim>\<open>dumpsys display\<close> and keeps it. The texts that the command prints, and the times at
  which a waiting loop looks at the clock, are given.
\<close>

section \<open>Integers as Java reads them\<close>

definition parse_within :: "int \<Rightarrow> string \<Rightarrow> int option" where
  "parse_within bound s =
     (let neg = (take 1 s = ''-''); ds = (if take 1 s \<in> {''-'', ''+''} then drop 1 s else s);
          v = (if neg then - int (digits_value ds) else int (digits_value ds)) in
      if ds = [] \<or> \<not> list_all is_digit ds \<or> v < - bound \<or> v \<ge> bound then None else Some v)"

definition parseInt :: "string \<Rightarrow> int option" where
  "parseInt = parse_within (2 ^ 31)"

definition parseLong :: "string \<Rightarrow> int option" where
  "parseLong = parse_within (2 ^ 63)"

text \<open>\<^verbatim>\<open>String.split(" ")\<close>: empty fields at the end are dropped, unless there is nothing to split.\<close>

definition java_split :: "string \<Rightarrow> string list" where
  "java_split line =
     (if CHR '' '' \<notin> set line then [line]
      else rev (dropWhile (\<lambda>f. f = []) (rev (split_at CHR '' '' line))))"

section \<open>The dump\<close>

definition MULTI_DISPLAY_UNIQUE_ID_BASE :: int where
  "MULTI_DISPLAY_UNIQUE_ID_BASE = 1234561"

definition strip_prefix :: "string \<Rightarrow> string \<Rightarrow> string option" where
  "strip_prefix p s = (if take (length p) s = p then Some (drop (length p) s) else None)"

text \<open>\<^verbatim>\<open>(\d+)\<close> and a literal that does not begin with a digit.\<close>

definition digits_then :: "string \<Rightarrow> string \<Rightarrow> (string \<times> string) option" where
  "digits_then lit s =
     (let ds = takeWhile is_digit s in
      if ds = [] then None
      else map_option (\<lambda>r. (ds, r)) (strip_prefix lit (drop (length ds) s)))"

text \<open>The pattern at the front of a text: its two groups and the text behind the match.\<close>

definition match_display :: "string \<Rightarrow> (string \<times> string \<times> string) option" where
  "match_display s =
     (case strip_prefix ''displayId='' s of
        None \<Rightarrow> None
      | Some s1 \<Rightarrow>
          (case digits_then ('', uniqueId='' @ [CHR 0x27] @ ''virtual:com.android.emulator.multidisplay:'') s1 of
             None \<Rightarrow> None
           | Some (android, s2) \<Rightarrow>
               map_option (\<lambda>(suffix, rest). (android, suffix, rest)) (digits_then [CHR 0x27] s2)))"

lemma strip_prefix_shorter: "strip_prefix p s = Some r \<Longrightarrow> length r \<le> length s"
  by (auto simp: strip_prefix_def split: if_splits)

lemma digits_then_shorter: "digits_then lit s = Some (ds, r) \<Longrightarrow> length r \<le> length s"
  using strip_prefix_shorter [of lit "drop (length ds) s" r]
  by (auto simp: digits_then_def Let_def split: if_splits)

lemma match_display_shorter:
  assumes "match_display s = Some (a, b, rest)"
  shows "length rest < length s"
proof -
  obtain s1 where s1: "strip_prefix ''displayId='' s = Some s1" and
    m: "(case digits_then ('', uniqueId='' @ [CHR 0x27] @ ''virtual:com.android.emulator.multidisplay:'') s1 of
             None \<Rightarrow> None
           | Some (android, s2) \<Rightarrow>
               map_option (\<lambda>(suffix, rest). (android, suffix, rest)) (digits_then [CHR 0x27] s2)) =
       Some (a, b, rest)"
    using assms by (auto simp: match_display_def split: option.splits)
  then have "length rest \<le> length s1"
    by (fastforce split: option.splits dest: digits_then_shorter)
  moreover have "take (length ''displayId='') s = ''displayId=''" "s1 = drop (length ''displayId='') s"
    using s1 by (auto simp: strip_prefix_def simp del: list.size split: if_splits)
  then have "length s1 < length s" by (cases s) auto
  ultimately show ?thesis by simp
qed

text \<open>\<^verbatim>\<open>Matcher.find\<close> until there is no other match.\<close>

function find_displays :: "string \<Rightarrow> (string \<times> string) list" where
  "find_displays s =
     (case match_display s of
        Some (android, suffix, rest) \<Rightarrow> (android, suffix) # find_displays rest
      | None \<Rightarrow> (case s of [] \<Rightarrow> [] | _ # t \<Rightarrow> find_displays t))"
  by pat_completeness auto
termination by (relation "measure length") (auto dest: match_display_shorter)

declare find_displays.simps [simp del]

section \<open>The cache\<close>

record display_ids =
  displayIdCache :: "int \<rightharpoonup> int"
  dumps :: "nat \<Rightarrow> string list option"
  dumpCalls :: nat

text \<open>A number that does not fit an \<^verbatim>\<open>int\<close> throws and ends the loop.\<close>

fun put_displays :: "(string \<times> string) list \<Rightarrow> (int \<rightharpoonup> int) \<Rightarrow> (int \<rightharpoonup> int)" where
  "put_displays [] c = c"
| "put_displays ((android, suffix) # ms) c =
     (case (parseInt android, parseInt suffix) of
        (Some a, Some u) \<Rightarrow> put_displays ms (c(u - MULTI_DISPLAY_UNIQUE_ID_BASE \<mapsto> a))
      | _ \<Rightarrow> c)"

definition refreshDisplayIdCache :: "display_ids \<Rightarrow> display_ids" where
  "refreshDisplayIdCache d =
     d\<lparr>displayIdCache :=
         (case dumps d (dumpCalls d) of
            None \<Rightarrow> Map.empty
          | Some lines \<Rightarrow> put_displays (concat (map find_displays lines)) Map.empty),
       dumpCalls := Suc (dumpCalls d)\<rparr>"

definition resolveAndroidDisplayId :: "int \<Rightarrow> display_ids \<Rightarrow> int \<times> display_ids" where
  "resolveAndroidDisplayId emulatorDisplayId d =
     (if emulatorDisplayId \<le> 0 then (0, d)
      else case displayIdCache d emulatorDisplayId of
          Some a \<Rightarrow> (a, d)
        | None \<Rightarrow>
            let d1 = refreshDisplayIdCache d in
            (case displayIdCache d1 emulatorDisplayId of Some a \<Rightarrow> a | None \<Rightarrow> -1, d1))"

definition invalidateDisplayId :: "int \<Rightarrow> display_ids \<Rightarrow> display_ids" where
  "invalidateDisplayId emulatorDisplayId d =
     d\<lparr>displayIdCache := (displayIdCache d)(emulatorDisplayId := None)\<rparr>"

text \<open>
  One round of the waiting loop that finds nothing: the time it reads, and whether the sleep is
  interrupted. \<open>None\<close> while the loop has not ended.
\<close>

fun wait_rounds :: "int \<Rightarrow> int \<Rightarrow> (int \<times> bool) list \<Rightarrow> display_ids \<Rightarrow> (int \<times> display_ids) option" where
  "wait_rounds emulatorDisplayId deadline rounds d =
     (let (resolved, d1) = resolveAndroidDisplayId emulatorDisplayId d in
      if resolved \<ge> 0 then Some (resolved, d1)
      else case rounds of
          [] \<Rightarrow> None
        | (now, interrupted) # rest \<Rightarrow>
            if now \<ge> deadline then Some (-1, d1)
            else if interrupted then Some (-1, d1)
            else wait_rounds emulatorDisplayId deadline rest d1)"

declare wait_rounds.simps [simp del]

definition waitForAndroidDisplayId ::
  "int \<Rightarrow> int \<Rightarrow> int \<Rightarrow> (int \<times> bool) list \<Rightarrow> display_ids \<Rightarrow> (int \<times> display_ids) option" where
  "waitForAndroidDisplayId emulatorDisplayId timeoutMs start rounds d =
     (if emulatorDisplayId \<le> 0 then Some (0, d)
      else wait_rounds emulatorDisplayId (start + timeoutMs) rounds
             (invalidateDisplayId emulatorDisplayId d))"

section \<open>Lemmas\<close>

lemma take1_decimal: "take 1 (decimal n) \<notin> {''-'', ''+''}"
  using decimal_digits [of _ n] digit_not_special by (cases "decimal n") auto

lemma list_all_decimal [simp]: "list_all is_digit (decimal n)"
  by (simp add: list_all_iff)

lemma parse_decimal: "int n < bound \<Longrightarrow> parse_within bound (decimal n) = Some (int n)"
  using take1_decimal [of n] by (simp add: parse_within_def Let_def)

lemma parse_negative: "int n \<le> bound \<Longrightarrow> 0 < bound \<Longrightarrow> parse_within bound (CHR ''-'' # decimal n) = Some (- int n)"
  by (simp add: parse_within_def Let_def)

lemma parse_decimal_int:
  "- bound \<le> i \<Longrightarrow> i < bound \<Longrightarrow> parse_within bound (decimal_int i) = Some i"
  using parse_decimal [of "nat i" bound] parse_negative [of "nat (- i)" bound]
  by (simp add: decimal_int_def)

lemma parse_digits_nonneg:
  assumes "ds \<noteq> []" "list_all is_digit ds" "parse_within bound ds = Some v"
  shows "0 \<le> v"
proof -
  have "take 1 ds \<noteq> ''-''" using assms(1,2) digit_not_special(1) by (cases ds) auto
  then show ?thesis using assms(3) by (auto simp: parse_within_def Let_def split: if_splits)
qed

lemma match_display_digits:
  assumes "match_display s = Some (a, b, rest)"
  shows "a \<noteq> [] \<and> list_all is_digit a \<and> b \<noteq> [] \<and> list_all is_digit b"
  using assms
  by (auto simp: match_display_def digits_then_def Let_def list_all_iff split: option.splits if_splits
      dest: set_takeWhileD)

lemma find_displays_digits:
  "(a, b) \<in> set (find_displays s) \<Longrightarrow> a \<noteq> [] \<and> list_all is_digit a"
proof (induction s rule: find_displays.induct)
  case (1 s)
  show ?case
  proof (cases "match_display s")
    case None
    then show ?thesis using 1 by (subst (asm) (3) find_displays.simps) (auto split: list.splits)
  next
    case (Some m)
    obtain u v w where m: "m = (u, v, w)" by (cases m)
    then have "(a, b) = (u, v) \<or> (a, b) \<in> set (find_displays w)"
      using 1(3) Some by (subst (asm) find_displays.simps) simp
    then show ?thesis
      using 1(2) [OF Some] m Some match_display_digits [of s u v w] by auto
  qed
qed

text \<open>Every number in the cache comes from digits.\<close>

definition cache_ok :: "display_ids \<Rightarrow> bool" where
  "cache_ok d \<longleftrightarrow> (\<forall>a \<in> ran (displayIdCache d). 0 \<le> a)"

lemma put_displays_ok:
  "\<forall>m \<in> set ms. fst m \<noteq> [] \<and> list_all is_digit (fst m) \<Longrightarrow> \<forall>a \<in> ran c. 0 \<le> a \<Longrightarrow>
   \<forall>a \<in> ran (put_displays ms c). 0 \<le> a"
proof (induction ms c rule: put_displays.induct)
  case (2 android suffix ms c)
  show ?case
  proof (cases "\<exists>a u. parseInt android = Some a \<and> parseInt suffix = Some u")
    case True
    then obtain a u where au: "parseInt android = Some a" "parseInt suffix = Some u" by blast
    then have "0 \<le> a" using 2(2) parse_digits_nonneg [of android "2 ^ 31" a] by (simp add: parseInt_def)
    then have "\<forall>x \<in> ran (c(u - MULTI_DISPLAY_UNIQUE_ID_BASE \<mapsto> a)). 0 \<le> x"
      using 2(3) by (auto simp: ran_def split: if_splits)
    then show ?thesis using 2(1) [OF refl au] 2(2) by (simp add: au del: fun_upd_apply)
  next
    case False
    then show ?thesis using 2(3) by (auto split: option.split)
  qed
qed simp

lemma cache_ok_refresh: "cache_ok (refreshDisplayIdCache d)"
proof -
  have "\<forall>a \<in> ran (put_displays (concat (map find_displays lines)) Map.empty). 0 \<le> a" for lines
    by (rule put_displays_ok) (auto dest: find_displays_digits)
  then show ?thesis by (simp add: refreshDisplayIdCache_def cache_ok_def split: option.split)
qed

lemma cache_ok_invalidate: "cache_ok d \<Longrightarrow> cache_ok (invalidateDisplayId e d)"
  by (auto simp: cache_ok_def invalidateDisplayId_def ran_def)

lemma resolve_keeps: "cache_ok d \<Longrightarrow> cache_ok (snd (resolveAndroidDisplayId e d))"
  by (simp add: resolveAndroidDisplayId_def Let_def cache_ok_refresh split: option.split)

lemma wait_ends:
  "list_ex (\<lambda>(now, interrupted). now \<ge> deadline \<or> interrupted) rounds \<Longrightarrow> wait_rounds e deadline rounds d \<noteq> None"
proof (induction rounds arbitrary: d)
  case (Cons r rounds)
  then show ?case
    by (cases r) (auto simp: wait_rounds.simps [of _ _ "_ # _"] Let_def case_prod_beta)
qed simp

lemma resolve_range: "cache_ok d \<Longrightarrow> -1 \<le> fst (resolveAndroidDisplayId e d)"
  using cache_ok_refresh [of d]
  by (auto simp: resolveAndroidDisplayId_def Let_def cache_ok_def ran_def split: option.split)

end
