(* ===== verification/Agent_Keyboard.thy ===== *)
theory Agent_Keyboard
  imports Agent_Displays Hid_Keyboard "HOL-Library.Multiset"
begin

text \<open>
  The keyboards of \<^verbatim>\<open>shell/guest_agent/MacMuAgent.java\<close>: one virtual HID device for each
  application display, made through \<^verbatim>\<open>/dev/uhid\<close> and tied to the display by an association in
  the input manager.

  Results of system calls are arguments. The calls are recorded in the order in which they are made.
\<close>

section \<open>Reports\<close>

definition HID_KEYBOARD_REPORT_BYTES :: nat where "HID_KEYBOARD_REPORT_BYTES = 8"
definition UHID_CREATE2 :: u32 where "UHID_CREATE2 = 11"
definition UHID_INPUT2 :: u32 where "UHID_INPUT2 = 12"
definition BUS_VIRTUAL :: u16 where "BUS_VIRTUAL = 0x06"

definition HID_KEYBOARD_REPORT_DESCRIPTOR :: bytes where
  "HID_KEYBOARD_REPORT_DESCRIPTOR =
     [0x05, 0x01, 0x09, 0x06, 0xa1, 0x01, 0x05, 0x07, 0x19, 0xe0, 0x29, 0xe7, 0x15, 0x00, 0x25, 0x01,
      0x75, 0x01, 0x95, 0x08, 0x81, 0x02, 0x75, 0x08, 0x95, 0x01, 0x81, 0x01, 0x05, 0x08, 0x19, 0x01,
      0x29, 0x05, 0x75, 0x01, 0x95, 0x05, 0x91, 0x02, 0x75, 0x03, 0x95, 0x01, 0x91, 0x01, 0x05, 0x07,
      0x19, 0x00, 0x29, 0x65, 0x15, 0x00, 0x25, 0x65, 0x75, 0x08, 0x95, 0x06, 0x81, 0x00, 0xc0]"

text \<open>\<^verbatim>\<open>Character.digit(c, 16)\<close>\<close>

definition hex_value :: "char \<Rightarrow> nat option" where
  "hex_value c =
     (let n = of_char c :: nat in
      if 48 \<le> n \<and> n \<le> 57 then Some (n - 48)
      else if 97 \<le> n \<and> n \<le> 102 then Some (n - 87)
      else if 65 \<le> n \<and> n \<le> 70 then Some (n - 55)
      else None)"

fun hex_pairs :: "string \<Rightarrow> bytes option" where
  "hex_pairs [] = Some []"
| "hex_pairs [c] = None"
| "hex_pairs (c # d # s) =
     (case (hex_value c, hex_value d) of
        (Some high, Some low) \<Rightarrow> map_option (\<lambda>bs. of_nat (16 * high + low) # bs) (hex_pairs s)
      | _ \<Rightarrow> None)"

definition decodeHex :: "string \<Rightarrow> nat \<Rightarrow> bytes option" where
  "decodeHex s expectedBytes = (if length s \<noteq> expectedBytes * 2 then None else hex_pairs s)"

text \<open>The native byte order of the guest is little endian.\<close>

definition buildUhidCreate2 :: "string \<Rightarrow> bytes" where
  "buildUhidCreate2 inputPort =
     (let name = bytes_of (take 127 ''MacMu Keyboard''); phys = bytes_of (take 63 inputPort) in
      le_bytes 4 UHID_CREATE2 @
      name @ replicate (128 - length name) 0 @
      phys @ replicate (128 - length phys) 0 @
      le_bytes 2 (of_nat (length HID_KEYBOARD_REPORT_DESCRIPTOR) :: u16) @ le_bytes 2 BUS_VIRTUAL @
      le_bytes 4 (0 :: u32) @ le_bytes 4 (0 :: u32) @ le_bytes 4 (0 :: u32) @ le_bytes 4 (0 :: u32) @
      HID_KEYBOARD_REPORT_DESCRIPTOR)"

definition buildUhidInput2 :: "bytes \<Rightarrow> bytes option" where
  "buildUhidInput2 rpt =
     (if length rpt \<noteq> HID_KEYBOARD_REPORT_BYTES then None
      else Some (le_bytes 4 UHID_INPUT2 @ le_bytes 2 (of_nat (length rpt) :: u16) @ rpt))"

section \<open>Devices\<close>

record uhid_device =
  devFd :: int
  devPort :: string
  devUniqueId :: string

record uhid =
  uhidKeyboards :: "(int \<times> uhid_device) list"
  frameworkInputManager :: bool

definition new_uhid :: uhid where
  "new_uhid = \<lparr>uhidKeyboards = [], frameworkInputManager = False\<rparr>"

datatype uhid_call =
    Uhid_open int
  | Uhid_write int bytes
  | Uhid_close int
  | Associate string string
  | Dissociate string

text \<open>
  What the platform answers in one report: whether the system context is there, the unique name of
  the display if the display is there, whether there is an input manager, the descriptor of
  \<^verbatim>\<open>/dev/uhid\<close>, the bytes that the create event wrote, whether the association and the reader
  thread came about, and the bytes that the report wrote.
\<close>

record uhid_answers =
  hasContext :: bool
  displayName :: "string option"
  hasInputManager :: bool
  opened :: "int option"
  createWrote :: "nat option"
  associates :: bool
  drainerStarts :: bool
  reportWrote :: "nat option"

definition writeUhidEvent :: "int \<Rightarrow> bytes \<Rightarrow> nat option \<Rightarrow> bool \<times> uhid_call list" where
  "writeUhidEvent fd event wrote =
     (case wrote of
        None \<Rightarrow> (False, [])
      | Some n \<Rightarrow> (n = length event, [Uhid_write fd (take n event)]))"

definition removeUniqueIdAssociation :: "string \<Rightarrow> uhid \<Rightarrow> uhid_call list" where
  "removeUniqueIdAssociation inputPort u = (if frameworkInputManager u then [Dissociate inputPort] else [])"

definition closeUhidKeyboardDevice :: "uhid_device \<Rightarrow> uhid \<Rightarrow> uhid_call list" where
  "closeUhidKeyboardDevice device u =
     Uhid_close (devFd device) # removeUniqueIdAssociation (devPort device) u"

definition closeUhidKeyboard :: "int \<Rightarrow> uhid \<Rightarrow> uhid \<times> uhid_call list" where
  "closeUhidKeyboard emulatorDisplayId u =
     (case map_of (uhidKeyboards u) emulatorDisplayId of
        None \<Rightarrow> (u, [])
      | Some device \<Rightarrow>
          (u\<lparr>uhidKeyboards := omap_erase emulatorDisplayId (uhidKeyboards u)\<rparr>,
           closeUhidKeyboardDevice device u))"

definition closeAllUhidKeyboards :: "uhid \<Rightarrow> uhid \<times> uhid_call list" where
  "closeAllUhidKeyboards u =
     (u\<lparr>uhidKeyboards := []\<rparr>, concat (map (\<lambda>(_, device). closeUhidKeyboardDevice device u) (uhidKeyboards u)))"

definition input_port :: "nat \<Rightarrow> int \<Rightarrow> string" where
  "input_port pid emulatorDisplayId = ''macmu:'' @ decimal pid @ '':keyboard:'' @ decimal_int emulatorDisplayId"

definition createUhidKeyboard ::
  "nat \<Rightarrow> uhid_answers \<Rightarrow> int \<Rightarrow> string \<Rightarrow> uhid \<Rightarrow> uhid_device option \<times> uhid \<times> uhid_call list" where
  "createUhidKeyboard pid a emulatorDisplayId displayUniqueId u =
     (if \<not> frameworkInputManager u \<and> \<not> hasContext a then (None, u, [])
      else
        let u1 = u\<lparr>frameworkInputManager := frameworkInputManager u \<or> hasInputManager a\<rparr>;
            inputPort = input_port pid emulatorDisplayId in
        if \<not> frameworkInputManager u1 then (None, u1, [])
        else case opened a of
            None \<Rightarrow> (None, u1, [])
          | Some fd \<Rightarrow>
              let (ok, calls) = writeUhidEvent fd (buildUhidCreate2 inputPort) (createWrote a) in
              if \<not> ok then (None, u1, Uhid_open fd # calls @ [Uhid_close fd])
              else if \<not> associates a then (None, u1, Uhid_open fd # calls @ [Uhid_close fd])
              else if \<not> drainerStarts a then
                (None, u1, Uhid_open fd # calls @ [Associate inputPort displayUniqueId, Uhid_close fd] @
                   removeUniqueIdAssociation inputPort u1)
              else (Some \<lparr>devFd = fd, devPort = inputPort, devUniqueId = displayUniqueId\<rparr>, u1,
                    Uhid_open fd # calls @ [Associate inputPort displayUniqueId]))"

text \<open>The unique name of the display with a number of the host; a display that is gone is forgotten.\<close>

definition displayUniqueIdFor ::
  "uhid_answers \<Rightarrow> int \<Rightarrow> display_ids \<Rightarrow> string option \<times> display_ids" where
  "displayUniqueIdFor a emulatorDisplayId d =
     (let (androidDisplayId, d1) = resolveAndroidDisplayId emulatorDisplayId d in
      if androidDisplayId < 0 \<or> \<not> hasContext a then (None, d1)
      else case displayName a of
          None \<Rightarrow> (None, invalidateDisplayId emulatorDisplayId d1)
        | Some uniqueId \<Rightarrow> (if uniqueId = [] then None else Some uniqueId, d1))"

definition writeUhidKeyboardReport ::
  "nat \<Rightarrow> uhid_answers \<Rightarrow> int \<Rightarrow> bytes \<Rightarrow> display_ids \<Rightarrow> uhid \<Rightarrow> bool \<times> display_ids \<times> uhid \<times> uhid_call list" where
  "writeUhidKeyboardReport pid a emulatorDisplayId rpt d u =
     (if emulatorDisplayId \<le> 0 then (False, d, u, [])
      else case displayUniqueIdFor a emulatorDisplayId d of
          (None, d1) \<Rightarrow> (False, d1, u, [])
        | (Some displayUniqueId, d1) \<Rightarrow>
            let stale = (case map_of (uhidKeyboards u) emulatorDisplayId of
                           None \<Rightarrow> False | Some device \<Rightarrow> devUniqueId device \<noteq> displayUniqueId);
                (u1, c1) = (if stale then closeUhidKeyboard emulatorDisplayId u else (u, [])) in
            let (dev, u2, c2) =
                  (case map_of (uhidKeyboards u1) emulatorDisplayId of
                     Some device \<Rightarrow> (Some device, u1, [])
                   | None \<Rightarrow>
                       (case createUhidKeyboard pid a emulatorDisplayId displayUniqueId u1 of
                          (None, v, c) \<Rightarrow> (None, v, c)
                        | (Some device, v, c) \<Rightarrow>
                            (Some device,
                             v\<lparr>uhidKeyboards := omap_put emulatorDisplayId device (uhidKeyboards v)\<rparr>, c))) in
            (case (dev, buildUhidInput2 rpt) of
               (Some device, Some event) \<Rightarrow>
                 let (ok, c3) = writeUhidEvent (devFd device) event (reportWrote a) in
                 (ok, d1, u2, c1 @ c2 @ c3)
             | _ \<Rightarrow> (False, d1, u2, c1 @ c2)))"

text \<open>The operations on the keyboards, by the thread of input and the thread of control requests.\<close>

datatype uhid_op =
    U_report uhid_answers int bytes
  | U_close int
  | U_close_all
  | U_invalidate int

fun uhid_step :: "nat \<Rightarrow> uhid_op \<Rightarrow> display_ids \<times> uhid \<Rightarrow> (display_ids \<times> uhid) \<times> uhid_call list" where
  "uhid_step pid (U_report a e rpt) (d, u) =
     (let (ok, d', u', c) = writeUhidKeyboardReport pid a e rpt d u in ((d', u'), c))"
| "uhid_step pid (U_close e) (d, u) = (let (u', c) = closeUhidKeyboard e u in ((d, u'), c))"
| "uhid_step pid U_close_all (d, u) = (let (u', c) = closeAllUhidKeyboards u in ((d, u'), c))"
| "uhid_step pid (U_invalidate e) (d, u) = ((invalidateDisplayId e d, u), [])"

fun uhid_run :: "nat \<Rightarrow> uhid_op list \<Rightarrow> display_ids \<times> uhid \<Rightarrow> (display_ids \<times> uhid) \<times> uhid_call list" where
  "uhid_run pid [] s = (s, [])"
| "uhid_run pid (x # xs) s =
     (let (s1, c1) = uhid_step pid x s; (s2, c2) = uhid_run pid xs s1 in (s2, c1 @ c2))"

section \<open>Lemmas: the devices\<close>

definition uhid_ok :: "nat \<Rightarrow> uhid \<Rightarrow> bool" where
  "uhid_ok pid u \<longleftrightarrow>
     ordered_keys (uhidKeyboards u) \<and> (uhidKeyboards u = [] \<or> frameworkInputManager u) \<and>
     (\<forall>e dev. map_of (uhidKeyboards u) e = Some dev \<longrightarrow> devPort dev = input_port pid e)"

lemma uhid_ok_new: "uhid_ok pid new_uhid"
  by (simp add: uhid_ok_def new_uhid_def)

lemma close_ok: "uhid_ok pid u \<Longrightarrow> uhid_ok pid (fst (closeUhidKeyboard e u))"
  by (auto simp: closeUhidKeyboard_def uhid_ok_def split: option.split)

lemma close_gone: "map_of (uhidKeyboards (fst (closeUhidKeyboard e u))) e = None"
  by (auto simp: closeUhidKeyboard_def split: option.split)

text \<open>
  What creating a device does: the keyboards stay, the input manager is kept once it is known, and a
  device that comes back is for the display and has the port of the display.
\<close>

lemma create_frame:
  assumes "createUhidKeyboard pid a e uid u = (dev, v, c)"
  shows "uhidKeyboards v = uhidKeyboards u \<and> (frameworkInputManager u \<longrightarrow> frameworkInputManager v) \<and>
    (\<forall>k. dev = Some k \<longrightarrow> devPort k = input_port pid e \<and> devUniqueId k = uid \<and> frameworkInputManager v)"
  using assms
  by (auto simp: createUhidKeyboard_def Let_def case_prod_beta split: if_splits option.splits)

text \<open>The device that a report uses: the one that is there, or a new one.\<close>

definition ensure_device ::
  "nat \<Rightarrow> uhid_answers \<Rightarrow> int \<Rightarrow> string \<Rightarrow> uhid \<Rightarrow> uhid_device option \<times> uhid \<times> uhid_call list" where
  "ensure_device pid a e uid u =
     (let stale = (case map_of (uhidKeyboards u) e of None \<Rightarrow> False | Some device \<Rightarrow> devUniqueId device \<noteq> uid);
          (u1, c1) = (if stale then closeUhidKeyboard e u else (u, []));
          (dev, u2, c2) =
            (case map_of (uhidKeyboards u1) e of
               Some device \<Rightarrow> (Some device, u1, [])
             | None \<Rightarrow>
                 (case createUhidKeyboard pid a e uid u1 of
                    (None, v, c) \<Rightarrow> (None, v, c)
                  | (Some device, v, c) \<Rightarrow>
                      (Some device, v\<lparr>uhidKeyboards := omap_put e device (uhidKeyboards v)\<rparr>, c))) in
      (dev, u2, c1 @ c2))"

lemma report_by_device:
  "writeUhidKeyboardReport pid a e rpt d u =
     (if e \<le> 0 then (False, d, u, [])
      else case displayUniqueIdFor a e d of
          (None, d1) \<Rightarrow> (False, d1, u, [])
        | (Some uid, d1) \<Rightarrow>
            let (dev, u2, c) = ensure_device pid a e uid u in
            (case (dev, buildUhidInput2 rpt) of
               (Some device, Some event) \<Rightarrow>
                 let (ok, c3) = writeUhidEvent (devFd device) event (reportWrote a) in (ok, d1, u2, c @ c3)
             | _ \<Rightarrow> (False, d1, u2, c)))"
  by (simp add: writeUhidKeyboardReport_def ensure_device_def Let_def case_prod_beta split: option.split)

lemma ensure_device_cases:
  assumes "ensure_device pid a e uid u = (dev, v, c)"
  obtains (there) k where "map_of (uhidKeyboards u) e = Some k" "devUniqueId k = uid" "dev = Some k" "v = u" "c = []"
  | (fresh) u1 c1 c2 w where
      "(if map_of (uhidKeyboards u) e = None then (u, []) else closeUhidKeyboard e u) = (u1, c1)"
      "createUhidKeyboard pid a e uid u1 = (dev, w, c2)" "c = c1 @ c2"
      "map_of (uhidKeyboards u1) e = None"
      "v = (case dev of None \<Rightarrow> w | Some k \<Rightarrow> w\<lparr>uhidKeyboards := omap_put e k (uhidKeyboards w)\<rparr>)"
proof (cases "\<exists>k. map_of (uhidKeyboards u) e = Some k \<and> devUniqueId k = uid")
  case True
  then obtain k where k: "map_of (uhidKeyboards u) e = Some k" "devUniqueId k = uid" by blast
  then have "ensure_device pid a e uid u = (Some k, u, [])" by (simp add: ensure_device_def)
  then show thesis using there [OF k] assms by simp
next
  case False
  define r where "r = (if map_of (uhidKeyboards u) e = None then (u, []) else closeUhidKeyboard e u)"
  have r: "(if case map_of (uhidKeyboards u) e of None \<Rightarrow> False | Some device \<Rightarrow> devUniqueId device \<noteq> uid
         then closeUhidKeyboard e u else (u, [])) = (fst r, snd r)"
    using False by (cases "map_of (uhidKeyboards u) e") (simp_all add: r_def)
  have none: "map_of (uhidKeyboards (fst r)) e = None"
    by (simp add: r_def close_gone)
  obtain k w c2 where cr: "createUhidKeyboard pid a e uid (fst r) = (k, w, c2)" by (metis surj_pair)
  have "ensure_device pid a e uid u =
      (k, (case k of None \<Rightarrow> w | Some x \<Rightarrow> w\<lparr>uhidKeyboards := omap_put e x (uhidKeyboards w)\<rparr>), snd r @ c2)"
    unfolding ensure_device_def Let_def r by (cases k) (simp_all add: none cr case_prod_beta)
  then have eq: "k = dev" "c = snd r @ c2"
    "v = (case k of None \<Rightarrow> w | Some x \<Rightarrow> w\<lparr>uhidKeyboards := omap_put e x (uhidKeyboards w)\<rparr>)"
    using assms by simp_all
  show thesis
    by (rule fresh [of "fst r" "snd r"]) (use cr none eq in \<open>simp_all add: r_def\<close>)
qed

lemma ensure_device_ok:
  assumes "ensure_device pid a e uid u = (dev, v, c)" and "uhid_ok pid u"
  shows "uhid_ok pid v"
  using assms(1)
proof (cases rule: ensure_device_cases)
  case there
  then show ?thesis using assms(2) by simp
next
  case (fresh u1 c1 c2 w)
  have "uhid_ok pid u1"
    using fresh(1) assms(2) close_ok [of pid u e] by (cases "map_of (uhidKeyboards u) e") auto
  then show ?thesis
    using create_frame [OF fresh(2)] fresh(5) by (cases dev) (auto simp: uhid_ok_def)
qed

lemma ensure_device_there:
  assumes "ensure_device pid a e uid u = (Some k, v, c)"
  shows "map_of (uhidKeyboards v) e = Some k \<and> devUniqueId k = uid"
  using assms
proof (cases rule: ensure_device_cases)
  case (fresh u1 c1 c2 w)
  then show ?thesis using create_frame [OF fresh(2)] by simp
qed simp

lemma report_ok: "uhid_ok pid u \<Longrightarrow> uhid_ok pid (fst (snd (snd (writeUhidKeyboardReport pid a e rpt d u))))"
  by (auto simp: report_by_device Let_def dest: ensure_device_ok
      split: if_splits option.splits prod.splits)

lemma step_ok: "uhid_ok pid (snd s) \<Longrightarrow> uhid_ok pid (snd (fst (uhid_step pid x s)))"
proof (cases s)
  case (Pair d u)
  assume "uhid_ok pid (snd s)"
  then show ?thesis
    using report_ok [of pid u] close_ok [of pid u]
    by (cases x) (auto simp: Pair case_prod_beta closeAllUhidKeyboards_def uhid_ok_def [of _ "_\<lparr>uhidKeyboards := []\<rparr>"])
qed

section \<open>Ledgers\<close>

text \<open>
  Something that calls acquire and give back and that the state holds: what every operation acquires
  it gives back or holds, and it gives back nothing else.
\<close>

locale uhid_ledger =
  fixes pid :: nat and got gone :: "uhid_call list \<Rightarrow> 'r multiset" and held :: "uhid \<Rightarrow> 'r multiset"
  assumes append: "got (c @ c') = got c + got c'" "gone (c @ c') = gone c + gone c'"
    and none: "got [] = {#}" "gone [] = {#}"
    and step: "uhid_ok pid u \<Longrightarrow> uhid_step pid x (d, u) = ((d', u'), c) \<Longrightarrow> got c + held u = gone c + held u'"
begin

lemma run:
  "uhid_ok pid u \<Longrightarrow> uhid_run pid xs (d, u) = ((d', u'), c) \<Longrightarrow> got c + held u = gone c + held u'"
proof (induction xs arbitrary: d u c)
  case Nil
  then show ?case by (simp add: none)
next
  case (Cons x xs)
  obtain d1 u1 c1 where s: "uhid_step pid x (d, u) = ((d1, u1), c1)" by (metis surj_pair)
  obtain c2 where r: "uhid_run pid xs (d1, u1) = ((d', u'), c2)" and c: "c = c1 @ c2"
    using Cons.prems(2) s by (auto simp: Let_def case_prod_beta) (metis prod.collapse)
  have "uhid_ok pid u1" using step_ok [of pid "(d, u)" x] Cons.prems(1) s by simp
  from Cons.IH [OF this r] step [OF Cons.prems(1) s] show ?case
    by (simp add: c append) (metis add.assoc add.commute)
qed

end

definition opened_fds :: "uhid_call list \<Rightarrow> int multiset" where
  "opened_fds calls = mset (concat (map (\<lambda>x. case x of Uhid_open fd \<Rightarrow> [fd] | _ \<Rightarrow> []) calls))"

definition closed_fds :: "uhid_call list \<Rightarrow> int multiset" where
  "closed_fds calls = mset (concat (map (\<lambda>x. case x of Uhid_close fd \<Rightarrow> [fd] | _ \<Rightarrow> []) calls))"

definition held_fds :: "uhid \<Rightarrow> int multiset" where
  "held_fds u = mset (map (\<lambda>e. devFd (snd e)) (uhidKeyboards u))"

definition made_ports :: "uhid_call list \<Rightarrow> string multiset" where
  "made_ports calls = mset (concat (map (\<lambda>x. case x of Associate p _ \<Rightarrow> [p] | _ \<Rightarrow> []) calls))"

definition removed_ports :: "uhid_call list \<Rightarrow> string multiset" where
  "removed_ports calls = mset (concat (map (\<lambda>x. case x of Dissociate p \<Rightarrow> [p] | _ \<Rightarrow> []) calls))"

definition held_ports :: "uhid \<Rightarrow> string multiset" where
  "held_ports u = mset (map (\<lambda>e. devPort (snd e)) (uhidKeyboards u))"

lemma ledger_calls [simp]:
  "opened_fds [] = {#}" "closed_fds [] = {#}" "made_ports [] = {#}" "removed_ports [] = {#}"
  "opened_fds (Uhid_open fd # c) = add_mset fd (opened_fds c)" "opened_fds (Uhid_write fd b # c) = opened_fds c"
  "opened_fds (Uhid_close fd # c) = opened_fds c" "opened_fds (Associate p i # c) = opened_fds c"
  "opened_fds (Dissociate p # c) = opened_fds c"
  "closed_fds (Uhid_open fd # c) = closed_fds c" "closed_fds (Uhid_write fd b # c) = closed_fds c"
  "closed_fds (Uhid_close fd # c) = add_mset fd (closed_fds c)" "closed_fds (Associate p i # c) = closed_fds c"
  "closed_fds (Dissociate p # c) = closed_fds c"
  "made_ports (Uhid_open fd # c) = made_ports c" "made_ports (Uhid_write fd b # c) = made_ports c"
  "made_ports (Uhid_close fd # c) = made_ports c" "made_ports (Associate p i # c) = add_mset p (made_ports c)"
  "made_ports (Dissociate p # c) = made_ports c"
  "removed_ports (Uhid_open fd # c) = removed_ports c" "removed_ports (Uhid_write fd b # c) = removed_ports c"
  "removed_ports (Uhid_close fd # c) = removed_ports c" "removed_ports (Associate p i # c) = removed_ports c"
  "removed_ports (Dissociate p # c) = add_mset p (removed_ports c)"
  by (simp_all add: opened_fds_def closed_fds_def made_ports_def removed_ports_def)

lemma ledger_append [simp]:
  "opened_fds (c @ c') = opened_fds c + opened_fds c'" "closed_fds (c @ c') = closed_fds c + closed_fds c'"
  "made_ports (c @ c') = made_ports c + made_ports c'" "removed_ports (c @ c') = removed_ports c + removed_ports c'"
  by (simp_all add: opened_fds_def closed_fds_def made_ports_def removed_ports_def)

lemma ledger_write [simp]:
  "opened_fds (snd (writeUhidEvent fd ev w)) = {#}" "closed_fds (snd (writeUhidEvent fd ev w)) = {#}"
  "made_ports (snd (writeUhidEvent fd ev w)) = {#}" "removed_ports (snd (writeUhidEvent fd ev w)) = {#}"
  by (simp_all add: writeUhidEvent_def split: option.split)

lemma mset_omap_put:
  "map_of m k = None \<Longrightarrow> mset (map f (omap_put k v m)) = add_mset (f (k, v)) (mset (map f m))"
  by (induction m) (auto split: if_splits)

lemma mset_omap_erase:
  "distinct (map fst m) \<Longrightarrow> map_of m k = Some v \<Longrightarrow>
   mset (map f m) = add_mset (f (k, v)) (mset (map f (omap_erase k m)))"
proof (induction m)
  case (Cons e m)
  then show ?case
    by (cases "fst e = k") (auto simp: map_of_eq_None_iff [symmetric] omap_erase_fresh image_iff)
qed simp

text \<open>The two ledgers of one operation, side by side.\<close>

definition settles :: "uhid \<Rightarrow> uhid_call list \<Rightarrow> uhid \<Rightarrow> bool" where
  "settles u c v \<longleftrightarrow>
     opened_fds c + held_fds u = closed_fds c + held_fds v \<and>
     made_ports c + held_ports u = removed_ports c + held_ports v"

lemma settles_refl: "settles u [] u"
  by (simp add: settles_def)

lemma settles_trans: "settles u c v \<Longrightarrow> settles v c' w \<Longrightarrow> settles u (c @ c') w"
  by (simp add: settles_def) (metis (no_types, lifting) add.assoc add.commute)

lemma settles_close: "uhid_ok pid u \<Longrightarrow> settles u (snd (closeUhidKeyboard e u)) (fst (closeUhidKeyboard e u))"
  using mset_omap_erase [OF ordered_keys_distinct, of "uhidKeyboards u" e _ "\<lambda>e. devFd (snd e)"]
    mset_omap_erase [OF ordered_keys_distinct, of "uhidKeyboards u" e _ "\<lambda>e. devPort (snd e)"]
  by (auto simp: settles_def held_fds_def held_ports_def closeUhidKeyboard_def closeUhidKeyboardDevice_def
      removeUniqueIdAssociation_def uhid_ok_def split: option.split)

lemma settles_close_devices:
  assumes "frameworkInputManager u"
  shows "let c = concat (map (\<lambda>(_, device). closeUhidKeyboardDevice device u) m) in
    opened_fds c = {#} \<and> made_ports c = {#} \<and> closed_fds c = mset (map (\<lambda>e. devFd (snd e)) m) \<and>
    removed_ports c = mset (map (\<lambda>e. devPort (snd e)) m)"
  using assms
  by (induction m) (auto simp: Let_def closeUhidKeyboardDevice_def removeUniqueIdAssociation_def)

lemma settles_close_all: "uhid_ok pid u \<Longrightarrow> settles u (snd (closeAllUhidKeyboards u)) (fst (closeAllUhidKeyboards u))"
  using settles_close_devices [of u "uhidKeyboards u"]
  by (cases "uhidKeyboards u = []")
    (auto simp: Let_def closeAllUhidKeyboards_def uhid_ok_def settles_def held_fds_def held_ports_def)

lemma settles_create:
  assumes "createUhidKeyboard pid a e uid u = (dev, w, c)" and "map_of (uhidKeyboards u) e = None"
  shows "settles u c (case dev of None \<Rightarrow> w | Some k \<Rightarrow> w\<lparr>uhidKeyboards := omap_put e k (uhidKeyboards w)\<rparr>)"
  using assms
  by (auto simp: createUhidKeyboard_def Let_def case_prod_beta settles_def held_fds_def held_ports_def
      removeUniqueIdAssociation_def mset_omap_put simp del: map_eq_conv mset_map split: if_splits option.splits)

lemma settles_ensure:
  assumes "ensure_device pid a e uid u = (dev, v, c)" and "uhid_ok pid u"
  shows "settles u c v"
  using assms(1)
proof (cases rule: ensure_device_cases)
  case there
  then show ?thesis by (simp add: settles_refl)
next
  case (fresh u1 c1 c2 w)
  have "settles u c1 u1"
    using fresh(1) settles_close [OF assms(2), of e]
    by (cases "map_of (uhidKeyboards u) e") (auto simp: settles_refl)
  then show ?thesis
    using settles_trans [OF _ settles_create [OF fresh(2,4)]] by (simp add: fresh(3,5))
qed

lemma settles_report:
  assumes "uhid_ok pid u"
  shows "settles u (snd (snd (snd (writeUhidKeyboardReport pid a e rpt d u))))
    (fst (snd (snd (writeUhidKeyboardReport pid a e rpt d u))))"
proof -
  have w: "settles v (snd (writeUhidEvent fd ev n)) v" for v fd ev n
    by (simp add: settles_def)
  obtain i d1 where i: "displayUniqueIdFor a e d = (i, d1)" by fastforce
  show ?thesis
  proof (cases i)
    case None
    then show ?thesis by (simp add: report_by_device i settles_refl)
  next
    case (Some uid)
    obtain dev v c where en: "ensure_device pid a e uid u = (dev, v, c)" by (metis surj_pair)
    note s = settles_ensure [OF en assms]
    show ?thesis
      using s settles_trans [OF s w]
      by (cases dev; cases "buildUhidInput2 rpt")
        (simp_all add: report_by_device i Some en settles_refl case_prod_beta)
  qed
qed

lemma settles_step:
  "uhid_ok pid u \<Longrightarrow> uhid_step pid x (d, u) = ((d', u'), c) \<Longrightarrow> settles u c u'"
  using settles_report [of pid u] settles_close [of pid u] settles_close_all [of pid u]
  by (cases x) (auto simp: case_prod_beta settles_refl)

interpretation fds: uhid_ledger pid opened_fds closed_fds held_fds for pid
  by unfold_locales (simp_all add: settles_step [unfolded settles_def])

interpretation ports: uhid_ledger pid made_ports removed_ports held_ports for pid
  by unfold_locales (simp_all add: settles_step [unfolded settles_def])

section \<open>Where reports go\<close>

text \<open>The association that the input manager has for a port after some calls.\<close>

definition associate :: "string \<Rightarrow> uhid_call \<Rightarrow> string option \<Rightarrow> string option" where
  "associate p x s =
     (case x of
        Associate q i \<Rightarrow> if q = p then Some i else s
      | Dissociate q \<Rightarrow> if q = p then None else s
      | _ \<Rightarrow> s)"

definition association :: "uhid_call list \<Rightarrow> string \<Rightarrow> string option" where
  "association calls p = fold (associate p) calls None"

definition touches :: "uhid_call list \<Rightarrow> string \<Rightarrow> bool" where
  "touches calls p \<longleftrightarrow> list_ex (\<lambda>x. case x of Associate q _ \<Rightarrow> q = p | Dissociate q \<Rightarrow> q = p | _ \<Rightarrow> False) calls"

definition routed :: "uhid_call list \<Rightarrow> uhid \<Rightarrow> bool" where
  "routed calls u \<longleftrightarrow>
     (\<forall>e dev. map_of (uhidKeyboards u) e = Some dev \<longrightarrow> association calls (devPort dev) = Some (devUniqueId dev))"

lemma fold_associate_untouched: "\<not> touches c p \<Longrightarrow> fold (associate p) c s = s"
  by (induction c arbitrary: s) (auto simp: touches_def associate_def split: uhid_call.splits)

lemma association_untouched: "\<not> touches c' p \<Longrightarrow> association (c @ c') p = association c p"
  by (simp add: association_def fold_associate_untouched)

lemma association_made: "\<not> touches c'' p \<Longrightarrow> association (c @ c' @ Associate p i # c'') p = Some i"
  by (simp add: association_def fold_associate_untouched) (simp add: associate_def)

lemma touches_simps [simp]:
  "\<not> touches [] p" "touches (c @ c') p \<longleftrightarrow> touches c p \<or> touches c' p"
  "touches (Associate q i # c) p \<longleftrightarrow> q = p \<or> touches c p" "touches (Dissociate q # c) p \<longleftrightarrow> q = p \<or> touches c p"
  "touches (Uhid_open fd # c) p \<longleftrightarrow> touches c p" "touches (Uhid_write fd b # c) p \<longleftrightarrow> touches c p"
  "touches (Uhid_close fd # c) p \<longleftrightarrow> touches c p"
  by (simp_all add: touches_def)

lemma touches_write [simp]: "\<not> touches (snd (writeUhidEvent fd ev w)) p"
  by (simp add: writeUhidEvent_def split: option.split)

lemma touches_close:
  "uhid_ok pid u \<Longrightarrow> touches (snd (closeUhidKeyboard e u)) p \<Longrightarrow> p = input_port pid e"
  by (auto simp: closeUhidKeyboard_def closeUhidKeyboardDevice_def removeUniqueIdAssociation_def uhid_ok_def
      split: option.splits if_splits)

lemma touches_create:
  "createUhidKeyboard pid a e uid u = (dev, w, c) \<Longrightarrow> touches c p \<Longrightarrow> p = input_port pid e"
  by (auto simp: createUhidKeyboard_def Let_def case_prod_beta removeUniqueIdAssociation_def
      split: if_splits option.splits)

lemma create_associates:
  "createUhidKeyboard pid a e uid u = (Some k, w, c) \<Longrightarrow>
   \<exists>c'. c = c' @ [Associate (input_port pid e) uid]"
  by (auto simp: createUhidKeyboard_def Let_def case_prod_beta split: if_splits option.splits)

lemma decimal_inject: "decimal n = decimal m \<Longrightarrow> n = m"
  by (drule arg_cong [of _ _ digits_value]) simp

lemma decimal_int_inject:
  assumes "decimal_int i = decimal_int j"
  shows "i = j"
proof -
  have n: "CHR ''-'' # s \<noteq> decimal k" "decimal k \<noteq> CHR ''-'' # s" for s k
    using take1_decimal [of k] by (metis insert_iff take_Suc_Cons take0 One_nat_def)+
  show ?thesis
    using assms by (cases "i < 0"; cases "j < 0") (auto simp: decimal_int_def n dest!: decimal_inject)
qed

lemma input_port_inject: "input_port pid e = input_port pid e' \<Longrightarrow> e = e'"
  unfolding input_port_def by (simp only: append_same_eq same_append_eq) (rule decimal_int_inject)

text \<open>An operation on one display keeps the other devices, and their ports alone.\<close>

lemma routed_other:
  assumes "routed c u" and "\<And>p. touches c' p \<Longrightarrow> p = input_port pid e"
    and "\<And>e'. e' \<noteq> e \<Longrightarrow> map_of (uhidKeyboards v) e' = map_of (uhidKeyboards u) e'"
    and "\<And>k. map_of (uhidKeyboards v) e = Some k \<Longrightarrow> association (c @ c') (devPort k) = Some (devUniqueId k)"
    and "uhid_ok pid u"
  shows "routed (c @ c') v"
  unfolding routed_def
proof (intro allI impI)
  fix e' dev
  assume dev: "map_of (uhidKeyboards v) e' = Some dev"
  show "association (c @ c') (devPort dev) = Some (devUniqueId dev)"
  proof (cases "e' = e")
    case False
    then have u: "map_of (uhidKeyboards u) e' = Some dev" using assms(3) dev by simp
    then have "devPort dev = input_port pid e'" using assms(5) by (simp add: uhid_ok_def)
    then have "\<not> touches c' (devPort dev)" using assms(2) input_port_inject False by metis
    then show ?thesis using association_untouched assms(1) u by (simp add: routed_def)
  qed (use assms(4) dev in simp)
qed

lemma routed_close:
  assumes "routed c u" and "uhid_ok pid u"
  shows "routed (c @ snd (closeUhidKeyboard e u)) (fst (closeUhidKeyboard e u))"
proof (rule routed_other [OF assms(1)])
  show "\<And>p. touches (snd (closeUhidKeyboard e u)) p \<Longrightarrow> p = input_port pid e"
    by (rule touches_close [OF assms(2)])
qed (use assms(2) close_gone [of e u] in \<open>auto simp: closeUhidKeyboard_def split: option.split\<close>)

lemma routed_create:
  assumes "routed c u" and "uhid_ok pid u" and cr: "createUhidKeyboard pid a e uid u = (dev, w, c')"
    and none: "map_of (uhidKeyboards u) e = None"
  shows "routed (c @ c') (case dev of None \<Rightarrow> w | Some k \<Rightarrow> w\<lparr>uhidKeyboards := omap_put e k (uhidKeyboards w)\<rparr>)"
proof (rule routed_other [OF assms(1)])
  show "\<And>p. touches c' p \<Longrightarrow> p = input_port pid e" by (rule touches_create [OF cr])
  fix k
  assume "map_of (uhidKeyboards (case dev of None \<Rightarrow> w | Some k \<Rightarrow> w\<lparr>uhidKeyboards := omap_put e k (uhidKeyboards w)\<rparr>)) e = Some k"
  then have k: "dev = Some k" using create_frame [OF cr] none by (cases dev) auto
  then show "association (c @ c') (devPort k) = Some (devUniqueId k)"
    using create_associates [OF cr [unfolded k]] create_frame [OF cr] association_made [of "[]" _ c]
    by fastforce
qed (use create_frame [OF cr] assms(2) in \<open>auto split: option.split\<close>)

lemma routed_ensure:
  assumes "routed c u" and "uhid_ok pid u" and "ensure_device pid a e uid u = (dev, v, c')"
  shows "routed (c @ c') v"
  using assms(3)
proof (cases rule: ensure_device_cases)
  case there
  then show ?thesis using assms(1) by simp
next
  case (fresh u1 c1 c2 w)
  have "routed (c @ c1) u1" "uhid_ok pid u1"
    using fresh(1) routed_close [OF assms(1,2), of e] close_ok [OF assms(2), of e] assms(1,2)
    by (cases "map_of (uhidKeyboards u) e"; auto)+
  then show ?thesis using routed_create [OF _ _ fresh(2,4), of "c @ c1"] by (simp add: fresh(3,5))
qed

lemma routed_untouched: "routed c u \<Longrightarrow> \<forall>p. \<not> touches c' p \<Longrightarrow> routed (c @ c') u"
  by (simp add: routed_def association_untouched)

lemma routed_report:
  assumes "routed c u" and "uhid_ok pid u"
  shows "routed (c @ snd (snd (snd (writeUhidKeyboardReport pid a e rpt d u))))
    (fst (snd (snd (writeUhidKeyboardReport pid a e rpt d u))))"
proof -
  obtain i d1 where i: "displayUniqueIdFor a e d = (i, d1)" by fastforce
  show ?thesis
  proof (cases i)
    case None
    then show ?thesis using assms(1) by (simp add: report_by_device i)
  next
    case (Some uid)
    obtain dev v c' where en: "ensure_device pid a e uid u = (dev, v, c')" by (metis surj_pair)
    note r = routed_ensure [OF assms en]
    show ?thesis
      using assms(1) r routed_untouched [OF r, of "snd (writeUhidEvent fd ev n)" for fd ev n]
      by (cases dev; cases "buildUhidInput2 rpt")
        (simp_all add: report_by_device i Some en case_prod_beta)
  qed
qed

lemma routed_step:
  "routed c u \<Longrightarrow> uhid_ok pid u \<Longrightarrow> uhid_step pid x (d, u) = ((d', u'), c') \<Longrightarrow> routed (c @ c') u'"
  using routed_report [of c u pid] routed_close [of c u pid]
  by (cases x) (auto simp: case_prod_beta closeAllUhidKeyboards_def routed_def [of _ "_\<lparr>uhidKeyboards := []\<rparr>"])

lemma routed_run:
  "routed c u \<Longrightarrow> uhid_ok pid u \<Longrightarrow> uhid_run pid xs (d, u) = ((d', u'), c') \<Longrightarrow>
   routed (c @ c') u' \<and> uhid_ok pid u'"
proof (induction xs arbitrary: d u c c')
  case (Cons x xs)
  obtain d1 u1 c1 where s: "uhid_step pid x (d, u) = ((d1, u1), c1)" by (metis surj_pair)
  obtain c2 where r: "uhid_run pid xs (d1, u1) = ((d', u'), c2)" and c: "c' = c1 @ c2"
    using Cons.prems(3) s by (auto simp: Let_def case_prod_beta) (metis prod.collapse)
  have "uhid_ok pid u1" using step_ok [of pid "(d, u)" x] Cons.prems(2) s by simp
  from Cons.IH [OF routed_step [OF Cons.prems(1,2) s] this r] show ?case by (simp add: c)
qed simp

lemma report_written:
  assumes "writeUhidKeyboardReport pid a e rpt d u = (True, d', u', c)"
  shows "\<exists>k. map_of (uhidKeyboards u') e = Some k \<and> displayName a = Some (devUniqueId k) \<and>
    length rpt = HID_KEYBOARD_REPORT_BYTES \<and>
    last c = Uhid_write (devFd k) (le_bytes 4 UHID_INPUT2 @ le_bytes 2 (of_nat (length rpt) :: u16) @ rpt)"
proof -
  obtain i d1 where i: "displayUniqueIdFor a e d = (i, d1)" by fastforce
  then obtain uid where uid: "i = Some uid" "0 < e" using assms by (cases i) (auto simp: report_by_device split: if_splits)
  obtain dev v c' where en: "ensure_device pid a e uid u = (dev, v, c')" by (metis surj_pair)
  have name: "displayName a = Some uid"
    using i uid by (auto simp: displayUniqueIdFor_def Let_def case_prod_beta split: if_splits option.splits)
  obtain k where k: "dev = Some k" "length rpt = HID_KEYBOARD_REPORT_BYTES"
    using assms uid by (cases dev; cases "buildUhidInput2 rpt")
      (auto simp: report_by_device i en buildUhidInput2_def split: if_splits)
  then show ?thesis
    using assms uid name ensure_device_there [OF en [unfolded k]]
    by (auto simp: report_by_device i en buildUhidInput2_def writeUhidEvent_def split: option.splits)
qed

section \<open>Properties\<close>

definition sample_answers :: uhid_answers where
  "sample_answers =
     \<lparr>hasContext = True, displayName = Some ''virtual:5'', hasInputManager = True, opened = Some 9,
      createWrote = Some 343, associates = True, drainerStarts = True, reportWrote = Some 14\<rparr>"

lemma length_create: "length (buildUhidCreate2 p) = 343"
  by (simp add: buildUhidCreate2_def Let_def HID_KEYBOARD_REPORT_DESCRIPTOR_def)



end
