(* ===== verification/Agent_Input.thy ===== *)
theory Agent_Input
  imports Agent_Pointer Agent_Keyboard
begin

text \<open>
  The input connection of \<^verbatim>\<open>shell/guest_agent/MacMuAgent.java\<close>: the lines that the shell sends are
  read, each is carried out, and the end of a connection ends every gesture and every keyboard.

  \<^verbatim>\<open>Float.parseFloat\<close> is an argument: coordinates are of any type. A line that raises an
  exception is given up where the exception is raised; the connection goes on.
\<close>

section \<open>Lines\<close>

definition carriage_return :: char where "carriage_return = CHR 0x0D"

text \<open>
  \<^verbatim>\<open>BufferedReader.readLine\<close> until it has no complete line: the lines, and the text behind the
  last of them.
\<close>

fun java_lines :: "string \<Rightarrow> string \<Rightarrow> string list \<times> string" where
  "java_lines cur [] = ([], cur)"
| "java_lines cur (c # s) =
     (if c = newline then (let (ls, r) = java_lines [] s in (cur # ls, r))
      else if c = carriage_return then
        (let (ls, r) = (case s of
             [] \<Rightarrow> ([], [])
           | d # t \<Rightarrow> if d = newline then java_lines [] t else java_lines [] s) in (cur # ls, r))
      else java_lines (cur @ [c]) s)"

text \<open>The text that is left when a stream ends is a line as well; a stream that breaks loses it.\<close>

definition lines_read :: "bool \<Rightarrow> string \<Rightarrow> string list" where
  "lines_read broken s = (let (ls, r) = java_lines [] s in if broken \<or> r = [] then ls else ls @ [r])"

section \<open>The agent\<close>

record 'f guest_agent =
  pointer :: "'f pointer"
  displays :: display_ids
  keyboards :: uhid
  agentPid :: nat
  keyAnswers :: "nat \<Rightarrow> uhid_answers"
  keyReports :: nat
  uhidCalls :: "uhid_call list"
  written :: string

type_synonym 'f agent_op = "'f guest_agent \<Rightarrow> bool \<times> 'f guest_agent"

definition with_parsed :: "'b option \<Rightarrow> ('b \<Rightarrow> 'f agent_op) \<Rightarrow> 'f agent_op" where
  "with_parsed r k a = (case r of None \<Rightarrow> (False, a) | Some x \<Rightarrow> k x a)"

definition on_display :: "int \<Rightarrow> (int \<Rightarrow> 'f agent_op) \<Rightarrow> 'f agent_op" where
  "on_display e k a = (let (i, d) = resolveAndroidDisplayId e (displays a) in k i (a\<lparr>displays := d\<rparr>))"

definition on_pointer :: "'f pointer_op \<Rightarrow> 'f agent_op" where
  "on_pointer f a = (let (ok, p) = f (pointer a) in (ok, a\<lparr>pointer := p\<rparr>))"

definition key_report :: "int \<Rightarrow> bytes \<Rightarrow> 'f agent_op" where
  "key_report e rpt a =
     (let (ok, d, u, c) =
        writeUhidKeyboardReport (agentPid a) (keyAnswers a (keyReports a)) e rpt (displays a) (keyboards a) in
      (ok, a\<lparr>displays := d, keyboards := u, keyReports := Suc (keyReports a), uhidCalls := uhidCalls a @ c\<rparr>))"

definition handleLine :: "(string \<Rightarrow> 'f option) \<Rightarrow> string \<Rightarrow> 'f agent_op" where
  "handleLine parseFloat line a =
     (if line = [] then (True, a)
      else
        let fields = java_split line; n = length fields; f = (\<lambda>i. fields ! i) in
        if n = 1 \<and> f 0 = ''v'' then (True, a\<lparr>written := written a @ ''ok'' @ [newline]\<rparr>)
        else if n = 4 \<and> f 0 = ''h'' then
          with_parsed (parseInt (f 1)) (\<lambda>e. on_display e (\<lambda>displayId.
          with_parsed (parseFloat (f 2)) (\<lambda>x. with_parsed (parseFloat (f 3)) (\<lambda>y.
          on_pointer (injectHover displayId x y))))) a
        else if n = 1 \<and> f 0 = ''e'' then on_pointer injectHoverExit a
        else if n = 6 \<and> f 0 = ''s'' then
          with_parsed (parseInt (f 1)) (\<lambda>e. on_display e (\<lambda>displayId.
          with_parsed (parseFloat (f 2)) (\<lambda>x. with_parsed (parseFloat (f 3)) (\<lambda>y.
          with_parsed (parseInt (f 4)) (\<lambda>hscroll. with_parsed (parseInt (f 5)) (\<lambda>vscroll.
          on_pointer (injectScroll displayId x y hscroll vscroll))))))) a
        else if n = 6 \<and> f 0 = ''t'' then
          with_parsed (parseInt (f 1)) (\<lambda>e. on_display e (\<lambda>displayId.
          with_parsed (parseInt (f 2)) (\<lambda>pointerId.
          with_parsed (parseFloat (f 4)) (\<lambda>x. with_parsed (parseFloat (f 5)) (\<lambda>y.
          on_pointer (injectTouch displayId pointerId (f 3) x y)))))) a
        else if n = 5 \<and> f 0 = ''m'' then
          with_parsed (parseInt (f 1)) (\<lambda>e. on_display e (\<lambda>displayId.
          with_parsed (parseFloat (f 2)) (\<lambda>x. with_parsed (parseFloat (f 3)) (\<lambda>y.
          with_parsed (parseInt (f 4)) (\<lambda>buttons.
          on_pointer (injectMouseMove displayId x y buttons)))))) a
        else if n = 5 \<and> f 0 = ''b'' then
          with_parsed (parseInt (f 1)) (\<lambda>e. on_display e (\<lambda>displayId.
          with_parsed (parseFloat (f 2)) (\<lambda>x. with_parsed (parseFloat (f 3)) (\<lambda>y.
          with_parsed (parseInt (f 4)) (\<lambda>buttons.
          on_pointer (injectMouseButton displayId x y buttons)))))) a
        else if n = 3 \<and> f 0 = ''k'' then
          with_parsed (parseInt (f 1)) (\<lambda>e.
          with_parsed (decodeHex (f 2) HID_KEYBOARD_REPORT_BYTES) (\<lambda>rpt.
          key_report e rpt)) a
        else (True, a))"

definition handle_lines :: "(string \<Rightarrow> 'f option) \<Rightarrow> string list \<Rightarrow> 'f guest_agent \<Rightarrow> 'f guest_agent" where
  "handle_lines parseFloat ls a = fold (\<lambda>l b. snd (handleLine parseFloat l b)) ls a"

definition finish_connection :: "'f guest_agent \<Rightarrow> 'f guest_agent" where
  "finish_connection a =
     (let b = snd (on_pointer resetPointerState a); (u, c) = closeAllUhidKeyboards (keyboards b) in
      b\<lparr>keyboards := u, uhidCalls := uhidCalls b @ c\<rparr>)"

definition handleHost :: "(string \<Rightarrow> 'f option) \<Rightarrow> bool \<Rightarrow> string \<Rightarrow> 'f guest_agent \<Rightarrow> 'f guest_agent" where
  "handleHost parseFloat broken s a =
     finish_connection (handle_lines parseFloat (lines_read broken s) a)"

text \<open>The connections one after the other.\<close>

definition agent_run :: "(string \<Rightarrow> 'f option) \<Rightarrow> (bool \<times> string) list \<Rightarrow> 'f guest_agent \<Rightarrow> 'f guest_agent" where
  "agent_run parseFloat conns a = fold (\<lambda>(broken, s). handleHost parseFloat broken s) conns a"

definition new_agent ::
  "'f \<Rightarrow> (nat \<Rightarrow> int) \<Rightarrow> (nat \<Rightarrow> bool) \<Rightarrow> (nat \<Rightarrow> string list option) \<Rightarrow> nat \<Rightarrow> (nat \<Rightarrow> uhid_answers) \<Rightarrow> 'f guest_agent" where
  "new_agent zero clock outcome dump pid answers =
     \<lparr>pointer = new_pointer zero clock outcome,
      displays = \<lparr>displayIdCache = Map.empty, dumps = dump, dumpCalls = 0\<rparr>,
      keyboards = new_uhid, agentPid = pid, keyAnswers = answers, keyReports = 0, uhidCalls = [], written = []\<rparr>"

section \<open>Invariants of the pointer\<close>

text \<open>
  A property of the pointer that every operation on it keeps is kept by every line and by every
  connection.
\<close>

locale pointer_invariant =
  fixes I :: "'f pointer \<Rightarrow> bool"
  assumes hover: "I p \<Longrightarrow> I (snd (injectHover d x y p))"
    and hover_exit: "I p \<Longrightarrow> I (snd (injectHoverExitLocked p))"
    and touch: "I p \<Longrightarrow> I (snd (injectTouch d i ph x y p))"
    and move: "I p \<Longrightarrow> I (snd (injectMouseMove d x y b p))"
    and button: "I p \<Longrightarrow> I (snd (injectMouseButton d x y b p))"
    and scroll: "I p \<Longrightarrow> I (snd (injectScroll d x y h v p))"
    and reset: "I p \<Longrightarrow> I (snd (resetPointerState p))"
begin

lemma on_pointer_keeps: "(\<And>p. I p \<Longrightarrow> I (snd (f p))) \<Longrightarrow> I (pointer a) \<Longrightarrow> I (pointer (snd (on_pointer f a)))"
  by (simp add: on_pointer_def case_prod_beta)

lemma on_display_keeps:
  "(\<And>i b. I (pointer b) \<Longrightarrow> I (pointer (snd (k i b)))) \<Longrightarrow> I (pointer a) \<Longrightarrow> I (pointer (snd (on_display e k a)))"
  by (simp add: on_display_def case_prod_beta)

lemma with_parsed_keeps:
  "(\<And>x b. I (pointer b) \<Longrightarrow> I (pointer (snd (k x b)))) \<Longrightarrow> I (pointer a) \<Longrightarrow> I (pointer (snd (with_parsed r k a)))"
  by (simp add: with_parsed_def split: option.split)

lemma key_report_keeps: "I (pointer a) \<Longrightarrow> I (pointer (snd (key_report e rpt a)))"
  by (simp add: key_report_def case_prod_beta)

lemma line_keeps: "I (pointer a) \<Longrightarrow> I (pointer (snd (handleLine pf l a)))"
  unfolding handleLine_def Let_def injectHoverExit_def
  by (auto intro!: on_pointer_keeps on_display_keeps with_parsed_keeps key_report_keeps
      hover hover_exit touch move button scroll)

lemma lines_keep: "I (pointer a) \<Longrightarrow> I (pointer (handle_lines pf ls a))"
  unfolding handle_lines_def by (induction ls arbitrary: a) (simp_all add: line_keeps)

lemma finish_keeps: "I (pointer a) \<Longrightarrow> I (pointer (finish_connection a))"
  by (simp add: finish_connection_def case_prod_beta Let_def on_pointer_keeps reset)

lemma host_keeps: "I (pointer a) \<Longrightarrow> I (pointer (handleHost pf broken s a))"
  by (simp add: handleHost_def finish_keeps lines_keep)

lemma run_keeps: "I (pointer a) \<Longrightarrow> I (pointer (agent_run pf conns a))"
  unfolding agent_run_def by (induction conns arbitrary: a) (auto simp: host_keeps)

end

interpretation hovers: pointer_invariant hover_in_step
  by unfold_locales (simp_all add: hover_in_step_hover hover_exit_in_step hover_in_step_touch
      hover_in_step_move hover_in_step_button hover_in_step_scroll hover_in_step_reset)

lemma outcome_kept [simp]:
  "injectOutcome (snd (injectHover d x y p)) = injectOutcome p"
  "injectOutcome (snd (injectHoverExitLocked p)) = injectOutcome p"
  "injectOutcome (snd (injectTouch d i ph x y p)) = injectOutcome p"
  "injectOutcome (snd (injectMouseButton d x y b p)) = injectOutcome p"
  "injectOutcome (snd (injectScroll d x y h v p)) = injectOutcome p"
  "injectOutcome (snd (resetPointerState p)) = injectOutcome p"
  by (simp_all add: pointer_ops injectHover_def injectTouch_def injectMouseButton_def resetPointerState_def)

lemma outcome_kept_move [simp]: "injectOutcome (snd (injectMouseMove d x y b p)) = injectOutcome p"
  by (simp add: injectMouseMove_def) (simp add: pointer_ops)

interpretation taking: pointer_invariant all_taken
  by unfold_locales (simp_all add: all_taken_def)

lemma touch_in_step_exit: "touch_in_step p \<Longrightarrow> touch_in_step (snd (injectHoverExitLocked p))"
  by (auto simp: pointer_ops touch_in_step_def touch_of_def press_step_def)

interpretation touching: pointer_invariant "\<lambda>p. touch_in_step p \<and> all_taken p"
  by unfold_locales (simp_all add: touch_in_step_hover touch_in_step_exit touch_in_step_touch
      touch_in_step_move touch_in_step_button touch_in_step_scroll touch_in_step_reset
      taking.hover taking.hover_exit taking.touch taking.move taking.button taking.scroll taking.reset)

lemma host_at_rest: "all_taken (pointer a) \<Longrightarrow> at_rest (pointer (handleHost pf broken s a))"
  using taking.lines_keep [of a pf "lines_read broken s"]
  by (simp add: handleHost_def finish_connection_def on_pointer_def case_prod_beta Let_def reset_at_rest)

lemma run_at_rest:
  "all_taken (pointer a) \<Longrightarrow> at_rest (pointer a) \<Longrightarrow> at_rest (pointer (agent_run pf conns a))"
  unfolding agent_run_def
  by (induction conns arbitrary: a) (auto simp: host_at_rest taking.host_keeps)

lemma new_pointer_in_step [simp]:
  "hover_in_step (new_pointer z clock outcome)" "touch_in_step (new_pointer z clock outcome)"
  "at_rest (new_pointer z clock outcome)" "all_taken (new_pointer z clock outcome) \<longleftrightarrow> (\<forall>n. outcome n)"
  by (simp_all add: new_pointer_def hover_in_step_def hover_of_def touch_in_step_def touch_of_def at_rest_def
      all_taken_def)

lemma new_agent_pointer [simp]: "pointer (new_agent z clock outcome dump pid ans) = new_pointer z clock outcome"
  by (simp add: new_agent_def)

lemma streams_legal:
  "let p = pointer (agent_run pf conns (new_agent z clock outcome dump pid ans)) in
   runs hover_step None (taken p) \<noteq> None \<and>
   ((\<forall>n. outcome n) \<longrightarrow>
      runs hover_step None (taken p) = Some None \<and>
      runs (press_step SOURCE_TOUCHSCREEN) None (taken p) = Some None \<and> at_rest p)"
proof -
  let ?a = "new_agent z clock outcome dump pid ans"
  let ?p = "pointer (agent_run pf conns ?a)"
  have h: "hover_in_step ?p" by (rule hovers.run_keeps) simp
  have t: "touch_in_step ?p \<and> at_rest ?p" if "\<forall>n. outcome n"
    using touching.run_keeps [of ?a pf conns] run_at_rest [of ?a pf conns] that by simp
  show ?thesis
    using h t by (auto simp: Let_def hover_in_step_def touch_in_step_def hover_of_def touch_of_def at_rest_def)
qed

section \<open>Presses of the mouse\<close>

text \<open>A line that moves the mouse with a button held, and traffic in which a press comes first.\<close>

definition drag_line :: "string \<Rightarrow> bool" where
  "drag_line l \<longleftrightarrow>
     (let fields = java_split l in
      length fields = 5 \<and> fields ! 0 = ''m'' \<and> (case parseInt (fields ! 4) of None \<Rightarrow> False | Some b \<Rightarrow> b \<noteq> 0))"

fun presses_first :: "(string \<Rightarrow> 'f option) \<Rightarrow> string list \<Rightarrow> 'f guest_agent \<Rightarrow> bool" where
  "presses_first pf [] a \<longleftrightarrow> True"
| "presses_first pf (l # ls) a \<longleftrightarrow>
     (drag_line l \<longrightarrow> mouseButtonState (pointer a) \<noteq> 0) \<and> presses_first pf ls (snd (handleLine pf l a))"

lemma mouse_in_step_exit: "mouse_in_step p \<Longrightarrow> mouse_in_step (snd (injectHoverExitLocked p))"
  by (auto simp: pointer_ops mouse_in_step_def mouse_of_def press_step_def)

lemma pressed_drag_keeps:
  assumes "mouse_in_step (pointer a)" and "b = 0 \<or> mouseButtonState (pointer a) \<noteq> 0"
  shows "mouse_in_step (pointer (snd (on_pointer (injectMouseMove d x y b) (a\<lparr>displays := ds\<rparr>))))"
  using mouse_in_step_move [OF assms] by (simp add: on_pointer_def case_prod_beta)

text \<open>Lines other than drags keep what the other operations keep.\<close>

lemma line_keeps_unless_move:
  assumes "\<not> (length (java_split l) = 5 \<and> java_split l ! 0 = ''m'')" and "I (pointer a)"
    and "\<And>p d x y. I p \<Longrightarrow> I (snd (injectHover d x y p))" and "\<And>p. I p \<Longrightarrow> I (snd (injectHoverExitLocked p))"
    and "\<And>p d i ph x y. I p \<Longrightarrow> I (snd (injectTouch d i ph x y p))"
    and "\<And>p d x y b. I p \<Longrightarrow> I (snd (injectMouseButton d x y b p))"
    and "\<And>p d x y h v. I p \<Longrightarrow> I (snd (injectScroll d x y h v p))"
  shows "I (pointer (snd (handleLine pf l a)))"
  using assms(1,2)
  unfolding handleLine_def Let_def injectHoverExit_def
  by (auto simp: with_parsed_def on_display_def on_pointer_def key_report_def case_prod_beta assms(3-7) split: option.split)

lemma mouse_line_keeps:
  assumes "mouse_in_step (pointer a)" and "all_taken (pointer a)"
    and "drag_line l \<Longrightarrow> mouseButtonState (pointer a) \<noteq> 0"
  shows "mouse_in_step (pointer (snd (handleLine pf l a)))"
proof (cases "length (java_split l) = 5 \<and> java_split l ! 0 = ''m''")
  case True
  then have "l \<noteq> []" by (auto simp: java_split_def)
  have "b = 0 \<or> mouseButtonState (pointer a) \<noteq> 0" if "parseInt (java_split l ! 4) = Some b" for b
    using assms(3) True that by (auto simp: drag_line_def)
  then show ?thesis
    using True \<open>l \<noteq> []\<close> assms(1) pressed_drag_keeps [OF assms(1)]
    by (simp add: handleLine_def with_parsed_def on_display_def Let_def case_prod_beta split: option.split)
next
  case False
  then have "mouse_in_step (pointer (snd (handleLine pf l a))) \<and> all_taken (pointer (snd (handleLine pf l a)))"
    using assms(1,2)
    by (intro line_keeps_unless_move [of l "\<lambda>p. mouse_in_step p \<and> all_taken p"])
      (simp_all add: mouse_in_step_hover mouse_in_step_exit mouse_in_step_touch mouse_in_step_button
        mouse_in_step_scroll taking.hover taking.hover_exit taking.touch taking.button taking.scroll)
  then show ?thesis by simp
qed

lemma mouse_lines_keep:
  "mouse_in_step (pointer a) \<Longrightarrow> all_taken (pointer a) \<Longrightarrow> presses_first pf ls a \<Longrightarrow>
   mouse_in_step (pointer (handle_lines pf ls a))"
  unfolding handle_lines_def
  by (induction ls arbitrary: a) (simp_all add: mouse_line_keeps taking.line_keeps)

lemma mouse_host_keeps:
  assumes "mouse_in_step (pointer a)" and "all_taken (pointer a)" and "presses_first pf (lines_read broken s) a"
  shows "runs (press_step SOURCE_MOUSE) None (taken (pointer (handleHost pf broken s a))) = Some None"
proof -
  let ?p = "pointer (handleHost pf broken s a)"
  have "mouse_in_step ?p"
    using mouse_in_step_reset [OF mouse_lines_keep [OF assms]]
    by (simp add: handleHost_def finish_connection_def on_pointer_def case_prod_beta Let_def)
  then show ?thesis using host_at_rest [OF assms(2)] by (simp add: mouse_in_step_def mouse_of_def at_rest_def)
qed

section \<open>Properties\<close>

text \<open>
  (C14) Whatever the shell sends and however its connections end, the hover events that Android takes
  are legal: a hover is entered, moves and is left on the display it was entered on, even when
  injections fail. If no injection fails, hovers and touches are complete after every connection: a
  touch goes down, moves and comes up or is cancelled with the time at which it went down, none is
  left open, and the agent remembers none.
\<close>

theorem pointer_streams_legal:
  "let p = pointer (agent_run parseFloat conns (new_agent z clock outcome dump pid ans)) in
   runs hover_step None (taken p) \<noteq> None \<and>
   ((\<forall>n. outcome n) \<longrightarrow>
      runs hover_step None (taken p) = Some None \<and>
      runs (press_step SOURCE_TOUCHSCREEN) None (taken p) = Some None \<and> at_rest p)"
  by (rule streams_legal)

theorem pointer_streams_legal_witness:
  "let p = pointer (agent_run Some [(False, ''h 0 5 6'' @ [newline]), (True, ''t 0 1 b 5 6'' @ [newline])]
         (new_agent [] (\<lambda>n. int n) (\<lambda>_. True) (\<lambda>_. None) 1 (\<lambda>_. sample_answers))) in
   runs hover_step None (taken p) = Some None \<and> runs (press_step SOURCE_TOUCHSCREEN) None (taken p) = Some None"
  using pointer_streams_legal [of Some "[(False, ''h 0 5 6'' @ [newline]), (True, ''t 0 1 b 5 6'' @ [newline])]"
      "[]" "\<lambda>n. int n" "\<lambda>_. True" "\<lambda>_. None" 1 "\<lambda>_. sample_answers"]
  by (simp add: Let_def)


end
