(* ===== verification/Hid_Layout.thy ===== *)
theory Hid_Layout
  imports Agent_Keyboard
begin

section \<open>What a report descriptor describes\<close>

text \<open>
  A report descriptor as the HID specification reads it, for the items that the agent's has: each is
  a byte with the kind of the item and the number of data bytes, then the data. Global items stay in
  force, local items end with the next main item. The input fields are in the order of the report.
\<close>

record hid_items =
  hidLogicalMin :: nat
  hidLogicalMax :: nat
  hidSize :: nat
  hidCount :: nat
  hidUsageMin :: nat
  hidUsageMax :: nat

datatype hid_field =
    Padding nat nat
  | Flags nat nat nat
  | Slots nat nat nat nat nat

definition input_field :: "u8 \<Rightarrow> hid_items \<Rightarrow> hid_field" where
  "input_field data h =
     (if bit data 0 then Padding (hidSize h) (hidCount h)
      else if bit data 1 then Flags (hidSize h) (hidCount h) (hidUsageMin h)
      else Slots (hidSize h) (hidCount h) (hidUsageMin h) (hidLogicalMin h) (hidLogicalMax h))"

fun input_fields :: "bytes \<Rightarrow> hid_items \<Rightarrow> hid_field list" where
  "input_fields [] h = []"
| "input_fields [b] h = []"
| "input_fields (b # x # r) h =
     (if b = 0x15 then input_fields r (h\<lparr>hidLogicalMin := unat x\<rparr>)
      else if b = 0x25 then input_fields r (h\<lparr>hidLogicalMax := unat x\<rparr>)
      else if b = 0x75 then input_fields r (h\<lparr>hidSize := unat x\<rparr>)
      else if b = 0x95 then input_fields r (h\<lparr>hidCount := unat x\<rparr>)
      else if b = 0x19 then input_fields r (h\<lparr>hidUsageMin := unat x\<rparr>)
      else if b = 0x29 then input_fields r (h\<lparr>hidUsageMax := unat x\<rparr>)
      else if b = 0x81 then input_field x h # input_fields r (h\<lparr>hidUsageMin := 0, hidUsageMax := 0\<rparr>)
      else if b = 0x91 then input_fields r (h\<lparr>hidUsageMin := 0, hidUsageMax := 0\<rparr>)
      else input_fields r h)"

definition layout :: "bytes \<Rightarrow> hid_field list" where
  "layout d = input_fields d \<lparr>hidLogicalMin = 0, hidLogicalMax = 0, hidSize = 0, hidCount = 0, hidUsageMin = 0, hidUsageMax = 0\<rparr>"

text \<open>The usages that a report names, field by field, from the bits of the report.\<close>

definition report_bits :: "bytes \<Rightarrow> bool list" where
  "report_bits r = concat (map (\<lambda>b. map (bit b) [0..<8]) r)"

primrec pieces :: "nat \<Rightarrow> nat \<Rightarrow> 'a list \<Rightarrow> 'a list list" where
  "pieces 0 n xs = []"
| "pieces (Suc k) n xs = take n xs # pieces k n (drop n xs)"

definition bits_value :: "bool list \<Rightarrow> nat" where
  "bits_value bs = horner_sum of_bool 2 bs"

fun field_bits :: "hid_field \<Rightarrow> nat" where
  "field_bits (Padding w n) = w * n"
| "field_bits (Flags w n u) = w * n"
| "field_bits (Slots w n u lo hi) = w * n"

fun field_usages :: "hid_field \<Rightarrow> bool list \<Rightarrow> nat list" where
  "field_usages (Padding w n) bs = []"
| "field_usages (Flags w n u) bs =
     map (\<lambda>(i, p). u + i) (filter (\<lambda>(i, p). bits_value p \<noteq> 0) (zip [0..<n] (pieces n w bs)))"
| "field_usages (Slots w n u lo hi) bs =
     map (\<lambda>p. u + (bits_value p - lo)) (filter (\<lambda>p. lo \<le> bits_value p \<and> bits_value p \<le> hi) (pieces n w bs))"

fun usages_named :: "hid_field list \<Rightarrow> bool list \<Rightarrow> nat list" where
  "usages_named [] bs = []"
| "usages_named (f # fs) bs = field_usages f (take (field_bits f) bs) @ usages_named fs (drop (field_bits f) bs)"

text \<open>The usages from 4 on are keys; 0 is an empty slot and 1 to 3 are the codes for errors.\<close>

definition keys_down :: "bytes \<Rightarrow> nat set" where
  "keys_down r = {u \<in> set (usages_named (layout HID_KEYBOARD_REPORT_DESCRIPTOR) (report_bits r)). 4 \<le> u}"

lemma keyboard_layout:
  "layout HID_KEYBOARD_REPORT_DESCRIPTOR = [Flags 1 8 0xe0, Padding 8 1, Slots 8 6 0 0 0x65]"
  by code_simp

lemma layout_size: "sum_list (map field_bits (layout HID_KEYBOARD_REPORT_DESCRIPTOR)) = 8 * HID_KEYBOARD_REPORT_BYTES"
  by code_simp

lemma byte_value: "bits_value (map (bit b) [0..<8]) = unat (b :: u8)"
proof -
  have "map (bit b) [0..<8] = map (bit (unat b)) [0..<8]"
    by (simp add: bit_unsigned_iff)
  then have "bits_value (map (bit b) [0..<8]) = take_bit 8 (unat b)"
    unfolding bits_value_def by (simp only: horner_sum_bit_eq_take_bit)
  then show ?thesis using unsigned_less [of b, where 'a = nat] by (simp add: take_bit_nat_eq_self)
qed

lemma report_bits_Cons: "report_bits (b # r) = map (bit b) [0..<8] @ report_bits r"
  by (simp add: report_bits_def)

lemma pieces_bytes: "length r = n \<Longrightarrow> pieces n 8 (report_bits r) = map (\<lambda>b. map (bit b) [0..<8]) r"
  by (induction r arbitrary: n) (auto simp: report_bits_Cons)

lemma pieces_bits: "length xs = n \<Longrightarrow> pieces n 1 xs = map (\<lambda>x. [x]) xs"
  by (induction xs arbitrary: n) auto

lemma flags_usages:
  "set (field_usages (Flags 1 8 0xe0) (map (bit b) [0..<8])) = (\<lambda>i. 0xe0 + i) ` {i. i < 8 \<and> bit b i}"
proof -
  have "zip [0..<8] (map (\<lambda>x. [x]) (map (bit b) [0..<8])) = map (\<lambda>i. (i, [bit b i])) [0..<8]"
    by (simp add: zip_map2 zip_same_conv_map)
  then show ?thesis
    unfolding field_usages.simps by (subst pieces_bits) (auto simp: bits_value_def image_iff)
qed

lemma slots_usages:
  "length s = 6 \<Longrightarrow> set (field_usages (Slots 8 6 0 0 0x65) (report_bits s)) = {u \<in> unat ` set s. u \<le> 0x65}"
  by (auto simp: pieces_bytes filter_map comp_def byte_value)

lemma keys_down_report:
  assumes "length r = 8"
  shows "keys_down r = (\<lambda>i. 0xe0 + i) ` {i. i < 8 \<and> bit (r ! 0) i} \<union> {u \<in> unat ` set (drop 2 r). 4 \<le> u \<and> u \<le> 0x65}"
proof -
  obtain m p s where r: "r = m # p # s" and s: "length s = 6"
    using assms by (metis (no_types) Suc_length_conv numeral_eq_Suc pred_numeral_simps(2,3) BitM.simps(1,2,3) numeral_2_eq_2 One_nat_def)
  have l: "length (report_bits s) = 48"
    unfolding report_bits_def using s by (simp add: length_concat comp_def sum_list_replicate map_replicate_const)
  show ?thesis
    using flags_usages [of m] slots_usages [OF s] l
    by (auto simp: keys_down_def keyboard_layout r report_bits_Cons simp del: field_usages.simps(2,3))
qed

end
