(* ===== verification/Input_Path.thy ===== *)
theory Input_Path
  imports Agent_Input Hid_Layout Guest_Input
begin

text \<open>
  The path of input from the shell into the guest: what the sender of
  \<^verbatim>\<open>shell/core/guest_input_sender.cpp\<close> writes into a connection is what the agent of
  \<^verbatim>\<open>shell/guest_agent/MacMuAgent.java\<close> reads there and carries out.
\<close>

section \<open>The shell's events\<close>

text \<open>
  What the sender in the shell can be asked for, the line it writes, and what is to happen in the
  guest: the display is translated and the operation gets the numbers that the shell has given. The
  agent reads display numbers and buttons as \<^verbatim>\<open>int\<close>, the shell writes them unsigned.
\<close>

datatype host_event =
    H_hover u32 i32 i32
  | H_exit
  | H_scroll u32 i32 i32 i32 i32
  | H_touch char u32 i32 i32 i32
  | H_move u32 i32 i32 u32
  | H_button u32 i32 i32 u32
  | H_key u32 bytes

fun line_of :: "host_event \<Rightarrow> string option" where
  "line_of (H_hover d x y) = hover_line d x y"
| "line_of H_exit = Some (''e'' @ [newline])"
| "line_of (H_scroll d x y h v) = scroll_line d x y h v"
| "line_of (H_touch ph d i x y) = touch_line ph d i x y"
| "line_of (H_move d x y b) = mouse_line (CHR ''m'') d x y b"
| "line_of (H_button d x y b) = mouse_line (CHR ''b'') d x y b"
| "line_of (H_key d rpt) = keyboard_line d rpt"

definition as_int :: "u32 \<Rightarrow> int option" where
  "as_int w = (if unat w < 2 ^ 31 then Some (int (unat w)) else None)"

definition at_point ::
  "(string \<Rightarrow> 'f option) \<Rightarrow> i32 \<Rightarrow> i32 \<Rightarrow> ('f \<Rightarrow> 'f \<Rightarrow> 'f agent_op) \<Rightarrow> 'f agent_op" where
  "at_point pf x y k =
     with_parsed (pf (decimal_int (sint x))) (\<lambda>fx. with_parsed (pf (decimal_int (sint y))) (\<lambda>fy. k fx fy))"

fun effect_of :: "(string \<Rightarrow> 'f option) \<Rightarrow> host_event \<Rightarrow> 'f agent_op" where
  "effect_of pf (H_hover d x y) =
     with_parsed (as_int d) (\<lambda>e. on_display e (\<lambda>i. at_point pf x y (\<lambda>fx fy. on_pointer (injectHover i fx fy))))"
| "effect_of pf H_exit = on_pointer injectHoverExit"
| "effect_of pf (H_scroll d x y h v) =
     with_parsed (as_int d) (\<lambda>e. on_display e (\<lambda>i. at_point pf x y (\<lambda>fx fy.
       on_pointer (injectScroll i fx fy (sint h) (sint v)))))"
| "effect_of pf (H_touch ph d pid x y) =
     with_parsed (as_int d) (\<lambda>e. on_display e (\<lambda>i. at_point pf x y (\<lambda>fx fy.
       on_pointer (injectTouch i (sint pid) [ph] fx fy))))"
| "effect_of pf (H_move d x y b) =
     with_parsed (as_int d) (\<lambda>e. on_display e (\<lambda>i. at_point pf x y (\<lambda>fx fy.
       with_parsed (as_int b) (\<lambda>bs. on_pointer (injectMouseMove i fx fy bs)))))"
| "effect_of pf (H_button d x y b) =
     with_parsed (as_int d) (\<lambda>e. on_display e (\<lambda>i. at_point pf x y (\<lambda>fx fy.
       with_parsed (as_int b) (\<lambda>bs. on_pointer (injectMouseButton i fx fy bs)))))"
| "effect_of pf (H_key d rpt) =
     with_parsed (as_int d) (\<lambda>e. if length rpt = HID_KEYBOARD_REPORT_BYTES then key_report e rpt else (\<lambda>a. (False, a)))"

lemma split_spaced:
  "CHR '' '' \<notin> set w \<Longrightarrow> \<forall>v \<in> set ws. CHR '' '' \<notin> set v \<Longrightarrow> split_at CHR '' '' (w @ spaced ws) = w # ws"
  by (induction ws arbitrary: w) (simp_all add: spaced_def split_at_no_sep split_at_append)

lemma java_split_spaced:
  assumes "CHR '' '' \<notin> set w" and "\<forall>v \<in> set ws. CHR '' '' \<notin> set v" and "last (w # ws) \<noteq> []"
  shows "java_split (w @ spaced ws) = w # ws"
proof -
  have "rev (w # ws) = last (w # ws) # tl (rev (w # ws))"
    by (metis hd_rev list.exhaust_sel rev_is_Nil_conv list.distinct(1))
  then have "dropWhile (\<lambda>f. f = []) (rev (w # ws)) = rev (w # ws)"
    using assms(3) by (metis (mono_tags, lifting) dropWhile.simps(2))
  then show ?thesis
    using split_spaced [OF assms(1,2)] split_at_no_sep [of "CHR '' ''" "w @ spaced ws"]
    by (auto simp: java_split_def simp del: rev.simps)
qed

lemma decimal_no_space: "c \<in> {CHR '' '', newline, carriage_return} \<Longrightarrow> c \<notin> set (decimal n)"
  using decimal_digits [of c n] digit_not_special [of c] by (auto simp: carriage_return_def)

lemma number_text [simp]:
  "c \<in> {CHR '' '', newline, carriage_return} \<Longrightarrow> c \<notin> set (unsigned_text w)"
  "c \<in> {CHR '' '', newline, carriage_return} \<Longrightarrow> c \<notin> set (signed x)"
  "unsigned_text w \<noteq> []" "signed x \<noteq> []"
  using decimal_no_space [of c]
  by (auto simp: unsigned_text_def signed_def decimal_int_def newline_def carriage_return_def)

lemma parseInt_unsigned [simp]: "parseInt (unsigned_text w) = as_int w"
proof (cases "unat w < 2 ^ 31")
  case True
  then have "int (unat w) < 2 ^ 31" by (metis of_nat_less_numeral_power_cancel_iff)
  then show ?thesis using parse_decimal [of "unat w" "2 ^ 31"] True by (simp add: parseInt_def unsigned_text_def as_int_def)
next
  case False
  then have "\<not> int (unat w) < 2 ^ 31" by (metis of_nat_less_numeral_power_cancel_iff)
  then show ?thesis
    using take1_decimal [of "unat w"] False
    by (simp add: parseInt_def unsigned_text_def as_int_def parse_within_def Let_def)
qed

lemma parseInt_signed [simp]: "parseInt (signed x) = Some (sint x)"
  using sint_greater_eq [of x] sint_less [of x]
  by (simp add: parseInt_def signed_def parse_decimal_int)

lemma fits_Some: "fits n (b @ [newline]) = Some l \<Longrightarrow> butlast l = b"
  by (auto simp: fits_def split: if_splits)

definition plain :: "string \<Rightarrow> bool" where
  "plain s \<longleftrightarrow> newline \<notin> set s \<and> carriage_return \<notin> set s"

lemma plain_simps [simp]:
  "plain (s @ t) \<longleftrightarrow> plain s \<and> plain t" "plain (unsigned_text w)" "plain (signed x)"
  "plain []" "plain (spaced ws) \<longleftrightarrow> list_all plain ws"
  by (auto simp: plain_def spaced_def list_all_iff newline_def carriage_return_def)

lemma hex_digits: "list_all (\<lambda>n. hex_value (kHex ! n) = Some n) [0..<16]"
  by code_simp

lemma hex_value_digit: "n < 16 \<Longrightarrow> hex_value (kHex ! n) = Some n"
  using hex_digits unfolding list_all_iff by (metis atLeastLessThan_iff le0 set_upt)

lemma nibbles: "16 * unat (drop_bit 4 b) + unat (b AND 0x0f) = unat (b :: u8)"
proof -
  have "b AND 0x0f = take_bit 4 b" by (simp add: take_bit_eq_mask mask_numeral)
  then show ?thesis
    by (simp add: drop_bit_eq_div take_bit_eq_mod unat_div_distrib unat_mod_distrib)
qed

lemma nibble_less: "unat (drop_bit 4 (b :: u8)) < 16" "unat (b AND 0x0f) < 16"
  using nibbles [of b] unsigned_less [of b, where 'a = nat] word_and_le1 [of b "0x0f"]
  by (auto simp: word_le_nat_alt)

lemma hex_pairs_bytes: "hex_pairs (concat (map hex_byte rpt)) = Some rpt"
  by (induction rpt) (simp_all add: hex_byte_def hex_value_digit nibble_less nibbles)

lemma decodeHex_bytes: "decodeHex (concat (map hex_byte rpt)) n = (if length rpt = n then Some rpt else None)"
proof -
  have "length (concat (map hex_byte rpt)) = length rpt * 2"
    by (induction rpt) simp_all
  then show ?thesis by (simp add: decodeHex_def hex_pairs_bytes)
qed

lemma hex_text: "c \<in> {CHR '' '', newline, carriage_return} \<Longrightarrow> c \<notin> set (concat (map hex_byte rpt))"
proof -
  assume c: "c \<in> {CHR '' '', newline, carriage_return}"
  have "list_all (\<lambda>n. \<forall>c \<in> {CHR '' '', newline, carriage_return}. kHex ! n \<noteq> c) [0..<16]" by code_simp
  then have "kHex ! n \<noteq> c" if "n < 16" for n
    using c that unfolding list_all_iff by (metis atLeastLessThan_iff le0 set_upt)
  then show ?thesis by (auto simp: hex_byte_def) (metis nibble_less)+
qed

text \<open>A line is a word and more words behind it; the words are the fields.\<close>

fun words_of :: "host_event \<Rightarrow> string list" where
  "words_of (H_hover d x y) = [''h'', unsigned_text d, signed x, signed y]"
| "words_of H_exit = [''e'']"
| "words_of (H_scroll d x y h v) = [''s'', unsigned_text d, signed x, signed y, signed h, signed v]"
| "words_of (H_touch ph d i x y) = [''t'', unsigned_text d, signed i, [ph], signed x, signed y]"
| "words_of (H_move d x y b) = [''m'', unsigned_text d, signed x, signed y, unsigned_text b]"
| "words_of (H_button d x y b) = [''b'', unsigned_text d, signed x, signed y, unsigned_text b]"
| "words_of (H_key d rpt) = [''k'', unsigned_text d, concat (map hex_byte rpt)]"

fun event_ok :: "host_event \<Rightarrow> bool" where
  "event_ok (H_touch ph d i x y) \<longleftrightarrow> ph \<in> {CHR ''b'', CHR ''m'', CHR ''e''}"
| "event_ok (H_key d rpt) \<longleftrightarrow> length rpt = 8"
| "event_ok _ \<longleftrightarrow> True"

lemma line_of_words:
  "line_of ev = Some l \<Longrightarrow> l = hd (words_of ev) @ spaced (tl (words_of ev)) @ [newline]"
  by (cases ev) (auto simp: hover_line_def scroll_line_def touch_line_def mouse_line_def keyboard_line_def
      fits_def Let_def spaced_def split: if_splits)

lemma words_fields:
  assumes "event_ok ev"
  shows "java_split (hd (words_of ev) @ spaced (tl (words_of ev))) = words_of ev"
proof -
  have h: "concat (map hex_byte rpt) \<noteq> []" if "length rpt = 8" for rpt
    using that by (cases rpt) (auto simp: hex_byte_def)
  have "CHR '' '' \<notin> set (hd (words_of ev))" "\<forall>v \<in> set (tl (words_of ev)). CHR '' '' \<notin> set v"
    "last (hd (words_of ev) # tl (words_of ev)) \<noteq> []"
    using assms h hex_text [of "CHR '' ''"] by (cases ev; auto)+
  from java_split_spaced [OF this] show ?thesis by (cases ev) simp_all
qed

lemma line_effect:
  assumes "event_ok ev" and "line_of ev = Some l"
  shows "handleLine pf (butlast l) a = effect_of pf ev a"
proof -
  have b: "butlast l = hd (words_of ev) @ spaced (tl (words_of ev))"
    using line_of_words [OF assms(2)] by (simp add: butlast_append)
  have "butlast l \<noteq> []" unfolding b by (cases ev) simp_all
  then show ?thesis
    using words_fields [OF assms(1)] assms(1) unfolding handleLine_def Let_def b
    by (cases ev)
      (simp_all add: at_point_def signed_def [symmetric] decodeHex_bytes HID_KEYBOARD_REPORT_BYTES_def
        with_parsed_def fun_eq_iff on_display_def case_prod_beta split: option.split)
qed

lemma java_lines_step:
  "plain b \<Longrightarrow> java_lines cur (b @ newline # s) = (let (ls, r) = java_lines [] s in ((cur @ b) # ls, r))"
  by (induction b arbitrary: cur) (auto simp: plain_def)

lemma java_lines_whole:
  "\<forall>l \<in> set ls. plain (butlast l) \<and> l = butlast l @ [newline] \<Longrightarrow> java_lines [] (concat ls) = (map butlast ls, [])"
proof (induction ls)
  case (Cons l ls)
  then have "java_lines [] (butlast l @ newline # concat ls) = (butlast l # map butlast ls, [])"
    by (simp add: java_lines_step)
  moreover have "concat (l # ls) = butlast l @ newline # concat ls"
    using Cons.prems by (metis append.assoc append_Cons append_Nil concat.simps(2) list.set_intros(1))
  ultimately show ?case by (simp del: concat.simps)
qed simp

lemma line_of_plain:
  assumes "event_ok ev" and "line_of ev = Some l"
  shows "plain (butlast l) \<and> l = butlast l @ [newline]"
proof -
  have b: "butlast l = hd (words_of ev) @ spaced (tl (words_of ev))" "l = butlast l @ [newline]"
    using line_of_words [OF assms(2)] by (simp_all add: butlast_append)
  have "plain [ph]" if "ph \<in> {CHR ''b'', CHR ''m'', CHR ''e''}" for ph
    using that by (auto simp: plain_def newline_def carriage_return_def)
  moreover have "plain (concat (map hex_byte rpt))" for rpt
    using hex_text [of newline rpt] hex_text [of carriage_return rpt] by (simp add: plain_def)
  moreover have "plain ''h''" "plain ''e''" "plain ''s''" "plain ''t''" "plain ''m''" "plain ''b''" "plain ''k''"
    by (simp_all add: plain_def newline_def carriage_return_def)
  ultimately have "plain (hd (words_of ev))" "list_all plain (tl (words_of ev))"
    using assms(1) by (cases ev; auto)+
  then show ?thesis using b by simp
qed

lemma line_of_there: "event_ok ev \<Longrightarrow> line_of ev \<noteq> None"
  using lines_fit by (cases ev) auto

definition text_for :: "host_event list \<Rightarrow> string" where
  "text_for evs = concat (map (\<lambda>ev. the (line_of ev)) evs)"

definition effects :: "(string \<Rightarrow> 'f option) \<Rightarrow> host_event list \<Rightarrow> 'f guest_agent \<Rightarrow> 'f guest_agent" where
  "effects pf evs a = fold (\<lambda>ev b. snd (effect_of pf ev b)) evs a"

lemma handle_events:
  "\<forall>ev \<in> set evs. event_ok ev \<Longrightarrow>
   handle_lines pf (map butlast (map (\<lambda>ev. the (line_of ev)) evs)) a = effects pf evs a"
  unfolding handle_lines_def effects_def
proof (induction evs arbitrary: a)
  case (Cons ev evs)
  then obtain l where "line_of ev = Some l" using line_of_there [of ev] by auto
  then show ?case using line_effect [of ev l pf a] Cons by simp
qed simp

lemma lines_read_events:
  assumes "\<forall>ev \<in> set evs. event_ok ev"
  shows "lines_read broken (text_for evs) = map butlast (map (\<lambda>ev. the (line_of ev)) evs)"
proof -
  have "\<forall>l \<in> set (map (\<lambda>ev. the (line_of ev)) evs). plain (butlast l) \<and> l = butlast l @ [newline]"
    using assms line_of_plain line_of_there by fastforce
  from java_lines_whole [OF this] show ?thesis by (simp add: lines_read_def text_for_def)
qed

lemma connection_effects:
  "\<forall>ev \<in> set evs. event_ok ev \<Longrightarrow>
   handleHost pf broken (text_for evs) a = finish_connection (effects pf evs a)"
  by (simp add: handleHost_def lines_read_events handle_events del: map_map)

section \<open>From the sender to the guest\<close>

type_synonym socket_results = "line_send \<times> poll_out list \<times> line_send"

definition phase_kind :: "char \<Rightarrow> InputEventKind" where
  "phase_kind ph = (if ph = CHR ''b'' then kTouchBegin else if ph = CHR ''m'' then kTouchUpdate else kTouchEnd)"

fun gi_send_event ::
  "socket_results \<Rightarrow> host_event \<Rightarrow> guest_input \<Rightarrow> (bool \<times> guest_input \<times> giobs list) option" where
  "gi_send_event (f, ps, s) (H_hover d x y) = gi_send_hover f ps s d x y"
| "gi_send_event (f, ps, s) H_exit = gi_send_hover_exit f ps s"
| "gi_send_event (f, ps, s) (H_scroll d x y h v) = gi_send_scroll f ps s d x y h v"
| "gi_send_event (f, ps, s) (H_touch ph d i x y) = gi_send_touch f ps s (phase_kind ph) d i x y"
| "gi_send_event (f, ps, s) (H_move d x y b) = gi_send_mouse_move f ps s d x y b"
| "gi_send_event (f, ps, s) (H_button d x y b) = gi_send_mouse_button f ps s d x y b"
| "gi_send_event (f, ps, s) (H_key d rpt) = gi_send_keyboard_report f ps s d rpt"

text \<open>
  A sequence of calls: the events whose call has returned success, the sender and the system calls.
  A call that does not return ends the sequence.
\<close>

fun gi_send_events ::
  "(socket_results \<times> host_event) list \<Rightarrow> guest_input \<Rightarrow> host_event list \<times> guest_input \<times> giobs list" where
  "gi_send_events [] g = ([], g, [])"
| "gi_send_events ((r, ev) # xs) g =
     (case gi_send_event r ev g of
        None \<Rightarrow> ([], g, [])
      | Some (ok, g1, o1) \<Rightarrow>
          let (evs, g2, o2) = gi_send_events xs g1 in ((if ok then ev # evs else evs), g2, o1 @ o2))"

fun sendable :: "host_event \<Rightarrow> bool" where
  "sendable (H_scroll d x y h v) \<longleftrightarrow> h \<noteq> 0 \<or> v \<noteq> 0"
| "sendable ev \<longleftrightarrow> event_ok ev"

lemma sendable_ok: "sendable ev \<Longrightarrow> event_ok ev"
  by (cases ev) auto

lemma send_event_cases:
  assumes "sendable ev" and "gi_send_event r ev g = Some (ok, g', out)"
  shows "\<exists>rel first polls second. send_input_line first polls second (the (line_of ev)) rel g = Some (ok, g', out)"
proof -
  obtain l where l: "line_of ev = Some l" using line_of_there [OF sendable_ok [OF assms(1)]] by blast
  obtain f ps s where r: "r = (f, ps, s)" by (cases r)
  have ph: "touch_phase (phase_kind c) = Some c" if "c \<in> {CHR ''b'', CHR ''m'', CHR ''e''}" for c
    using that by (auto simp: phase_kind_def touch_phase_def)
  show ?thesis
    using assms l ph
    by (cases ev)
      (auto simp: r gi_send_hover_def gi_send_hover_exit_def gi_send_scroll_def gi_send_touch_def
        gi_send_mouse_move_def gi_send_mouse_button_def gi_send_keyboard_report_def send_formatted_def, blast+)
qed

lemma send_line_open:
  assumes "send_input_line first polls second l rel g = Some (ok, g', out)" and "giWriteFd g = fd" and "0 \<le> fd"
  shows "if giWriteFd g' = fd then g' = g \<and> carried fd out s = (if ok then s @ l else s)
         else giWriteFd g' = -1 \<and> \<not> ok"
  using assms
  by (auto simp: send_input_line_def close_client_locked_def carry_def Let_def
      split: option.splits line_send.splits if_splits)

lemma send_line_closed: "giWriteFd g = -1 \<Longrightarrow> send_input_line first polls second l rel g = Some (False, g, [])"
  by (simp add: send_input_line_def)

lemma send_events_Cons:
  assumes "gi_send_events ((r, ev) # xs) g = (evs, g', out)" and "gi_send_event r ev g = Some (ok, g1, o1)"
  obtains evs2 o2 where "gi_send_events xs g1 = (evs2, g', o2)" "evs = (if ok then ev # evs2 else evs2)" "out = o1 @ o2"
proof -
  obtain evs2 g2 o2 where r: "gi_send_events xs g1 = (evs2, g2, o2)" by (metis surj_pair)
  then have "evs = (if ok then ev # evs2 else evs2)" "g' = g2" "out = o1 @ o2" using assms by simp_all
  then show thesis using that r by simp
qed

lemma send_events_closed:
  "\<forall>x \<in> set xs. sendable (snd x) \<Longrightarrow> giWriteFd g = -1 \<Longrightarrow> gi_send_events xs g = (evs, g', out) \<Longrightarrow>
   giWriteFd g' = -1"
proof (induction xs arbitrary: g evs out)
  case (Cons x xs)
  obtain r ev where x: "x = (r, ev)" by (cases x)
  show ?case
  proof (cases "gi_send_event r ev g")
    case None
    then show ?thesis using Cons.prems by (simp add: x)
  next
    case (Some t)
    obtain ok g1 o1 where t: "t = (ok, g1, o1)" by (cases t)
    obtain rel f ps sd where "send_input_line f ps sd (the (line_of ev)) rel g = Some (ok, g1, o1)"
      using send_event_cases [of ev r g ok g1 o1] Cons.prems(1) Some t x by auto
    then have "g1 = g" using send_line_closed [OF Cons.prems(2)] by simp
    moreover obtain evs2 o2 where "gi_send_events xs g1 = (evs2, g', o2)"
      by (rule send_events_Cons [OF Cons.prems(3) [unfolded x] Some [unfolded t]])
    ultimately show ?thesis using Cons.IH [OF _ Cons.prems(2)] Cons.prems(1) by simp
  qed
qed simp

lemma send_events_text:
  "\<forall>x \<in> set xs. sendable (snd x) \<Longrightarrow> giWriteFd g = fd \<Longrightarrow> 0 \<le> fd \<Longrightarrow>
   gi_send_events xs g = (evs, g', out) \<Longrightarrow> giWriteFd g' = fd \<Longrightarrow>
   carried fd out s = s @ text_for evs \<and> (\<forall>ev \<in> set evs. event_ok ev)"
proof (induction xs arbitrary: g evs out s)
  case Nil
  then show ?case by (auto simp: text_for_def)
next
  case (Cons x xs)
  obtain r ev where x: "x = (r, ev)" by (cases x)
  show ?case
  proof (cases "gi_send_event r ev g")
    case None
    then show ?thesis using Cons.prems by (auto simp: x text_for_def)
  next
    case (Some t)
    obtain ok g1 o1 where t: "t = (ok, g1, o1)" by (cases t)
    obtain evs2 o2 where rest: "gi_send_events xs g1 = (evs2, g', o2)"
      and eq: "evs = (if ok then ev # evs2 else evs2)" "out = o1 @ o2"
      by (rule send_events_Cons [OF Cons.prems(4) [unfolded x] Some [unfolded t]])
    have ok: "\<forall>x \<in> set xs. sendable (snd x)" "sendable ev" using Cons.prems(1) by (simp_all add: x)
    obtain rel f ps sd where sl: "send_input_line f ps sd (the (line_of ev)) rel g = Some (ok, g1, o1)"
      using send_event_cases [OF ok(2) Some [unfolded t]] by blast
    note o = send_line_open [OF sl Cons.prems(2,3), of s]
    have fd: "giWriteFd g1 = fd"
      using o send_events_closed [OF ok(1) _ rest] Cons.prems(3,5) by (cases "giWriteFd g1 = fd") auto
    then have "carried fd o1 s = (if ok then s @ the (line_of ev) else s)" using o by simp
    then show ?thesis
      using Cons.IH [OF ok(1) fd Cons.prems(3) rest Cons.prems(5), of "carried fd o1 s"] sendable_ok [OF ok(2)]
      by (auto simp: eq text_for_def)
  qed
qed

section \<open>Keys\<close>

declare upt_rec_numeral [simp del]

lemma held_reportable: "usage \<in> foldl key_spec P evs \<Longrightarrow> \<forall>u \<in> P. reportable u \<Longrightarrow> reportable usage"
proof (induction evs arbitrary: P)
  case (Cons e evs)
  have "\<forall>u \<in> key_spec P e. reportable u"
    using Cons.prems(2) by (cases e) (auto split: if_splits)
  then show ?case using Cons.IH Cons.prems(1) by simp
qed simp

lemma unat_small: "u < 0x66 \<Longrightarrow> unat (of_nat u :: u8) = u" "i < 8 \<Longrightarrow> unat (0xe0 + of_nat i :: u8) = 0xe0 + i"
  by (simp_all add: unat_of_nat take_bit_nat_eq_self unat_word_ariths)

lemma reportable_cases:
  assumes "reportable u"
  obtains (mod) i where "i < 8" "u = 0xe0 + of_nat i" | (key) "4 \<le> unat u" "unat u < 0x66"
proof (cases "is_modifier u")
  case True
  then show thesis using mod [of "unat (u - 0xe0)"] by (simp add: is_modifier_index)
next
  case False
  then show thesis using assms key by (simp add: reportable_def word_le_nat_alt word_less_nat_alt)
qed

lemma usages_split:
  assumes "\<forall>u \<in> P. reportable u"
  shows "unat ` P = (\<lambda>i. 0xe0 + i) ` {i. i < 8 \<and> 0xe0 + of_nat i \<in> P} \<union> {u. 4 \<le> u \<and> u < 0x66 \<and> of_nat u \<in> P}"
proof (intro equalityI subsetI)
  fix x
  assume "x \<in> unat ` P"
  then obtain u where u: "u \<in> P" "x = unat u" by blast
  with assms have "reportable u" by blast
  then show "x \<in> (\<lambda>i. 0xe0 + i) ` {i. i < 8 \<and> 0xe0 + of_nat i \<in> P} \<union> {u. 4 \<le> u \<and> u < 0x66 \<and> of_nat u \<in> P}"
  proof (cases rule: reportable_cases)
    case (mod i)
    then show ?thesis using u unat_small(2) [of i] by blast
  next
    case key
    then show ?thesis using u by simp
  qed
next
  fix x
  assume "x \<in> (\<lambda>i. 0xe0 + i) ` {i. i < 8 \<and> 0xe0 + of_nat i \<in> P} \<union> {u. 4 \<le> u \<and> u < 0x66 \<and> of_nat u \<in> P}"
  then consider i where "i < 8" "0xe0 + of_nat i \<in> P" "x = 0xe0 + i" | "x < 0x66" "of_nat x \<in> P" by blast
  then show "x \<in> unat ` P"
    by cases (metis unat_small(2) imageI, metis unat_small(1) imageI)
qed

lemma slot_set:
  assumes "length us \<le> 6" and "\<forall>u \<in> set us. 4 \<le> u \<and> u < 0x66"
  shows "{u \<in> unat ` set (boot_slots us). 4 \<le> u \<and> u \<le> 0x65} = set us"
proof (intro equalityI subsetI)
  fix u
  assume "u \<in> {u \<in> unat ` set (boot_slots us). 4 \<le> u \<and> u \<le> 0x65}"
  then obtain w where w: "w \<in> set (boot_slots us)" "u = unat w" "4 \<le> u" by blast
  then obtain v where "v \<in> set us" "w = of_nat v" using assms(1) by (auto simp: boot_slots_def)
  then show "u \<in> set us" using w(2) assms(2) unat_small(1) [of v] by auto
next
  fix u
  assume u: "u \<in> set us"
  then have "of_nat u \<in> set (boot_slots us)" using assms(1) by (simp add: boot_slots_def)
  then have "unat (of_nat u :: u8) \<in> unat ` set (boot_slots us)" by (rule imageI)
  then show "u \<in> {u \<in> unat ` set (boot_slots us). 4 \<le> u \<and> u \<le> 0x65}"
    using u assms(2) unat_small(1) [of u] by auto
qed

lemma keys_down_state:
  assumes "length [u \<leftarrow> [4..<0x66]. of_nat u \<in> foldl key_spec {} evs] \<le> 6"
  shows "keys_down (report (foldl key_step fresh_keyboard evs)) = unat ` foldl key_spec {} evs"
proof -
  let ?s = "foldl key_step fresh_keyboard evs" and ?P = "foldl key_spec {} evs"
  let ?us = "[u \<leftarrow> [4..<0x66]. of_nat u \<in> ?P]"
  have inv: "keyboard_inv ?s" and P: "pressed_set ?s = ?P"
    using pressed_set_run [OF keyboard_inv_fresh, of evs] by (simp_all add: pressed_set_fresh)
  have len: "length (report ?s) = 8" using inv by (simp add: keyboard_inv_def)
  have "\<forall>u \<in> set ?us. 4 \<le> u \<and> u < 0x66" by simp
  from slot_set [OF assms this]
  have "{u \<in> unat ` set (drop 2 (report ?s)). 4 \<le> u \<and> u \<le> 0x65} = {u. 4 \<le> u \<and> u < 0x66 \<and> of_nat u \<in> ?P}"
    unfolding report_of_pressed(1) [OF inv] P by auto
  moreover have "bit (report ?s ! 0) i \<longleftrightarrow> 0xe0 + of_nat i \<in> ?P" if "i < 8" for i
    using report_of_pressed(2) [OF inv] that unfolding P map_eq_conv by simp
  then have "{i. i < 8 \<and> bit (report ?s ! 0) i} = {i. i < 8 \<and> 0xe0 + of_nat i \<in> ?P}" by blast
  moreover have "\<forall>u \<in> ?P. reportable u" using held_reportable [of _ "{}" evs] by blast
  ultimately show ?thesis unfolding keys_down_report [OF len] by (simp only: usages_split)
qed

lemma key_effect:
  assumes "effect_of pf (H_key d rpt) a = (True, a')"
  shows "\<exists>k. map_of (uhidKeyboards (keyboards a')) (int (unat d)) = Some k \<and>
    displayName (keyAnswers a (keyReports a)) = Some (devUniqueId k) \<and>
    last (uhidCalls a') = Uhid_write (devFd k) (le_bytes 4 UHID_INPUT2 @ le_bytes 2 (8 :: u16) @ rpt)"
proof -
  have d: "as_int d = Some (int (unat d))" "length rpt = 8"
    using assms by (auto simp: with_parsed_def as_int_def HID_KEYBOARD_REPORT_BYTES_def split: if_splits)
  obtain ok ds u c where w: "writeUhidKeyboardReport (agentPid a) (keyAnswers a (keyReports a)) (int (unat d)) rpt
      (displays a) (keyboards a) = (ok, ds, u, c)" by (metis surj_pair)
  have a': "ok" "keyboards a' = u" "uhidCalls a' = uhidCalls a @ c"
    using assms d w by (auto simp: with_parsed_def HID_KEYBOARD_REPORT_BYTES_def key_report_def)
  have w': "writeUhidKeyboardReport (agentPid a) (keyAnswers a (keyReports a)) (int (unat d)) rpt
      (displays a) (keyboards a) = (True, ds, u, c)" using w a'(1) by simp
  have "c \<noteq> []"
    using w' by (auto simp: report_by_device writeUhidEvent_def Let_def split: if_splits option.splits prod.splits)
  then show ?thesis using report_written [OF w'] d(2) by (auto simp: a' HID_KEYBOARD_REPORT_BYTES_def)
qed

section \<open>Properties\<close>

text \<open>
  (C11) Whatever the socket does with each call: as long as the connection stays open, the agent carries
  out exactly the events whose call has returned success, in their order and with their numbers, and
  when the connection ends it ends every gesture.
\<close>

theorem sent_events_happen:
  assumes "giWriteFd g = fd" and "0 \<le> fd" and "\<forall>x \<in> set xs. sendable (snd x)"
    and "gi_send_events xs g = (evs, g', out)" and "giWriteFd g' = fd"
  shows "handleHost parseFloat broken (carried fd out []) a = finish_connection (effects parseFloat evs a)"
  using send_events_text [OF assms(3,1,2,4,5), of "[]"] connection_effects [of evs parseFloat broken a] by simp

theorem sent_events_happen_witness:
  "let g = new_guest_input\<lparr>giWriteFd := 7\<rparr>; full = (Line_took 12, [], Line_took 12); busy = (Line_errno EAGAIN, [], Line_took 0);
       (evs, g', out) = gi_send_events [(full, H_hover 0 640 360), (busy, H_move 0 2 2 0), ((Line_took 2, [], Line_took 2), H_exit)] g;
       a = new_agent [] (\<lambda>n. int n) (\<lambda>_. True) (\<lambda>_. None) 1 (\<lambda>_. sample_answers) in
   evs = [H_hover 0 640 360, H_exit] \<and>
   handleHost Some False (carried 7 out []) a = finish_connection (effects Some evs a)"
proof -
  let ?g = "new_guest_input\<lparr>giWriteFd := 7\<rparr>"
  let ?xs = "[((Line_took 12, [], Line_took 12), H_hover 0 640 360), ((Line_errno EAGAIN, [], Line_took 0), H_move 0 2 2 0),
    ((Line_took 2, [], Line_took 2), H_exit)] :: (socket_results \<times> host_event) list"
  have d: "decimal 640 = ''640''" "decimal 360 = ''360''" "decimal 0 = ''0''" "decimal 2 = ''2''" by code_simp+
  have s: "signed 640 = ''640''" "signed 360 = ''360''" "signed 2 = ''2''" "unsigned_text 0 = ''0''"
    by (simp_all add: signed_def decimal_int_def d unsigned_text_def)
  obtain evs g' out where r: "gi_send_events ?xs ?g = (evs, g', out)" by (metis surj_pair)
  then have e: "evs = [H_hover 0 640 360, H_exit]" "giWriteFd g' = 7"
    by (auto simp: gi_send_hover_def gi_send_mouse_move_def gi_send_hover_exit_def send_formatted_def hover_line_def
        mouse_line_def fits_def spaced_def s send_input_line_def attempt_line_def Let_def new_guest_input_def)
  have "handleHost Some False (carried 7 out []) a = finish_connection (effects Some evs a)" for a :: "string guest_agent"
    by (rule sent_events_happen [OF _ _ _ r]) (use e in \<open>simp_all add: new_guest_input_def\<close>)
  then show ?thesis unfolding Let_def r prod.case using e by simp
qed

text \<open>
  (C12) From the keys held in the shell to the keys that the guest sees: when no more than six keys
  besides the modifiers are held, the report line makes the agent write an event to the keyboard of
  the display, and the report in it, read by the descriptor with which that keyboard was made, names
  exactly the keys that are held.
\<close>

theorem keys_reach_guest:
  fixes a :: "'f guest_agent"
  assumes "length [u \<leftarrow> [4..<0x66]. of_nat u \<in> foldl key_spec {} evs] \<le> 6"
    and "keyboard_line d (report (foldl key_step fresh_keyboard evs)) = Some line"
    and "handleLine parseFloat (butlast line) a = (True, a')"
  shows "\<exists>k event. last (uhidCalls a') = Uhid_write (devFd k) event \<and>
    keys_down (drop 6 event) = unat ` foldl key_spec {} evs \<and>
    map_of (uhidKeyboards (keyboards a')) (int (unat d)) = Some k \<and>
    displayName (keyAnswers a (keyReports a)) = Some (devUniqueId k)"
proof -
  let ?rpt = "report (foldl key_step fresh_keyboard evs)"
  have "length ?rpt = 8"
    using pressed_set_run [OF keyboard_inv_fresh, of evs] by (simp add: keyboard_inv_def)
  then have "effect_of parseFloat (H_key d ?rpt) a = (True, a')"
    using line_effect [of "H_key d ?rpt" line parseFloat a] assms(2,3) by simp
  then obtain k where k: "map_of (uhidKeyboards (keyboards a')) (int (unat d)) = Some k"
    "displayName (keyAnswers a (keyReports a)) = Some (devUniqueId k)"
    "last (uhidCalls a') = Uhid_write (devFd k) (le_bytes 4 UHID_INPUT2 @ le_bytes 2 (8 :: u16) @ ?rpt)"
    using key_effect by blast
  have "drop 6 (le_bytes 4 UHID_INPUT2 @ le_bytes 2 (8 :: u16) @ ?rpt) = ?rpt" by simp
  then show ?thesis using k keys_down_state [OF assms(1)] by metis
qed

definition sample_agent :: "string guest_agent" where
  "sample_agent =
     (new_agent [] (\<lambda>n. int n) (\<lambda>_. True) (\<lambda>_. None) 1 (\<lambda>_. sample_answers))
       \<lparr>displays := \<lparr>displayIdCache = [2 \<mapsto> 5], dumps = (\<lambda>_. None), dumpCalls = 0\<rparr>\<rparr>"

lemma sample_key:
  assumes "length rpt = 8"
  shows "fst (effect_of Some (H_key 2 rpt) sample_agent)"
  using assms
  by (simp add: sample_agent_def new_agent_def with_parsed_def as_int_def HID_KEYBOARD_REPORT_BYTES_def key_report_def
      writeUhidKeyboardReport_def displayUniqueIdFor_def resolveAndroidDisplayId_def sample_answers_def
      new_uhid_def createUhidKeyboard_def writeUhidEvent_def length_create buildUhidInput2_def Let_def)

theorem keys_reach_guest_witness:
  "let rpt = report (foldl key_step fresh_keyboard [Key 0x04 True, Key 0xe1 True]) in
   \<exists>(k :: uhid_device) event. last (uhidCalls (snd (handleLine Some (butlast (the (keyboard_line 2 rpt))) sample_agent))) =
       Uhid_write (devFd k) event \<and> keys_down (drop 6 event) = {0x04, 0xe1} \<and> devUniqueId k = ''virtual:5''"
proof -
  let ?evs = "[Key 0x04 True, Key 0xe1 True]"
  let ?rpt = "report (foldl key_step fresh_keyboard ?evs)"
  have len: "length ?rpt = 8"
    using pressed_set_run [OF keyboard_inv_fresh, of ?evs] by (simp only: keyboard_inv_def)
  then obtain line where l: "keyboard_line 2 ?rpt = Some line" using lines_fit(5) [of ?rpt 2] by auto
  obtain ok a' where h: "handleLine Some (butlast line) sample_agent = (ok, a')" by fastforce
  have "handleLine Some (butlast line) sample_agent = effect_of Some (H_key 2 ?rpt) sample_agent"
    by (rule line_effect) (use len l in simp_all)
  then have t: "handleLine Some (butlast line) sample_agent = (True, a')"
    using sample_key [OF len] h by (metis fst_conv)
  have "reportable 0x04" "reportable 0xe1" by code_simp+
  then have P: "foldl key_spec {} ?evs = {0x04, 0xe1}" by auto
  have f: "length [u \<leftarrow> [4..<0x66]. of_nat u \<in> foldl key_spec {} ?evs] \<le> 6"
    unfolding P by code_simp
  from keys_reach_guest [OF f l t] obtain k :: uhid_device and event where "last (uhidCalls a') = Uhid_write (devFd k) event"
    "keys_down (drop 6 event) = unat ` {0x04, 0xe1 :: u8}"
    "displayName (keyAnswers sample_agent (keyReports sample_agent)) = Some (devUniqueId k)"
    unfolding P by blast
  then show ?thesis
    unfolding Let_def l option.sel t snd_conv by (auto simp: sample_agent_def new_agent_def sample_answers_def)
qed


end
